(* ===== verification/Prelude.thy ===== *)
theory Prelude
  imports Main "HOL-Library.Word"
begin

unbundle bit_operations_syntax

text \<open>
  Shared vocabulary of the development: the kernel's status codes
  (\<^verbatim>\<open>strata/include/strata/status.h\<close>), the outcome of a kernel call that may
  panic, the integer types and alignment macros of
  \<^verbatim>\<open>strata/include/strata/macros.h\<close> and \<^verbatim>\<open>bitops.h\<close>, and generic lemmas on
  words, divisions and lists that the component theories use.
\<close>

named_theorems status_simps \<open>evaluation of status codes\<close>
named_theorems word_bits \<open>bit-level facts about words\<close>

type_synonym uint8_t = "8 word"
type_synonym uint16_t = "16 word"
type_synonym uint32_t = "32 word"
type_synonym uint64_t = "64 word"

section \<open>Status codes\<close>

datatype (plugins only: code size) StStatus =
    STATUS_SUCCESS
  | STATUS_PENDING
  | STATUS_ALREADY_PERFORMED
  | STATUS_CREATED
  | STATUS_UNKNOWN_ERROR
  | STATUS_INVALID_RESOURCE
  | STATUS_UNEXPECTED_RESULT
  | STATUS_INVALID_SIGNATURE
  | STATUS_INVALID_VALUE
  | STATUS_NOT_SUPPORTED
  | STATUS_ENTRY_NOT_FOUND
  | STATUS_NOT_IMPLEMENTED
  | STATUS_HARDWARE_NOT_FOUND
  | STATUS_HARDWARE_FAILED
  | STATUS_IO_TIMEOUT
  | STATUS_BUFFER_UNDERFLOW
  | STATUS_CONFLICTING_STATE
  | STATUS_END_OF_LIST
  | STATUS_WRONG_ELEMENT_TYPE
  | STATUS_DUPLICATE_ENTRY
  | STATUS_SYNTAX_ERROR
  | STATUS_END_OF_FILE
  | STATUS_INVALID_FORMAT
  | STATUS_SIZE_CHECK_FAILURE
  | STATUS_INVALID_SYNTAX
  | STATUS_BUFFER_TOO_SMALL
  | STATUS_PAGE_NOT_PRESENT
  | STATUS_INSUFFICIENT_SPACE
  | STATUS_FEATURE_DISABLED
  | STATUS_THREAD_NOT_FINISHED
  | STATUS_INVALID_THREAD
  | STATUS_NOT_ALLOCATED
  | STATUS_NOT_PERMITTED
  | STATUS_ASSERTION_FAILED
  | STATUS_FS_INCONSISTENT
  | STATUS_SYSTEM_CORRUPTED
  | STATUS_TOO_LARGE
  | STATUS_INTERRUPTED
  | STATUS_IO_ERROR
  | STATUS_IO_ARGUMENTS_TOO_LONG
  | STATUS_INVALID_HANDLE
  | STATUS_TEMPORARY_ERROR
  | STATUS_RESOURCE_BUSY
  | STATUS_NOT_A_DIRECTORY
  | STATUS_IS_A_DIRECTORY
  | STATUS_TOO_MANY_OPEN_FILES
  | STATUS_NODE_NAME_TOO_LONG
  | STATUS_NO_LOCKS_AVAILABLE
  | STATUS_DIRECTORY_NOT_EMPTY
  | STATUS_SYMLINK_LOOP_DETECTED
  | STATUS_DATA_NOT_AVAILABLE
  | STATUS_TIMER_EXPIRED
  | STATUS_PROTOCOL_ERROR
  | STATUS_CANCELED
  | STATUS_QUOTA_EXCEEDED
  | STATUS_INSUFFICIENT_MEMORY
  | STATUS_TOO_MANY_LINKS

definition STATUS_FAILURE_MASK :: uint32_t where
  "STATUS_FAILURE_MASK = 0x80000000"

definition STATUS_AREA_GENERIC :: uint32_t where
  "STATUS_AREA_GENERIC = 0"

definition MAKE_BASE_STATUS :: "bool \<Rightarrow> uint32_t \<Rightarrow> uint32_t \<Rightarrow> uint32_t" where
  "MAKE_BASE_STATUS error area code =
     ((if error then STATUS_FAILURE_MASK else 0) OR area) OR code"

primrec status_code :: "StStatus \<Rightarrow> uint32_t" where
  "status_code STATUS_SUCCESS = MAKE_BASE_STATUS False STATUS_AREA_GENERIC 0"
| "status_code STATUS_PENDING = MAKE_BASE_STATUS False STATUS_AREA_GENERIC 1"
| "status_code STATUS_ALREADY_PERFORMED = MAKE_BASE_STATUS False STATUS_AREA_GENERIC 2"
| "status_code STATUS_CREATED = MAKE_BASE_STATUS False STATUS_AREA_GENERIC 3"
| "status_code STATUS_UNKNOWN_ERROR = MAKE_BASE_STATUS True STATUS_AREA_GENERIC 0"
| "status_code STATUS_INVALID_RESOURCE = MAKE_BASE_STATUS True STATUS_AREA_GENERIC 1"
| "status_code STATUS_UNEXPECTED_RESULT = MAKE_BASE_STATUS True STATUS_AREA_GENERIC 2"
| "status_code STATUS_INVALID_SIGNATURE = MAKE_BASE_STATUS True STATUS_AREA_GENERIC 3"
| "status_code STATUS_INVALID_VALUE = MAKE_BASE_STATUS True STATUS_AREA_GENERIC 4"
| "status_code STATUS_NOT_SUPPORTED = MAKE_BASE_STATUS True STATUS_AREA_GENERIC 5"
| "status_code STATUS_ENTRY_NOT_FOUND = MAKE_BASE_STATUS True STATUS_AREA_GENERIC 6"
| "status_code STATUS_NOT_IMPLEMENTED = MAKE_BASE_STATUS True STATUS_AREA_GENERIC 7"
| "status_code STATUS_HARDWARE_NOT_FOUND = MAKE_BASE_STATUS True STATUS_AREA_GENERIC 8"
| "status_code STATUS_HARDWARE_FAILED = MAKE_BASE_STATUS True STATUS_AREA_GENERIC 9"
| "status_code STATUS_IO_TIMEOUT = MAKE_BASE_STATUS True STATUS_AREA_GENERIC 10"
| "status_code STATUS_BUFFER_UNDERFLOW = MAKE_BASE_STATUS True STATUS_AREA_GENERIC 11"
| "status_code STATUS_CONFLICTING_STATE = MAKE_BASE_STATUS True STATUS_AREA_GENERIC 12"
| "status_code STATUS_END_OF_LIST = MAKE_BASE_STATUS True STATUS_AREA_GENERIC 13"
| "status_code STATUS_WRONG_ELEMENT_TYPE = MAKE_BASE_STATUS True STATUS_AREA_GENERIC 14"
| "status_code STATUS_DUPLICATE_ENTRY = MAKE_BASE_STATUS True STATUS_AREA_GENERIC 15"
| "status_code STATUS_SYNTAX_ERROR = MAKE_BASE_STATUS True STATUS_AREA_GENERIC 16"
| "status_code STATUS_END_OF_FILE = MAKE_BASE_STATUS True STATUS_AREA_GENERIC 17"
| "status_code STATUS_INVALID_FORMAT = MAKE_BASE_STATUS True STATUS_AREA_GENERIC 18"
| "status_code STATUS_SIZE_CHECK_FAILURE = MAKE_BASE_STATUS True STATUS_AREA_GENERIC 19"
| "status_code STATUS_INVALID_SYNTAX = MAKE_BASE_STATUS True STATUS_AREA_GENERIC 20"
| "status_code STATUS_BUFFER_TOO_SMALL = MAKE_BASE_STATUS True STATUS_AREA_GENERIC 21"
| "status_code STATUS_PAGE_NOT_PRESENT = MAKE_BASE_STATUS True STATUS_AREA_GENERIC 22"
| "status_code STATUS_INSUFFICIENT_SPACE = MAKE_BASE_STATUS True STATUS_AREA_GENERIC 23"
| "status_code STATUS_FEATURE_DISABLED = MAKE_BASE_STATUS True STATUS_AREA_GENERIC 24"
| "status_code STATUS_THREAD_NOT_FINISHED = MAKE_BASE_STATUS True STATUS_AREA_GENERIC 25"
| "status_code STATUS_INVALID_THREAD = MAKE_BASE_STATUS True STATUS_AREA_GENERIC 26"
| "status_code STATUS_NOT_ALLOCATED = MAKE_BASE_STATUS True STATUS_AREA_GENERIC 27"
| "status_code STATUS_NOT_PERMITTED = MAKE_BASE_STATUS True STATUS_AREA_GENERIC 28"
| "status_code STATUS_ASSERTION_FAILED = MAKE_BASE_STATUS True STATUS_AREA_GENERIC 29"
| "status_code STATUS_FS_INCONSISTENT = MAKE_BASE_STATUS True STATUS_AREA_GENERIC 30"
| "status_code STATUS_SYSTEM_CORRUPTED = MAKE_BASE_STATUS True STATUS_AREA_GENERIC 31"
| "status_code STATUS_TOO_LARGE = MAKE_BASE_STATUS True STATUS_AREA_GENERIC 32"
| "status_code STATUS_INTERRUPTED = MAKE_BASE_STATUS True STATUS_AREA_GENERIC 33"
| "status_code STATUS_IO_ERROR = MAKE_BASE_STATUS True STATUS_AREA_GENERIC 34"
| "status_code STATUS_IO_ARGUMENTS_TOO_LONG = MAKE_BASE_STATUS True STATUS_AREA_GENERIC 35"
| "status_code STATUS_INVALID_HANDLE = MAKE_BASE_STATUS True STATUS_AREA_GENERIC 36"
| "status_code STATUS_TEMPORARY_ERROR = MAKE_BASE_STATUS True STATUS_AREA_GENERIC 37"
| "status_code STATUS_RESOURCE_BUSY = MAKE_BASE_STATUS True STATUS_AREA_GENERIC 38"
| "status_code STATUS_NOT_A_DIRECTORY = MAKE_BASE_STATUS True STATUS_AREA_GENERIC 39"
| "status_code STATUS_IS_A_DIRECTORY = MAKE_BASE_STATUS True STATUS_AREA_GENERIC 40"
| "status_code STATUS_TOO_MANY_OPEN_FILES = MAKE_BASE_STATUS True STATUS_AREA_GENERIC 41"
| "status_code STATUS_NODE_NAME_TOO_LONG = MAKE_BASE_STATUS True STATUS_AREA_GENERIC 42"
| "status_code STATUS_NO_LOCKS_AVAILABLE = MAKE_BASE_STATUS True STATUS_AREA_GENERIC 43"
| "status_code STATUS_DIRECTORY_NOT_EMPTY = MAKE_BASE_STATUS True STATUS_AREA_GENERIC 44"
| "status_code STATUS_SYMLINK_LOOP_DETECTED = MAKE_BASE_STATUS True STATUS_AREA_GENERIC 45"
| "status_code STATUS_DATA_NOT_AVAILABLE = MAKE_BASE_STATUS True STATUS_AREA_GENERIC 46"
| "status_code STATUS_TIMER_EXPIRED = MAKE_BASE_STATUS True STATUS_AREA_GENERIC 47"
| "status_code STATUS_PROTOCOL_ERROR = MAKE_BASE_STATUS True STATUS_AREA_GENERIC 48"
| "status_code STATUS_CANCELED = MAKE_BASE_STATUS True STATUS_AREA_GENERIC 49"
| "status_code STATUS_QUOTA_EXCEEDED = MAKE_BASE_STATUS True STATUS_AREA_GENERIC 50"
| "status_code STATUS_INSUFFICIENT_MEMORY = MAKE_BASE_STATUS True STATUS_AREA_GENERIC 51"
| "status_code STATUS_TOO_MANY_LINKS = MAKE_BASE_STATUS True STATUS_AREA_GENERIC 52"

definition CHECK_SUCCESS :: "StStatus \<Rightarrow> bool" where
  "CHECK_SUCCESS status \<longleftrightarrow> sint (status_code status) \<ge> 0"

lemmas status_defs =
  STATUS_FAILURE_MASK_def STATUS_AREA_GENERIC_def MAKE_BASE_STATUS_def CHECK_SUCCESS_def

text \<open>Exactly the four codes without the failure bit pass the check.\<close>

lemma CHECK_SUCCESS_iff [simp]:
  "CHECK_SUCCESS s \<longleftrightarrow>
     s \<in> {STATUS_SUCCESS, STATUS_PENDING, STATUS_ALREADY_PERFORMED, STATUS_CREATED}"
  by (cases s) (simp_all add: status_defs)

section \<open>Outcomes of kernel calls\<close>

text \<open>
  A call returns, or stops the machine in \<^verbatim>\<open>St_Panic\<close> with a status, or runs into
  behaviour the C standard leaves undefined (a dereference of a pointer to no object, an
  array index out of range). \<open>OutOfFuel\<close> is the model's own: the recursion of a
  fuelled definition was cut off.
\<close>

datatype 'a outcome = Returned 'a | Panicked StStatus | Undefined | OutOfFuel

fun obind :: "'a outcome \<Rightarrow> ('a \<Rightarrow> 'b outcome) \<Rightarrow> 'b outcome" where
  "obind (Returned x) f = f x"
| "obind (Panicked s) f = Panicked s"
| "obind Undefined f = Undefined"
| "obind OutOfFuel f = OutOfFuel"

lemma obind_ReturnedE [elim!]:
  assumes "obind m f = Returned y"
  obtains x where "m = Returned x" "f x = Returned y"
  using assms by (cases m) auto

lemma obind_cong [fundef_cong]:
  "m = m' \<Longrightarrow> (\<And>x. m' = Returned x \<Longrightarrow> f x = f' x) \<Longrightarrow> obind m f = obind m' f'"
  by (cases m') auto

section \<open>The preemption depth of a processor\<close>

text \<open>\<^verbatim>\<open>StThread_LockPreemption\<close> and \<^verbatim>\<open>StThread_UnlockPreemption\<close> of
  \<^verbatim>\<open>strata/thread/thread.c\<close>, on the counter they update.\<close>

definition StThread_LockPreemption :: "uint32_t \<Rightarrow> uint32_t outcome" where
  "StThread_LockPreemption depth =
     (if depth = 0xFFFFFFFF then Panicked STATUS_CONFLICTING_STATE else Returned (depth + 1))"

definition StThread_UnlockPreemption :: "uint32_t \<Rightarrow> uint32_t outcome" where
  "StThread_UnlockPreemption depth =
     (if depth < 1 then Panicked STATUS_CONFLICTING_STATE else Returned (depth - 1))"

lemma lock_unlock:
  "StThread_LockPreemption d = Returned d' \<Longrightarrow> StThread_UnlockPreemption d' = Returned d"
proof -
  assume "StThread_LockPreemption d = Returned d'"
  then have d: "d \<noteq> 0xFFFFFFFF" "d' = d + 1"
    by (auto simp: StThread_LockPreemption_def split: if_splits)
  have "d + 1 \<noteq> 0" using d(1) eq_neg_iff_add_eq_0 [of d 1] by auto
  then show ?thesis using d by (simp add: StThread_UnlockPreemption_def word_less_1)
qed

section \<open>Loops over an index\<close>

text \<open>The values of \<open>i\<close> in \<^verbatim>\<open>for (ssize_t i = start; i >= 0; i -= step)\<close>, for a positive step.\<close>

function for_down :: "int \<Rightarrow> nat \<Rightarrow> nat list" where
  "for_down start step =
     (if start < 0 \<or> step = 0 then [] else nat start # for_down (start - int step) step)"
  by pat_completeness auto
termination by (relation "measure (\<lambda>(start, step). nat (start + 1))") auto

declare for_down.simps [simp del]

lemma for_down_mem:
  "i \<in> set (for_down start step) \<longleftrightarrow> (0 < step \<and> int i \<le> start \<and> int step dvd start - int i)"
proof (induction start step rule: for_down.induct)
  case (1 start step)
  show ?case
  proof (cases "start < 0 \<or> step = 0")
    case True
    then show ?thesis by (subst for_down.simps) auto
  next
    case False
    then have "i \<in> set (for_down start step) \<longleftrightarrow> int i = start \<or> i \<in> set (for_down (start - int step) step)"
      by (subst for_down.simps) auto
    also have "\<dots> \<longleftrightarrow> int i = start \<or> (int i \<le> start - int step \<and> int step dvd start - int step - int i)"
      using 1 False by simp
    also have "\<dots> \<longleftrightarrow> int i \<le> start \<and> int step dvd start - int i"
    proof -
      have "int step dvd start - int step - int i \<longleftrightarrow> int step dvd start - int i"
        by (metis diff_right_commute dvd_diff_commute dvd_refl dvd_diff diff_diff_eq2 diff_add_cancel dvd_add_left_iff dvd_minus_iff minus_diff_eq)
      moreover have "int i \<le> start \<Longrightarrow> int step dvd start - int i \<Longrightarrow> int i \<noteq> start \<Longrightarrow> int i \<le> start - int step"
        using zdvd_imp_le [of "int step" "start - int i"] by simp
      moreover have "int i = start \<Longrightarrow> int step dvd start - int i" by simp
      moreover have "int i \<le> start - int step \<Longrightarrow> int i \<le> start" by simp
      ultimately show ?thesis by blast
    qed
    finally show ?thesis using False by simp
  qed
qed

section \<open>Words as naturals\<close>

lemma unat_inc: "l \<noteq> - 1 \<Longrightarrow> unat (l + 1) = Suc (unat (l :: 'a::len word))"
  using unatSuc [of l] by (metis add.commute add_eq_0_iff)

lemma unat_add64: "unat a + unat b < 2 ^ 64 \<Longrightarrow> unat (a + b) = unat a + unat (b :: uint64_t)"
  using unat_add_lem [of a b] by simp

lemma unat_sub64: "unat b \<le> unat a \<Longrightarrow> unat (a - b) = unat a - unat (b :: uint64_t)"
  by (rule unat_sub) (simp add: word_le_nat_alt)

lemma unat_less64: "unat (a :: uint64_t) < 2 ^ 64"
  using unsigned_less [of a] by simp

lemma unat_power_lower64: "n < 64 \<Longrightarrow> unat ((2 :: uint64_t) ^ n) = 2 ^ n"
  using unat_of_nat [where 'a=64, of "2 ^ n"] power_strict_increasing [of n 64 "2 :: nat"] by simp

lemmas word_nat = word_less_nat_alt word_le_nat_alt

end
