(* ===== verification/Pmm_Bitmap.thy ===== *)
theory Pmm_Bitmap
  imports Prelude
begin

text \<open>
  The hierarchical buddy bitmap of one allocation-table entry
  (\<^verbatim>\<open>strata/mm/pmm.c\<close>, from \<^verbatim>\<open>get_order\<close> to \<^verbatim>\<open>free_to_bitmap_entry\<close>).
  An entry covers 32 frames; bit \<open>offset o + i\<close> says whether the block of
  order \<open>o\<close> with index \<open>i\<close> holds an allocated frame.
\<close>

section \<open>Definitions\<close>

definition ALLOCENT_BMP_1P_POS :: nat where "ALLOCENT_BMP_1P_POS = 0"
definition ALLOCENT_BMP_2P_POS :: nat where "ALLOCENT_BMP_2P_POS = 32"
definition ALLOCENT_BMP_4P_POS :: nat where "ALLOCENT_BMP_4P_POS = 48"
definition ALLOCENT_BMP_8P_POS :: nat where "ALLOCENT_BMP_8P_POS = 56"
definition ALLOCENT_BMP_16P_POS :: nat where "ALLOCENT_BMP_16P_POS = 60"
definition ALLOCENT_BMP_32P_POS :: nat where "ALLOCENT_BMP_32P_POS = 62"

definition ALLOCENT_BMP_32P_MASK :: uint64_t where "ALLOCENT_BMP_32P_MASK = 0x4000000000000000"
definition ALLOCENT_BMP_16P_MASK :: uint64_t where "ALLOCENT_BMP_16P_MASK = 0x3000000000000000"
definition ALLOCENT_BMP_8P_MASK :: uint64_t where "ALLOCENT_BMP_8P_MASK = 0x0F00000000000000"
definition ALLOCENT_BMP_4P_MASK :: uint64_t where "ALLOCENT_BMP_4P_MASK = 0x00FF000000000000"
definition ALLOCENT_BMP_2P_MASK :: uint64_t where "ALLOCENT_BMP_2P_MASK = 0x0000FFFF00000000"
definition ALLOCENT_BMP_1P_MASK :: uint64_t where "ALLOCENT_BMP_1P_MASK = 0x00000000FFFFFFFF"

definition ALLOCENT_BMP_FULL_ALLOC :: uint64_t where
  "ALLOCENT_BMP_FULL_ALLOC = 0x7FFFFFFFFFFFFFFF"
definition ALLOCENT_BMP_FREE :: uint64_t where "ALLOCENT_BMP_FREE = 0"

lemmas bmp_pos_defs =
  ALLOCENT_BMP_1P_POS_def ALLOCENT_BMP_2P_POS_def ALLOCENT_BMP_4P_POS_def
  ALLOCENT_BMP_8P_POS_def ALLOCENT_BMP_16P_POS_def ALLOCENT_BMP_32P_POS_def

lemmas bmp_mask_defs =
  ALLOCENT_BMP_1P_MASK_def ALLOCENT_BMP_2P_MASK_def ALLOCENT_BMP_4P_MASK_def
  ALLOCENT_BMP_8P_MASK_def ALLOCENT_BMP_16P_MASK_def ALLOCENT_BMP_32P_MASK_def

text \<open>The order of a request: the least \<open>k\<close> with \<open>count \<le> 2 ^ k\<close>, or -1 for no frames.\<close>

fun bit_length :: "nat \<Rightarrow> nat" where
  "bit_length n = (if n = 0 then 0 else Suc (bit_length (n div 2)))"

declare bit_length.simps [simp del]

definition St_CountLeadingZeros64 :: "nat \<Rightarrow> nat" where
  "St_CountLeadingZeros64 v = 64 - bit_length v"

definition get_order :: "nat \<Rightarrow> int" where
  "get_order count =
     (if count = 0 then -1
      else if count \<le> 1 then 0
      else let temp = count - 1 in 64 - int (St_CountLeadingZeros64 temp))"

definition alloc_masks :: "uint64_t list" where
  "alloc_masks = [
    0x0000000000000001, 0x0000000000000002, 0x0000000000000004, 0x0000000000000008,
    0x0000000000000010, 0x0000000000000020, 0x0000000000000040, 0x0000000000000080,
    0x0000000000000100, 0x0000000000000200, 0x0000000000000400, 0x0000000000000800,
    0x0000000000001000, 0x0000000000002000, 0x0000000000004000, 0x0000000000008000,
    0x0000000000010000, 0x0000000000020000, 0x0000000000040000, 0x0000000000080000,
    0x0000000000100000, 0x0000000000200000, 0x0000000000400000, 0x0000000000800000,
    0x0000000001000000, 0x0000000002000000, 0x0000000004000000, 0x0000000008000000,
    0x0000000010000000, 0x0000000020000000, 0x0000000040000000, 0x0000000080000000,

    0x0000000100000003, 0x000000020000000C, 0x0000000400000030, 0x00000008000000C0,
    0x0000001000000300, 0x0000002000000C00, 0x0000004000003000, 0x000000800000C000,
    0x0000010000030000, 0x00000200000C0000, 0x0000040000300000, 0x0000080000C00000,
    0x0000100003000000, 0x000020000C000000, 0x0000400030000000, 0x00008000C0000000,

    0x000100030000000F, 0x0002000C000000F0, 0x0004003000000F00, 0x000800C00000F000,
    0x00100300000F0000, 0x00200C0000F00000, 0x004030000F000000, 0x0080C000F0000000,

    0x0103000F000000FF, 0x020C00F00000FF00, 0x04300F0000FF0000, 0x08C0F000FF000000,

    0x130F00FF0000FFFF, 0x2CF0FF00FFFF0000,

    0x7FFFFFFFFFFFFFFF]"

definition offsets :: "nat list" where
  "offsets = [ALLOCENT_BMP_1P_POS, ALLOCENT_BMP_2P_POS, ALLOCENT_BMP_4P_POS,
              ALLOCENT_BMP_8P_POS, ALLOCENT_BMP_16P_POS, ALLOCENT_BMP_32P_POS]"

text \<open>
  The loop of \<^verbatim>\<open>propagate_up\<close>: \<open>ord\<close> counts the orders up to 4 and \<open>current_idx\<close> is
  the block's index at that order.
\<close>

function propagate_loop :: "uint64_t \<Rightarrow> nat \<Rightarrow> nat \<Rightarrow> bool \<Rightarrow> uint64_t" where
  "propagate_loop entry current_idx ord set_bits =
     (if ord < 5 then
        let next_idx = drop_bit 1 current_idx;
            sibling_idx = current_idx XOR 1;
            parent_bit_pos = offsets ! (ord + 1) + next_idx;
            sibling_bit_pos = offsets ! ord + sibling_idx
        in if set_bits then
             propagate_loop (entry OR push_bit parent_bit_pos 1) next_idx (ord + 1) set_bits
           else if entry AND push_bit sibling_bit_pos 1 = 0 then
             propagate_loop (entry AND NOT (push_bit parent_bit_pos 1)) next_idx (ord + 1) set_bits
           else entry
      else entry)"
  by pat_completeness auto
termination by (relation "measure (\<lambda>(_, _, ord, _). 5 - ord)") auto

declare propagate_loop.simps [simp del]

definition propagate_up :: "uint64_t \<Rightarrow> nat \<Rightarrow> nat \<Rightarrow> bool \<Rightarrow> uint64_t" where
  "propagate_up entry start_page_idx start_order set_bits =
     propagate_loop entry (drop_bit start_order start_page_idx) start_order set_bits"

text \<open>\<^verbatim>\<open>__builtin_ctzll\<close> on a non-zero argument.\<close>

fun ctz_from :: "uint64_t \<Rightarrow> nat \<Rightarrow> nat \<Rightarrow> nat" where
  "ctz_from w n 0 = n"
| "ctz_from w n (Suc k) = (if bit w n then n else ctz_from w (Suc n) k)"

definition St_CountTrailingZeros64 :: "uint64_t \<Rightarrow> nat" where
  "St_CountTrailingZeros64 w = ctz_from w 0 64"

text \<open>The result \<open>None\<close> is the C result -1.\<close>

definition find_free_in_level :: "uint64_t \<Rightarrow> uint64_t \<Rightarrow> nat \<Rightarrow> nat \<Rightarrow> nat option" where
  "find_free_in_level entry level_mask pos align_order =
     (let inverted = NOT entry AND level_mask
      in if inverted = 0 then None
         else Some ((St_CountTrailingZeros64 inverted - pos) * 2 ^ align_order))"

definition find_free_frame_idx_bitmap_entry :: "uint64_t \<Rightarrow> int \<Rightarrow> nat option" where
  "find_free_frame_idx_bitmap_entry entry align_order =
     (if align_order = 0 then
        find_free_in_level entry ALLOCENT_BMP_1P_MASK ALLOCENT_BMP_1P_POS 0
      else if align_order = 1 then
        find_free_in_level entry ALLOCENT_BMP_2P_MASK ALLOCENT_BMP_2P_POS 1
      else if align_order = 2 then
        find_free_in_level entry ALLOCENT_BMP_4P_MASK ALLOCENT_BMP_4P_POS 2
      else if align_order = 3 then
        find_free_in_level entry ALLOCENT_BMP_8P_MASK ALLOCENT_BMP_8P_POS 3
      else if align_order = 4 then
        find_free_in_level entry ALLOCENT_BMP_16P_MASK ALLOCENT_BMP_16P_POS 4
      else if align_order = 5 then
        find_free_in_level entry ALLOCENT_BMP_32P_MASK ALLOCENT_BMP_32P_POS 5
      else None)"

definition allocate_from_bitmap_entry :: "uint64_t \<Rightarrow> nat \<Rightarrow> nat \<Rightarrow> uint64_t" where
  "allocate_from_bitmap_entry entry index order =
     (if order = 0 then propagate_up (entry OR alloc_masks ! index) index order True
      else if order = 1 then
        propagate_up (entry OR alloc_masks ! (32 + index div 2)) index order True
      else if order = 2 then
        propagate_up (entry OR alloc_masks ! (48 + index div 4)) index order True
      else if order = 3 then
        propagate_up (entry OR alloc_masks ! (56 + index div 8)) index order True
      else if order = 4 then
        propagate_up (entry OR alloc_masks ! (60 + index div 16)) index order True
      else if order = 5 then propagate_up (entry OR alloc_masks ! 62) index order True
      else entry)"

definition free_to_bitmap_entry :: "uint64_t \<Rightarrow> nat \<Rightarrow> nat \<Rightarrow> uint64_t" where
  "free_to_bitmap_entry entry index order =
     (if order = 0 then propagate_up (entry AND NOT (alloc_masks ! index)) index order False
      else if order = 1 then
        propagate_up (entry AND NOT (alloc_masks ! (32 + index div 2))) index order False
      else if order = 2 then
        propagate_up (entry AND NOT (alloc_masks ! (48 + index div 4))) index order False
      else if order = 3 then
        propagate_up (entry AND NOT (alloc_masks ! (56 + index div 8))) index order False
      else if order = 4 then
        propagate_up (entry AND NOT (alloc_masks ! (60 + index div 16))) index order False
      else if order = 5 then
        propagate_up (entry AND NOT (alloc_masks ! 62)) index order False
      else entry)"

section \<open>Specification\<close>

text \<open>The bit of the block with index \<open>i\<close> at order \<open>ord\<close>.\<close>

definition block_bit :: "uint64_t \<Rightarrow> nat \<Rightarrow> nat \<Rightarrow> bool" where
  "block_bit entry ord i \<longleftrightarrow> bit entry (offsets ! ord + i)"

text \<open>
  The well-formedness of a bitmap entry: the tag bit is clear and each block bit is
  the disjunction of the bits of its two halves.
\<close>

definition bmp_wf :: "uint64_t \<Rightarrow> bool" where
  "bmp_wf entry \<longleftrightarrow>
     \<not> bit entry 63 \<and>
     (\<forall>ord < 5. \<forall>i < 2 ^ (4 - ord).
        block_bit entry (Suc ord) i \<longleftrightarrow>
          block_bit entry ord (2 * i) \<or> block_bit entry ord (2 * i + 1))"

definition block_pages :: "nat \<Rightarrow> nat \<Rightarrow> nat set" where
  "block_pages index order = {p. p < 32 \<and> p div 2 ^ order = index div 2 ^ order}"

text \<open>
  The abstract view: a set \<open>P\<close> of allocated pages among the 32 of the entry. The
  entry encodes \<open>P\<close> when each block bit says whether the block meets \<open>P\<close>.
\<close>

definition occupied :: "nat set \<Rightarrow> nat \<Rightarrow> nat \<Rightarrow> bool" where
  "occupied P ord i \<longleftrightarrow> (\<exists>p \<in> P. p < 32 \<and> p div 2 ^ ord = i)"

definition encodes :: "uint64_t \<Rightarrow> nat set \<Rightarrow> bool" where
  "encodes entry P \<longleftrightarrow> \<not> bit entry 63 \<and>
     (\<forall>ord \<le> 5. \<forall>i < 2 ^ (5 - ord). block_bit entry ord i \<longleftrightarrow> occupied P ord i)"

definition pages_of :: "uint64_t \<Rightarrow> nat set" where
  "pages_of entry = {p. p < 32 \<and> bit entry p}"

text \<open>
  What the clearing loop keeps: the orders up to \<open>ord\<close> and the blocks that are not
  ancestors of the current one encode \<open>P\<close>; an ancestor may still be set although
  it is empty.
\<close>

definition clear_inv :: "uint64_t \<Rightarrow> nat set \<Rightarrow> nat \<Rightarrow> nat \<Rightarrow> bool" where
  "clear_inv e P ord cur \<longleftrightarrow> \<not> bit e 63 \<and> \<not> occupied P ord cur \<and>
     (\<forall>j \<le> 5. \<forall>m < 2 ^ (5 - j).
        (occupied P j m \<longrightarrow> block_bit e j m) \<and>
        (block_bit e j m \<longrightarrow> occupied P j m \<or> (ord < j \<and> m = cur div 2 ^ (j - ord))))"

text \<open>The bits of one order.\<close>

definition level_mask :: "nat \<Rightarrow> uint64_t" where
  "level_mask ord = push_bit (offsets ! ord) (mask (2 ^ (5 - ord)))"

text \<open>What row \<open>k\<close> of the mask table must hold, as a check that evaluates.\<close>

definition mask_spec_ok :: "nat \<Rightarrow> bool" where
  "mask_spec_ok k =
    (let ord = (if k < 32 then 0 else if k < 48 then 1 else if k < 56 then 2
                else if k < 60 then 3 else if k < 62 then 4 else 5::nat);
         i = k - offsets ! ord
     in \<not> bit (alloc_masks ! k) 63 \<and>
       (\<forall>j \<in> set [0..<6]. \<forall>m \<in> set [0..<2 ^ (5 - j)].
         block_bit (alloc_masks ! k) j m = (j \<le> ord \<and> m div 2 ^ (ord - j) = i)))"

section \<open>Positions and masks\<close>

lemma offsets_simps [simp]:
  "offsets ! 0 = 0" "offsets ! Suc 0 = 32" "offsets ! 2 = 48"
  "offsets ! 3 = 56" "offsets ! 4 = 60" "offsets ! 5 = 62"
  by (simp_all add: offsets_def bmp_pos_defs)

lemma order_cases: "(ord::nat) \<le> 5 \<Longrightarrow> ord \<in> {0, 1, 2, 3, 4, 5}"
  by auto

lemma block_pos_less: "ord \<le> 5 \<Longrightarrow> i < 2 ^ (5 - ord) \<Longrightarrow> offsets ! ord + i < 63"
  by (drule order_cases) auto

lemma block_pos_inj:
  assumes "ord \<le> 5" "i < 2 ^ (5 - ord)" "j \<le> 5" "m < 2 ^ (5 - j)"
  shows "offsets ! ord + i = offsets ! j + m \<longleftrightarrow> ord = j \<and> i = m"
  using order_cases [OF assms(1)] order_cases [OF assms(3)] assms(2,4) by auto

lemma block_pos_cover:
  assumes "n < 63"
  obtains ord i where "ord \<le> 5" "i < 2 ^ (5 - ord)" "n = offsets ! ord + i"
proof -
  consider "n < 32" | "32 \<le> n \<and> n < 48" | "48 \<le> n \<and> n < 56" | "56 \<le> n \<and> n < 60"
    | "60 \<le> n \<and> n < 62" | "n = 62" using assms by linarith
  then show thesis
  proof cases
    case 1 then show ?thesis using that [of 0 n] by simp
  next
    case 2 then show ?thesis using that [of 1 "n - 32"] by auto
  next
    case 3 then show ?thesis using that [of 2 "n - 48"] by auto
  next
    case 4 then show ?thesis using that [of 3 "n - 56"] by auto
  next
    case 5 then show ?thesis using that [of 4 "n - 60"] by auto
  next
    case 6 then show ?thesis using that [of 5 0] by simp
  qed
qed

lemma bit_exp_64: "bit (2 ^ k :: uint64_t) n \<longleftrightarrow> n = k \<and> k < 64"
  by (auto simp: bit_simps)

lemma and_exp_eq_0: "k < 64 \<Longrightarrow> (w :: uint64_t) AND 2 ^ k = 0 \<longleftrightarrow> \<not> bit w k"
  by (simp add: and_exp_eq_0_iff_not_bit)

lemma mask_spec_all: "list_all mask_spec_ok [0..<63]"
  by code_simp

lemma alloc_mask_bit:
  assumes "ord \<le> 5" "i < 2 ^ (5 - ord)" "j \<le> 5" "m < 2 ^ (5 - j)"
  shows "block_bit (alloc_masks ! (offsets ! ord + i)) j m \<longleftrightarrow> j \<le> ord \<and> m div 2 ^ (ord - j) = i"
proof -
  have "mask_spec_ok (offsets ! ord + i)"
    using mask_spec_all block_pos_less [OF assms(1,2)] by (simp add: list_all_iff)
  then show ?thesis
    using order_cases [OF assms(1)] assms by (auto simp: mask_spec_ok_def Let_def)
qed

lemma alloc_mask_tag: "k < 63 \<Longrightarrow> \<not> bit (alloc_masks ! k) 63"
  using mask_spec_all by (simp add: list_all_iff mask_spec_ok_def Let_def)

lemma block_bit_or [simp]: "block_bit (a OR b) j m \<longleftrightarrow> block_bit a j m \<or> block_bit b j m"
  by (simp add: block_bit_def bit_simps)

lemma block_bit_and_not [simp]:
  "j \<le> 5 \<Longrightarrow> m < 2 ^ (5 - j) \<Longrightarrow> block_bit (a AND NOT b) j m \<longleftrightarrow> block_bit a j m \<and> \<not> block_bit b j m"
  using block_pos_less [of j m] by (simp add: block_bit_def bit_simps)

lemma block_bit_push:
  assumes "ord \<le> 5" "i < 2 ^ (5 - ord)" "j \<le> 5" "m < 2 ^ (5 - j)"
  shows "block_bit (2 ^ (offsets ! ord + i)) j m \<longleftrightarrow> j = ord \<and> m = i"
  using assms block_pos_inj [of ord i j m] block_pos_less [of ord i]
  by (auto simp: block_bit_def bit_exp_64)

lemma tag_push: "ord \<le> 5 \<Longrightarrow> i < 2 ^ (5 - ord) \<Longrightarrow> \<not> bit (2 ^ (offsets ! ord + i) :: uint64_t) 63"
  using block_pos_less [of ord i] by (auto simp: bit_exp_64)

lemma half_index: "ord < 5 \<Longrightarrow> cur < 2 ^ (5 - ord) \<Longrightarrow> drop_bit 1 cur < (2::nat) ^ (5 - Suc ord)"
proof -
  assume "ord < 5" "cur < 2 ^ (5 - ord)"
  moreover from \<open>ord < 5\<close> have "(2::nat) ^ (5 - ord) = 2 * 2 ^ (5 - Suc ord)"
    by (metis Suc_diff_Suc power_Suc)
  ultimately show ?thesis by (simp add: drop_bit_eq_div)
qed

lemma div_pow_Suc: "j > ord \<Longrightarrow> (c div 2) div 2 ^ (j - Suc ord) = (c::nat) div 2 ^ (j - ord)"
  by (metis Suc_diff_Suc div_mult2_eq power_Suc)

lemma propagate_set_bits:
  assumes "ord \<le> 5" "cur < 2 ^ (5 - ord)" "j \<le> 5" "m < 2 ^ (5 - j)"
  shows "block_bit (propagate_loop e cur ord True) j m \<longleftrightarrow>
     block_bit e j m \<or> (ord < j \<and> m = cur div 2 ^ (j - ord))"
  using assms
proof (induction e cur ord True rule: propagate_loop.induct)
  case (1 e cur ord)
  show ?case
  proof (cases "ord < 5")
    case True
    let ?n = "drop_bit 1 cur"
    have n: "?n < 2 ^ (5 - Suc ord)" by (rule half_index [OF True 1(4)])
    have "block_bit (propagate_loop e cur ord True) j m =
        block_bit (propagate_loop (e OR 2 ^ (offsets ! Suc ord + ?n)) ?n (Suc ord) True) j m"
      using True by (subst propagate_loop.simps) (simp add: Let_def)
    also have "\<dots> \<longleftrightarrow> block_bit (e OR 2 ^ (offsets ! Suc ord + ?n)) j m \<or>
        (Suc ord < j \<and> m = ?n div 2 ^ (j - Suc ord))"
      using 1(1) [OF True refl refl refl refl TrueI] n True 1(5,6) by simp
    also have "\<dots> \<longleftrightarrow> block_bit e j m \<or> (ord < j \<and> m = cur div 2 ^ (j - ord))"
      using n True 1(5,6) div_pow_Suc [of ord j cur]
      by (auto simp: block_bit_push drop_bit_eq_div)
    finally show ?thesis .
  next
    case False
    then show ?thesis using 1(3,5) by (subst propagate_loop.simps) auto
  qed
qed

lemma propagate_set_tag:
  assumes "ord \<le> 5" "cur < 2 ^ (5 - ord)" "\<not> bit e 63"
  shows "\<not> bit (propagate_loop e cur ord True) 63"
  using assms
proof (induction e cur ord True rule: propagate_loop.induct)
  case (1 e cur ord)
  show ?case
  proof (cases "ord < 5")
    case True
    let ?n = "drop_bit 1 cur"
    have n: "?n < 2 ^ (5 - Suc ord)" by (rule half_index [OF True 1(4)])
    then have "\<not> bit (e OR 2 ^ (offsets ! Suc ord + ?n)) 63"
      using tag_push [of "Suc ord" ?n] True 1(5) by (simp add: bit_or_iff)
    then show ?thesis
      using 1(1) [OF True refl refl refl refl TrueI] n True
      by (subst propagate_loop.simps) (simp add: Let_def)
  next
    case False
    then show ?thesis using 1(5) by (subst propagate_loop.simps) auto
  qed
qed
section \<open>Clearing\<close>

lemma sibling_index: "(cur::nat) XOR Suc 0 = (if even cur then cur + 1 else cur - 1)"
  by (simp add: xor_Suc_0_eq)

lemma sibling_less:
  assumes "ord < 5" "cur < 2 ^ (5 - ord)"
  shows "(cur XOR Suc 0 :: nat) < 2 ^ (5 - ord)"
proof -
  obtain k where k: "(2::nat) ^ (5 - ord) = 2 * k"
    using assms(1) by (metis Suc_diff_Suc power_Suc)
  show ?thesis using assms(2) unfolding k sibling_index by (auto elim!: evenE oddE)
qed

lemma parent_occupied:
  "occupied P (Suc ord) (cur div 2) \<longleftrightarrow> occupied P ord cur \<or> occupied P ord (cur XOR Suc 0)"
proof -
  have "p div 2 ^ Suc ord = cur div 2 \<longleftrightarrow> p div 2 ^ ord = cur \<or> p div 2 ^ ord = cur XOR Suc 0"
    for p :: nat
  proof -
    have "p div 2 ^ Suc ord = p div 2 ^ ord div 2"
      by (metis div_mult2_eq mult.commute power_Suc)
    moreover have "a div 2 = cur div 2 \<longleftrightarrow> a = cur \<or> a = cur XOR Suc 0" for a :: nat
      unfolding sibling_index by (cases "even cur"; cases "even a") (auto elim!: evenE oddE)
    ultimately show ?thesis by simp
  qed
  then show ?thesis by (auto simp: occupied_def)
qed

lemma ancestor_occupied:
  "occupied P ord c \<Longrightarrow> ord \<le> j \<Longrightarrow> occupied P j (c div 2 ^ (j - ord))"
  unfolding occupied_def by (metis div_mult2_eq le_add_diff_inverse power_add)

lemma clear_inv_step:
  assumes inv: "clear_inv e P ord cur" and ord: "ord < 5" and cur: "cur < 2 ^ (5 - ord)"
    and sib: "\<not> block_bit e ord (cur XOR Suc 0)"
  shows "clear_inv (e AND NOT (2 ^ (offsets ! Suc ord + drop_bit 1 cur))) P (Suc ord) (drop_bit 1 cur)"
proof -
  let ?n = "drop_bit 1 cur"
  have n: "?n < 2 ^ (5 - Suc ord)" by (rule half_index [OF ord cur])
  have "\<not> occupied P ord (cur XOR Suc 0)"
    using inv sib ord sibling_less [OF ord cur] by (auto simp: clear_inv_def)
  then have par: "\<not> occupied P (Suc ord) ?n"
    using inv parent_occupied [of P ord cur] by (simp add: clear_inv_def drop_bit_eq_div)
  have anc: "?n div 2 ^ (j - Suc ord) = cur div 2 ^ (j - ord)" if "ord < j" for j
    using div_pow_Suc [OF that] by (simp add: drop_bit_eq_div)
  have "(occupied P j m \<longrightarrow> block_bit (e AND NOT (2 ^ (offsets ! Suc ord + ?n))) j m) \<and>
      (block_bit (e AND NOT (2 ^ (offsets ! Suc ord + ?n))) j m \<longrightarrow>
         occupied P j m \<or> (Suc ord < j \<and> m = ?n div 2 ^ (j - Suc ord)))"
    if "j \<le> 5" "m < 2 ^ (5 - j)" for j m
  proof -
    have "block_bit (e AND NOT (2 ^ (offsets ! Suc ord + ?n))) j m \<longleftrightarrow>
        block_bit e j m \<and> \<not> (j = Suc ord \<and> m = ?n)"
      using that n ord by (simp add: block_bit_push)
    moreover have "block_bit e j m \<Longrightarrow> occupied P j m \<or> (ord < j \<and> m = cur div 2 ^ (j - ord))"
      and "occupied P j m \<Longrightarrow> block_bit e j m"
      using inv that by (auto simp: clear_inv_def)
    ultimately show ?thesis
      using par anc [of j] by (cases "j = Suc ord") auto
  qed
  then show ?thesis using inv par by (auto simp: clear_inv_def bit_and_iff)
qed

lemma clear_inv_stop:
  assumes inv: "clear_inv e P ord cur" and ord: "ord < 5" and cur: "cur < 2 ^ (5 - ord)"
    and sib: "block_bit e ord (cur XOR Suc 0)"
  shows "encodes e P"
proof -
  have "occupied P ord (cur XOR Suc 0)"
    using inv sib ord sibling_less [OF ord cur] unfolding clear_inv_def
    by (metis less_imp_le less_irrefl)
  then have par: "occupied P (Suc ord) (cur div 2)" by (simp add: parent_occupied)
  have "occupied P j (cur div 2 ^ (j - ord))" if "ord < j" for j
    using ancestor_occupied [OF par, of j] that div_pow_Suc [OF that, of cur] by simp
  then show ?thesis using inv unfolding clear_inv_def encodes_def by metis
qed

lemma propagate_clear_encodes:
  assumes "clear_inv e P ord cur" "ord \<le> 5" "cur < 2 ^ (5 - ord)"
  shows "encodes (propagate_loop e cur ord False) P"
  using assms
proof (induction e cur ord False rule: propagate_loop.induct)
  case (1 e cur ord)
  show ?case
  proof (cases "ord < 5")
    case True
    have sb: "(e AND 2 ^ (offsets ! ord + (cur XOR Suc 0)) = 0) \<longleftrightarrow> \<not> block_bit e ord (cur XOR Suc 0)"
      using block_pos_less [OF _ sibling_less [OF True 1(5)]] True
      by (simp add: and_exp_eq_0 block_bit_def)
    show ?thesis
    proof (cases "block_bit e ord (cur XOR Suc 0)")
      case True
      then show ?thesis using clear_inv_stop [OF 1(3) \<open>ord < 5\<close> 1(5) True] sb \<open>ord < 5\<close>
        by (subst propagate_loop.simps) (simp add: Let_def)
    next
      case False
      then show ?thesis
        using 1(2) [OF True refl refl refl refl _ _ _] clear_inv_step [OF 1(3) True 1(5) False]
          half_index [OF True 1(5)] sb True
        by (subst propagate_loop.simps) (simp add: Let_def)
    qed
  next
    case False
    then have "ord = 5" using 1(4) by simp
    then show ?thesis using 1(3)
      by (subst propagate_loop.simps) (auto simp: clear_inv_def encodes_def)
  qed
qed

section \<open>Refinement\<close>

text \<open>Blocks of pages under \<open>occupied\<close>.\<close>

lemma block_index: "ord \<le> 5 \<Longrightarrow> p < 32 \<Longrightarrow> p div 2 ^ ord < (2::nat) ^ (5 - ord)"
  by (drule order_cases) auto

lemma occupied_union: "occupied (P \<union> Q) j m \<longleftrightarrow> occupied P j m \<or> occupied Q j m"
  by (auto simp: occupied_def)

lemma occupied_block:
  assumes "ord \<le> 5" "index < 32" "j \<le> 5" "m < 2 ^ (5 - j)"
  shows "occupied (block_pages index ord) j m \<longleftrightarrow>
    (if j \<le> ord then m div 2 ^ (ord - j) = index div 2 ^ ord else m = index div 2 ^ ord div 2 ^ (j - ord))"
proof -
  have lo: "occupied (block_pages index ord) j m \<longleftrightarrow> m div 2 ^ (ord - j) = index div 2 ^ ord" if "j \<le> ord"
  proof
    assume "occupied (block_pages index ord) j m"
    then obtain p where "p div 2 ^ ord = index div 2 ^ ord" "p div 2 ^ j = m"
      by (auto simp: occupied_def block_pages_def)
    then show "m div 2 ^ (ord - j) = index div 2 ^ ord"
      using that by (metis div_mult2_eq le_add_diff_inverse power_add)
  next
    assume *: "m div 2 ^ (ord - j) = index div 2 ^ ord"
    have "m * 2 ^ j < 2 ^ (5 - j) * 2 ^ j" using assms(4) by simp
    also have "(2::nat) ^ (5 - j) * 2 ^ j = 32"
      using order_cases [OF assms(3)] by auto
    finally have "m * 2 ^ j < 32" .
    moreover have "m * 2 ^ j div 2 ^ ord = index div 2 ^ ord"
      using * that by (metis div_mult2_eq le_add_diff_inverse nonzero_mult_div_cancel_right
          power_add power_not_zero zero_neq_numeral)
    ultimately show "occupied (block_pages index ord) j m"
      unfolding occupied_def block_pages_def by (intro bexI [of _ "m * 2 ^ j"]) auto
  qed
  have hi: "occupied (block_pages index ord) j m \<longleftrightarrow> m = index div 2 ^ ord div 2 ^ (j - ord)" if "\<not> j \<le> ord"
  proof -
    have "p div 2 ^ j = p div 2 ^ ord div 2 ^ (j - ord)" for p :: nat
      using that by (metis div_mult2_eq le_add_diff_inverse linear power_add)
    then show ?thesis using assms(2) unfolding occupied_def block_pages_def by auto
  qed
  show ?thesis using lo hi by auto
qed

lemma allocate_eq:
  assumes "order \<le> 5"
  shows "allocate_from_bitmap_entry e index order =
    propagate_loop (e OR alloc_masks ! (offsets ! order + (if order = 5 then 0 else index div 2 ^ order)))
      (index div 2 ^ order) order True"
  using order_cases [OF assms]
  by (auto simp: allocate_from_bitmap_entry_def propagate_up_def drop_bit_eq_div)

lemma free_eq:
  assumes "order \<le> 5"
  shows "free_to_bitmap_entry e index order =
    propagate_loop (e AND NOT (alloc_masks ! (offsets ! order + (if order = 5 then 0 else index div 2 ^ order))))
      (index div 2 ^ order) order False"
  using order_cases [OF assms]
  by (auto simp: free_to_bitmap_entry_def propagate_up_def drop_bit_eq_div)

lemma allocate_encodes:
  assumes e: "encodes e P" and o: "order \<le> 5" and i: "index < 32"
  shows "encodes (allocate_from_bitmap_entry e index order) (P \<union> block_pages index order)"
proof -
  let ?b = "index div 2 ^ order"
  have b: "?b < 2 ^ (5 - order)" by (rule block_index [OF o i])
  then have k: "(if order = 5 then 0 else ?b) = ?b" by auto
  have "block_bit (allocate_from_bitmap_entry e index order) j m \<longleftrightarrow>
      occupied (P \<union> block_pages index order) j m" if "j \<le> 5" "m < 2 ^ (5 - j)" for j m
    using e that unfolding allocate_eq [OF o] k propagate_set_bits [OF o b that]
    by (auto simp: occupied_union occupied_block [OF o i that] alloc_mask_bit [OF o b that] encodes_def)
  moreover have "\<not> bit (allocate_from_bitmap_entry e index order) 63"
    unfolding allocate_eq [OF o] k
    by (rule propagate_set_tag [OF o b])
      (use e alloc_mask_tag [OF block_pos_less [OF o b]] in \<open>simp add: bit_or_iff encodes_def\<close>)
  ultimately show ?thesis by (simp add: encodes_def)
qed

lemma occupied_diff_block:
  assumes "ord \<le> 5" "index < 32" "j \<le> ord"  "m < 2 ^ (5 - j)"
  shows "occupied (P - block_pages index ord) j m \<longleftrightarrow>
    occupied P j m \<and> m div 2 ^ (ord - j) \<noteq> index div 2 ^ ord"
proof -
  have "p div 2 ^ ord = m div 2 ^ (ord - j)" if "p div 2 ^ j = m" for p
    using that assms(3) by (metis div_mult2_eq le_add_diff_inverse power_add)
  then show ?thesis by (fastforce simp: occupied_def block_pages_def)
qed

lemma occupied_diff_block_high:
  assumes "\<not> j \<le> ord" "m \<noteq> index div 2 ^ ord div 2 ^ (j - ord)"
  shows "occupied (P - block_pages index ord) j m \<longleftrightarrow> occupied P j m"
proof -
  have "p div 2 ^ j = p div 2 ^ ord div 2 ^ (j - ord)" for p :: nat
    using assms(1) by (metis div_mult2_eq le_add_diff_inverse linear power_add)
  then show ?thesis using assms(2) by (fastforce simp: occupied_def block_pages_def)
qed

lemma free_encodes:
  assumes e: "encodes e P" and o: "order \<le> 5" and i: "index < 32"
  shows "encodes (free_to_bitmap_entry e index order) (P - block_pages index order)"
proof -
  let ?b = "index div 2 ^ order"
  let ?e = "e AND NOT (alloc_masks ! (offsets ! order + ?b))"
  let ?P = "P - block_pages index order"
  have b: "?b < 2 ^ (5 - order)" by (rule block_index [OF o i])
  then have k: "(if order = 5 then 0 else ?b) = ?b" by auto
  have bits: "block_bit ?e j m \<longleftrightarrow> occupied P j m \<and> \<not> (j \<le> order \<and> m div 2 ^ (order - j) = ?b)"
    if "j \<le> 5" "m < 2 ^ (5 - j)" for j m
    using e that by (simp add: alloc_mask_bit [OF o b that] encodes_def)
  have "(occupied ?P j m \<longrightarrow> block_bit ?e j m) \<and>
      (block_bit ?e j m \<longrightarrow> occupied ?P j m \<or> (order < j \<and> m = ?b div 2 ^ (j - order)))"
    if "j \<le> 5" "m < 2 ^ (5 - j)" for j m
  proof (cases "j \<le> order")
    case True
    then show ?thesis using bits [OF that] occupied_diff_block [OF o i True that(2), of P] by auto
  next
    case False
    moreover have "occupied ?P j m \<Longrightarrow> occupied P j m" by (auto simp: occupied_def)
    ultimately show ?thesis
      using bits [OF that] occupied_diff_block_high [OF False, of m index P] by auto
  qed
  moreover have "\<not> occupied ?P order ?b" by (auto simp: occupied_def block_pages_def)
  moreover have "\<not> bit ?e 63" using e by (simp add: encodes_def bit_and_iff)
  ultimately have "clear_inv ?e ?P order ?b" by (simp add: clear_inv_def)
  then show ?thesis unfolding free_eq [OF o] k by (rule propagate_clear_encodes [OF _ o b])
qed
section \<open>Searching an entry\<close>

lemma ctz_from_least:
  "n \<le> b \<Longrightarrow> bit w b \<Longrightarrow> b < n + k \<Longrightarrow>
   bit w (ctz_from w n k) \<and> n \<le> ctz_from w n k \<and> (\<forall>j. n \<le> j \<and> j < ctz_from w n k \<longrightarrow> \<not> bit w j)"
proof (induction w n k rule: ctz_from.induct)
  case (1 w n)
  then show ?case by simp
next
  case (2 w n k)
  show ?case
  proof (cases "bit w n")
    case True
    then show ?thesis by auto
  next
    case False
    then have "Suc n \<le> b" using 2(2,3) by (metis Suc_leI le_neq_implies_less)
    then show ?thesis using 2 False by (auto simp: Suc_le_eq) (metis le_neq_implies_less)
  qed
qed

lemma St_CountTrailingZeros64_least:
  assumes "w \<noteq> 0"
  shows "bit w (St_CountTrailingZeros64 w)" "j < St_CountTrailingZeros64 w \<Longrightarrow> \<not> bit w j"
proof -
  obtain b where b: "bit w b" using assms by (auto simp: bit_eq_iff)
  then have "b < 64" using bit_imp_le_length by fastforce
  then show "bit w (St_CountTrailingZeros64 w)" "j < St_CountTrailingZeros64 w \<Longrightarrow> \<not> bit w j"
    using ctz_from_least [of 0 b w 64] b by (auto simp: St_CountTrailingZeros64_def)
qed

lemma level_masks:
  "ALLOCENT_BMP_1P_MASK = level_mask 0" "ALLOCENT_BMP_2P_MASK = level_mask (Suc 0)"
  "ALLOCENT_BMP_4P_MASK = level_mask 2" "ALLOCENT_BMP_8P_MASK = level_mask 3"
  "ALLOCENT_BMP_16P_MASK = level_mask 4" "ALLOCENT_BMP_32P_MASK = level_mask 5"
  by (simp_all add: bmp_mask_defs level_mask_def mask_eq_exp_minus_1)

lemma bit_level_mask:
  "ord \<le> 5 \<Longrightarrow> bit (level_mask ord) n \<longleftrightarrow> offsets ! ord \<le> n \<and> n < offsets ! ord + 2 ^ (5 - ord)"
  by (drule order_cases) (auto simp: level_mask_def bit_simps)

lemma find_free_eq:
  assumes "a \<le> 5"
  shows "find_free_frame_idx_bitmap_entry e (int a) = find_free_in_level e (level_mask a) (offsets ! a) a"
  using order_cases [OF assms]
  by (auto simp: find_free_frame_idx_bitmap_entry_def level_masks bmp_pos_defs)

lemma find_free_None:
  assumes e: "encodes e P" and a: "a \<le> 5"
  shows "find_free_frame_idx_bitmap_entry e (int a) = None \<longleftrightarrow> (\<forall>i < 2 ^ (5 - a). occupied P a i)"
proof -
  have "(NOT e AND level_mask a = 0) \<longleftrightarrow> (\<forall>i < 2 ^ (5 - a). block_bit e a i)"
  proof
    assume "NOT e AND level_mask a = 0"
    then have z: "\<not> bit (NOT e AND level_mask a) n" for n by simp
    have "bit e (offsets ! a + i)" if "i < 2 ^ (5 - a)" for i
      using z [of "offsets ! a + i"] block_pos_less [OF a that] that
      by (simp add: bit_and_iff bit_not_iff bit_level_mask [OF a])
    then show "\<forall>i < 2 ^ (5 - a). block_bit e a i" by (simp add: block_bit_def)
  next
    assume "\<forall>i < 2 ^ (5 - a). block_bit e a i"
    then have "bit e n" if "bit (level_mask a) n" for n
      using that unfolding bit_level_mask [OF a] block_bit_def
      by (metis add_diff_inverse_nat add_less_cancel_left not_le)
    then show "NOT e AND level_mask a = 0"
      by (auto intro!: bit_eqI simp: bit_and_iff bit_not_iff)
  qed
  then show ?thesis using e a
    by (simp add: find_free_eq [OF a] find_free_in_level_def Let_def encodes_def)
qed

lemma find_free_Some:
  assumes e: "encodes e P" and a: "a \<le> 5"
    and f: "find_free_frame_idx_bitmap_entry e (int a) = Some index"
  shows "index < 32" "2 ^ a dvd index" "block_pages index a \<inter> P = {}"
    "i < index div 2 ^ a \<Longrightarrow> occupied P a i"
proof -
  let ?w = "NOT e AND level_mask a"
  let ?n = "St_CountTrailingZeros64 ?w"
  from f have nz: "?w \<noteq> 0" and ix: "index = (?n - offsets ! a) * 2 ^ a"
    by (auto simp: find_free_eq [OF a] find_free_in_level_def Let_def split: if_splits)
  have n: "offsets ! a \<le> ?n" "?n < offsets ! a + 2 ^ (5 - a)" "\<not> bit e ?n"
    using St_CountTrailingZeros64_least(1) [OF nz]
    by (auto simp: bit_and_iff bit_not_iff bit_level_mask [OF a])
  define m where "m = ?n - offsets ! a"
  have m: "m < 2 ^ (5 - a)" "\<not> block_bit e a m" "index = m * 2 ^ a"
    using n by (auto simp: m_def block_bit_def ix)
  then have "index < 2 ^ (5 - a) * 2 ^ a" by simp
  also have "(2::nat) ^ (5 - a) * 2 ^ a = 32" using order_cases [OF a] by auto
  finally show "index < 32" .
  show "2 ^ a dvd index" by (simp add: m)
  have dm: "index div 2 ^ a = m" by (simp add: m)
  have "\<not> occupied P a m" using e a m by (simp add: encodes_def)
  then show "block_pages index a \<inter> P = {}"
    by (auto simp: occupied_def block_pages_def dm)
  assume i: "i < index div 2 ^ a"
  then have "offsets ! a + i < ?n" using n dm by (auto simp: m_def)
  then have "\<not> bit ?w (offsets ! a + i)" by (rule St_CountTrailingZeros64_least(2) [OF nz])
  moreover have "i < 2 ^ (5 - a)" using i dm m by simp
  ultimately have "block_bit e a i" using block_pos_less [OF a, of i]
    by (simp add: bit_and_iff bit_not_iff bit_level_mask [OF a] block_bit_def)
  then show "occupied P a i" using e a \<open>i < 2 ^ (5 - a)\<close> by (simp add: encodes_def)
qed

section \<open>Orders\<close>

lemma bit_length_bounds: "n < 2 ^ bit_length n" "n > 0 \<Longrightarrow> 2 ^ (bit_length n - 1) \<le> n"
proof (induction n rule: bit_length.induct)
  case (1 n)
  {
    case 1
    show ?case using "1.IH"(1) by (cases "n = 0") (auto simp: bit_length.simps [of n])
  next
    case 2
    show ?case
    proof (cases "n div 2 > 0")
      case True
      then have "2 ^ (bit_length (n div 2) - 1) \<le> n div 2" using "1.IH"(2) by simp
      moreover have "bit_length (n div 2) > 0" using True by (simp add: bit_length.simps [of "n div 2"])
      ultimately have "2 ^ bit_length (n div 2) \<le> 2 * (n div 2)"
        by (metis One_nat_def Suc_pred mult_le_mono2 power_Suc)
      then show ?thesis using 2 by (simp add: bit_length.simps [of n])
    next
      case False
      then show ?thesis using 2 by (simp add: bit_length.simps [of n] bit_length.simps [of 0])
    qed
  }
qed

lemma bit_length_le: "n < 2 ^ k \<Longrightarrow> bit_length n \<le> k"
proof (rule ccontr)
  assume n: "n < 2 ^ k" and "\<not> bit_length n \<le> k"
  then have "k \<le> bit_length n - 1" by simp
  then have "(2::nat) ^ k \<le> 2 ^ (bit_length n - 1)" by (rule power_increasing) simp
  moreover have "n > 0" using \<open>\<not> bit_length n \<le> k\<close> by (cases n) (auto simp: bit_length.simps [of 0])
  ultimately show False using bit_length_bounds(2) [of n] n by linarith
qed

lemma get_order_bounds:
  assumes "0 < count" "count < 2 ^ 64"
  shows "get_order count \<ge> 0" "count \<le> 2 ^ nat (get_order count)"
    "1 < count \<Longrightarrow> 2 ^ (nat (get_order count) - 1) < count"
proof -
  have go: "get_order count = int (bit_length (count - 1))"
    using assms bit_length_le [of "count - 1" 64]
    by (auto simp: get_order_def St_CountLeadingZeros64_def Let_def bit_length.simps [of 0])
  show "get_order count \<ge> 0" by (simp add: go)
  show "count \<le> 2 ^ nat (get_order count)"
    using bit_length_bounds(1) [of "count - 1"] by (simp add: go)
  show "2 ^ (nat (get_order count) - 1) < count" if "1 < count"
    using bit_length_bounds(2) [of "count - 1"] that by (simp add: go)
qed

section \<open>Well-formedness\<close>

lemma occupied_step:
  "occupied P (Suc ord) i \<longleftrightarrow> occupied P ord (2 * i) \<or> occupied P ord (2 * i + 1)"
  using parent_occupied [of P ord "2 * i"] by (simp add: sibling_index)

lemma encodes_wf: "encodes e P \<Longrightarrow> bmp_wf e"
proof -
  assume e: "encodes e P"
  have "block_bit e (Suc ord) i \<longleftrightarrow> block_bit e ord (2 * i) \<or> block_bit e ord (2 * i + 1)"
    if "ord < 5" "i < 2 ^ (4 - ord)" for ord i
  proof -
    have "5 - ord = Suc (4 - ord)" using that(1) by simp
    then have "2 * i < 2 ^ (5 - ord)" "2 * i + 1 < 2 ^ (5 - ord)" "i < 2 ^ (5 - Suc ord)"
      using that by auto
    then show ?thesis using e that by (simp add: encodes_def occupied_step)
  qed
  then show "bmp_wf e" using e by (simp add: bmp_wf_def encodes_def)
qed

lemma wf_encodes: "bmp_wf e \<Longrightarrow> encodes e (pages_of e)"
proof -
  assume wf: "bmp_wf e"
  have "block_bit e ord i \<longleftrightarrow> occupied (pages_of e) ord i" if "ord \<le> 5" "i < 2 ^ (5 - ord)" for ord i
    using that
  proof (induction ord arbitrary: i)
    case 0
    then show ?case by (auto simp: block_bit_def occupied_def pages_of_def)
  next
    case (Suc ord)
    obtain k where k: "(2::nat) ^ (5 - ord) = 2 * k" "(2::nat) ^ (5 - Suc ord) = k"
      using Suc.prems(1) by (metis Suc_diff_Suc Suc_le_eq power_Suc)
    then have "2 * i < 2 ^ (5 - ord)" "2 * i + 1 < 2 ^ (5 - ord)" using Suc.prems by auto
    moreover have "i < 2 ^ (4 - ord)" using Suc.prems by simp
    ultimately show ?case using wf Suc.IH Suc.prems by (simp add: bmp_wf_def occupied_step)
  qed
  then show ?thesis using wf by (simp add: encodes_def bmp_wf_def)
qed

lemma encodes_bit: "encodes e P \<Longrightarrow> ord \<le> 5 \<Longrightarrow> i < 2 ^ (5 - ord) \<Longrightarrow> block_bit e ord i \<longleftrightarrow> occupied P ord i"
  by (simp add: encodes_def)

lemma pages_of_encodes: "encodes e P \<Longrightarrow> pages_of e = P \<inter> {..<32}"
  using encodes_bit [of e P 0] by (auto simp: pages_of_def block_bit_def occupied_def)

lemma encodes_unique:
  assumes "encodes e P" "encodes e' P"
  shows "e = e'"
proof (rule bit_word_eqI)
  fix n assume n: "n < LENGTH(64)"
  show "bit e n = bit e' n"
  proof (cases "n = 63")
    case True
    then show ?thesis using assms by (simp add: encodes_def)
  next
    case False
    then have "n < 63" using n by simp
    then obtain ord i where "ord \<le> 5" "i < 2 ^ (5 - ord)" "n = offsets ! ord + i"
      by (rule block_pos_cover)
    then show ?thesis
      using encodes_bit [OF assms(1), of ord i] encodes_bit [OF assms(2), of ord i]
      by (simp add: block_bit_def)
  qed
qed

lemma encodes_free: "encodes ALLOCENT_BMP_FREE {}"
  by (simp add: encodes_def ALLOCENT_BMP_FREE_def occupied_def block_bit_def)

lemma encodes_full: "encodes ALLOCENT_BMP_FULL_ALLOC {..<32}"
proof -
  have "block_pages 0 5 = {..<32}" by (auto simp: block_pages_def)
  moreover have "allocate_from_bitmap_entry ALLOCENT_BMP_FREE 0 5 = ALLOCENT_BMP_FULL_ALLOC"
    by (simp add: allocate_eq propagate_loop.simps alloc_masks_def
        ALLOCENT_BMP_FREE_def ALLOCENT_BMP_FULL_ALLOC_def)
  ultimately show ?thesis using allocate_encodes [OF encodes_free, of 5 0] by simp
qed

section \<open>Properties\<close>

text \<open>C1: Allocating the block of order \<open>order\<close> that holds page \<open>index\<close> in a well-formed
  bitmap entry gives a well-formed entry whose allocated pages are the old ones and the block's;
  in particular the tag bit, which tells a bitmap from a pointer, stays clear.\<close>

theorem bitmap_allocate_refines:
  assumes "bmp_wf e" "order \<le> 5" "index < 32"
  shows "bmp_wf (allocate_from_bitmap_entry e index order) \<and>
    pages_of (allocate_from_bitmap_entry e index order) = pages_of e \<union> block_pages index order"
proof -
  have en: "encodes (allocate_from_bitmap_entry e index order) (pages_of e \<union> block_pages index order)"
    by (rule allocate_encodes [OF wf_encodes [OF assms(1)] assms(2,3)])
  moreover have "(pages_of e \<union> block_pages index order) \<inter> {..<32} = pages_of e \<union> block_pages index order"
    by (auto simp: pages_of_def block_pages_def)
  ultimately show ?thesis using encodes_wf pages_of_encodes by metis
qed

theorem bitmap_allocate_refines_witness:
  "bmp_wf ALLOCENT_BMP_FREE \<and> bmp_wf (allocate_from_bitmap_entry ALLOCENT_BMP_FREE 4 2) \<and>
    pages_of (allocate_from_bitmap_entry ALLOCENT_BMP_FREE 4 2) =
      pages_of ALLOCENT_BMP_FREE \<union> block_pages 4 2"
proof -
  have "bmp_wf ALLOCENT_BMP_FREE" by (rule encodes_wf [OF encodes_free])
  then show ?thesis using bitmap_allocate_refines [of ALLOCENT_BMP_FREE 2 4] by simp
qed

text \<open>C17: Freeing a block of a well-formed entry gives a well-formed entry whose allocated
  pages are the old ones less the block's.\<close>

theorem bitmap_free_refines:
  assumes "bmp_wf e" "order \<le> 5" "index < 32"
  shows "bmp_wf (free_to_bitmap_entry e index order) \<and>
    pages_of (free_to_bitmap_entry e index order) = pages_of e - block_pages index order"
proof -
  have en: "encodes (free_to_bitmap_entry e index order) (pages_of e - block_pages index order)"
    by (rule free_encodes [OF wf_encodes [OF assms(1)] assms(2,3)])
  moreover have "(pages_of e - block_pages index order) \<inter> {..<32} = pages_of e - block_pages index order"
    by (auto simp: pages_of_def)
  ultimately show ?thesis using encodes_wf pages_of_encodes by metis
qed

theorem bitmap_free_refines_witness:
  "bmp_wf ALLOCENT_BMP_FULL_ALLOC \<and> bmp_wf (free_to_bitmap_entry ALLOCENT_BMP_FULL_ALLOC 4 2) \<and>
    pages_of (free_to_bitmap_entry ALLOCENT_BMP_FULL_ALLOC 4 2) =
      pages_of ALLOCENT_BMP_FULL_ALLOC - block_pages 4 2"
proof -
  have "bmp_wf ALLOCENT_BMP_FULL_ALLOC" by (rule encodes_wf [OF encodes_full])
  then show ?thesis using bitmap_free_refines [of ALLOCENT_BMP_FULL_ALLOC 2 4] by simp
qed

text \<open>C3: The search of a well-formed entry at alignment \<open>a\<close> finds the lowest aligned block
  of \<open>2 ^ a\<close> pages that holds no allocated page, and fails exactly when there is none.\<close>

theorem bitmap_find_free_correct:
  assumes "bmp_wf e" "a \<le> 5"
  shows "case find_free_frame_idx_bitmap_entry e (int a) of
      None \<Rightarrow> \<forall>i < 2 ^ (5 - a). block_pages (i * 2 ^ a) a \<inter> pages_of e \<noteq> {}
    | Some index \<Rightarrow> index < 32 \<and> 2 ^ a dvd index \<and> block_pages index a \<inter> pages_of e = {} \<and>
        (\<forall>i < index div 2 ^ a. block_pages (i * 2 ^ a) a \<inter> pages_of e \<noteq> {})"
proof -
  have en: "encodes e (pages_of e)" by (rule wf_encodes [OF assms(1)])
  have occ: "occupied (pages_of e) a i \<longleftrightarrow> block_pages (i * 2 ^ a) a \<inter> pages_of e \<noteq> {}" for i
    by (auto simp: occupied_def block_pages_def pages_of_def)
  show ?thesis
    using find_free_None [OF en assms(2)] find_free_Some [OF en assms(2)]
    by (auto simp: occ split: option.splits)
qed

theorem bitmap_find_free_correct_witness:
  "bmp_wf ALLOCENT_BMP_FREE \<and>
   (case find_free_frame_idx_bitmap_entry ALLOCENT_BMP_FREE (int 3) of
      None \<Rightarrow> \<forall>i < 2 ^ (5 - 3). block_pages (i * 2 ^ 3) 3 \<inter> pages_of ALLOCENT_BMP_FREE \<noteq> {}
    | Some index \<Rightarrow> index < 32 \<and> 2 ^ 3 dvd index \<and> block_pages index 3 \<inter> pages_of ALLOCENT_BMP_FREE = {} \<and>
        (\<forall>i < index div 2 ^ 3. block_pages (i * 2 ^ 3) 3 \<inter> pages_of ALLOCENT_BMP_FREE \<noteq> {}))"
proof -
  have "bmp_wf ALLOCENT_BMP_FREE" by (rule encodes_wf [OF encodes_free])
  then show ?thesis using bitmap_find_free_correct [of ALLOCENT_BMP_FREE 3] by simp
qed

text \<open>C4: Freeing what was just allocated restores the entry bit for bit: a block the search
  returned at alignment \<open>a\<close>, allocated and freed at any order up to \<open>a\<close>.\<close>

theorem bitmap_allocate_free_roundtrip:
  assumes "bmp_wf e" "a \<le> 5" "order \<le> a"
    and "find_free_frame_idx_bitmap_entry e (int a) = Some index"
  shows "free_to_bitmap_entry (allocate_from_bitmap_entry e index order) index order = e"
proof -
  let ?P = "pages_of e" and ?B = "block_pages index order"
  have en: "encodes e ?P" by (rule wf_encodes [OF assms(1)])
  have o: "order \<le> 5" using assms by simp
  note found = find_free_Some [OF en assms(2,4)]
  have "?B \<subseteq> block_pages index a"
    using assms(3) unfolding block_pages_def
    by (auto simp: div_mult2_eq [symmetric] power_add [symmetric] dest: arg_cong [of _ _ "\<lambda>x. x div 2 ^ (a - order)"])
  then have "?P \<union> ?B - ?B = ?P" using found(3) by blast
  then have "encodes (free_to_bitmap_entry (allocate_from_bitmap_entry e index order) index order) ?P"
    using free_encodes [OF allocate_encodes [OF en o found(1)] o found(1)] by simp
  then show ?thesis by (rule encodes_unique [OF _ en])
qed

theorem bitmap_allocate_free_roundtrip_witness:
  "bmp_wf ALLOCENT_BMP_FREE \<and>
   find_free_frame_idx_bitmap_entry ALLOCENT_BMP_FREE (int 2) = Some 0 \<and>
   free_to_bitmap_entry (allocate_from_bitmap_entry ALLOCENT_BMP_FREE 0 1) 0 1 = ALLOCENT_BMP_FREE"
proof -
  have "bmp_wf ALLOCENT_BMP_FREE" by (rule encodes_wf [OF encodes_free])
  moreover have "find_free_frame_idx_bitmap_entry ALLOCENT_BMP_FREE (int 2) = Some 0" by code_simp
  ultimately show ?thesis using bitmap_allocate_free_roundtrip [of ALLOCENT_BMP_FREE 2 1 0] by simp
qed

text \<open>C5: The order computed for a request of \<open>count\<close> frames is the least whose block
  holds them all.\<close>

theorem get_order_least:
  assumes "0 < count" "count < 2 ^ 64"
  shows "get_order count \<ge> 0 \<and> count \<le> 2 ^ nat (get_order count) \<and>
    (\<forall>k. count \<le> 2 ^ k \<longrightarrow> get_order count \<le> int k)"
proof -
  have "get_order count \<le> int k" if k: "count \<le> 2 ^ k" for k
  proof (cases "count = 1")
    case True
    then show ?thesis by (simp add: get_order_def)
  next
    case False
    then have "(2::nat) ^ (nat (get_order count) - 1) < 2 ^ k"
      using get_order_bounds(3) [OF assms] assms(1) k by linarith
    then have "nat (get_order count) - 1 < k" by simp
    then show ?thesis by linarith
  qed
  then show ?thesis using get_order_bounds [OF assms] by blast
qed

theorem get_order_least_witness:
  "get_order 33 = 6 \<and> (33::nat) \<le> 2 ^ nat (get_order 33) \<and> get_order 33 \<le> int 7"
proof -
  have "get_order 33 = 6" by code_simp
  moreover have "\<forall>k. (33::nat) \<le> 2 ^ k \<longrightarrow> get_order 33 \<le> int k"
    using get_order_least [of 33] by simp
  then have "get_order 33 \<le> int 7" by (rule allE [of _ 7]) simp
  ultimately show ?thesis by simp
qed

end
