(* ===== verification/Ref_Control.thy ===== *)
theory Ref_Control
  imports Prelude
begin

text \<open>
  The intrusive reference-control block (\<^verbatim>\<open>strata/include/strata/ref_control.h\<close>).
  The object pointer and the finalizer are abstracted to whether a finalizer is set; the
  counter \<^verbatim>\<open>atomic_uint_fast32_t\<close> is taken at the 32 bits the C standard grants it.
\<close>

definition REFCTL_BLOCK_DYING :: uint32_t where "REFCTL_BLOCK_DYING = 0x00000001"
definition REFCTL_BLOCK_REAP_QUEUED :: uint32_t where "REFCTL_BLOCK_REAP_QUEUED = 0x00000002"

record StRefControlBlock =
  ref_count :: uint32_t
  ref_flags :: uint32_t
  deferred_reap_page_count :: uint64_t
  has_finalize :: bool

definition StRefControlBlock_Init :: "uint32_t \<Rightarrow> bool \<Rightarrow> StRefControlBlock" where
  "StRefControlBlock_Init count fin =
     \<lparr>ref_count = count, ref_flags = 0, deferred_reap_page_count = 0, has_finalize = fin\<rparr>"

definition StRefControlBlock_Acquire :: "StRefControlBlock \<Rightarrow> StRefControlBlock" where
  "StRefControlBlock_Acquire rc = rc\<lparr>ref_count := ref_count rc + 1\<rparr>"

text \<open>The result is the C result (whether this was the last reference), whether the finalizer
  was called, and the block.\<close>

definition StRefControlBlock_Release :: "StRefControlBlock \<Rightarrow> bool \<times> bool \<times> StRefControlBlock" where
  "StRefControlBlock_Release rc =
     (let prev = ref_count rc; rc' = rc\<lparr>ref_count := prev - 1\<rparr>
      in if prev \<noteq> 1 then (False, False, rc') else (True, has_finalize rc, rc'))"

definition StRefControlBlock_IsDying :: "StRefControlBlock \<Rightarrow> bool" where
  "StRefControlBlock_IsDying rc \<longleftrightarrow> ref_flags rc AND REFCTL_BLOCK_DYING \<noteq> 0"

definition StRefControlBlock_MarkDying :: "StRefControlBlock \<Rightarrow> StRefControlBlock" where
  "StRefControlBlock_MarkDying rc = rc\<lparr>ref_flags := ref_flags rc OR REFCTL_BLOCK_DYING\<rparr>"

definition StRefControlBlock_IsReapQueued :: "StRefControlBlock \<Rightarrow> bool" where
  "StRefControlBlock_IsReapQueued rc \<longleftrightarrow> ref_flags rc AND REFCTL_BLOCK_REAP_QUEUED \<noteq> 0"

definition StRefControlBlock_MarkReapQueued :: "StRefControlBlock \<Rightarrow> StRefControlBlock" where
  "StRefControlBlock_MarkReapQueued rc = rc\<lparr>ref_flags := ref_flags rc OR REFCTL_BLOCK_REAP_QUEUED\<rparr>"

definition StRefControlBlock_ClearReapQueued :: "StRefControlBlock \<Rightarrow> StRefControlBlock" where
  "StRefControlBlock_ClearReapQueued rc =
     rc\<lparr>ref_flags := ref_flags rc AND NOT REFCTL_BLOCK_REAP_QUEUED\<rparr>"

section \<open>Allocation owners\<close>

text \<open>
  The reference and usage part of \<^verbatim>\<open>struct StAllocationOwner\<close>
  (\<^verbatim>\<open>strata/mm/mm.c\<close>). Its reservation list belongs to the virtual memory manager.
  \<open>owner_freed\<close> records that the finalizer returned the object to the pool.
\<close>

record StAllocationOwner =
  ref_control :: StRefControlBlock
  page_usage_count :: uint64_t
  page_usage_peak_count :: uint64_t
  owner_freed :: bool

definition StAllocationOwner_Create :: StAllocationOwner where
  "StAllocationOwner_Create =
     \<lparr>ref_control = StRefControlBlock_Init 1 True, page_usage_count = 0,
      page_usage_peak_count = 0, owner_freed = False\<rparr>"

definition StAllocationOwner_Acquire :: "StAllocationOwner \<Rightarrow> StAllocationOwner" where
  "StAllocationOwner_Acquire ow = ow\<lparr>ref_control := StRefControlBlock_Acquire (ref_control ow)\<rparr>"

definition StAllocationOwner_Release :: "StAllocationOwner \<Rightarrow> StAllocationOwner" where
  "StAllocationOwner_Release ow =
     (case StRefControlBlock_Release (ref_control ow) of
        (_, finalized, rc) \<Rightarrow> ow\<lparr>ref_control := rc, owner_freed := owner_freed ow \<or> finalized\<rparr>)"

definition StAllocationOwner_IsClosed :: "StAllocationOwner \<Rightarrow> bool" where
  "StAllocationOwner_IsClosed ow = StRefControlBlock_IsDying (ref_control ow)"

end
