(* ===== verification/Pmm_State.thy ===== *)
theory Pmm_State
  imports Pmm_Bitmap Ref_Control
begin

text \<open>
  The state of the physical memory manager (the static variables of
  \<^verbatim>\<open>strata/mm/pmm.c\<close>) and its lowest operations: the pools of management objects and
  their top-up, the creation of tables and extended entries, and the frame metadata.

  A frame number, a table index and an entry index are natural numbers. A pointer to an
  allocation table or an extended entry is a datatype value that names the object: a slot of
  the early pool, or the direct-map address of a physical frame (with the position within
  it, for an extended entry). \<open>WildTable\<close> is the pointer the code computes from
  \<^verbatim>\<open>ATPA_HUGE_ALLOC & ATPA_ADDR_MASK\<close>, which points to no object.
\<close>

section \<open>Constants\<close>

definition PAGE_SIZE :: nat where "PAGE_SIZE = 4096"
definition PAGES_PER_ALLOCTABLE_ENTRY :: nat where "PAGES_PER_ALLOCTABLE_ENTRY = 32"
definition ALLOC_TABLE_ENTRY_COUNT :: nat where "ALLOC_TABLE_ENTRY_COUNT = 512"
definition ALLOC_TABLE_PTR_ARRAY_SIZE :: nat where "ALLOC_TABLE_PTR_ARRAY_SIZE = 4096"
definition EARLY_ALLOC_TABLE_POOL_COUNT :: nat where "EARLY_ALLOC_TABLE_POOL_COUNT = 128"
definition EARLY_EXTENDED_ENTRY_POOL_COUNT :: nat where "EARLY_EXTENDED_ENTRY_POOL_COUNT = 128"
definition ALLOC_TABLE_POOL_LOW_WATERMARK :: nat where "ALLOC_TABLE_POOL_LOW_WATERMARK = 8"
definition EXTENTRY_POOL_LOW_WATERMARK :: nat where "EXTENTRY_POOL_LOW_WATERMARK = 16"
definition METADATA_BLOCK_ENTRY_COUNT :: nat where "METADATA_BLOCK_ENTRY_COUNT = PAGE_SIZE div 64"
definition ALLOCENT_COVERAGE_PAGES :: nat where
  "ALLOCENT_COVERAGE_PAGES = PAGES_PER_ALLOCTABLE_ENTRY"
definition ALLOC_TABLE_COVERAGE_PAGES :: nat where
  "ALLOC_TABLE_COVERAGE_PAGES = ALLOC_TABLE_ENTRY_COUNT * PAGES_PER_ALLOCTABLE_ENTRY"
definition ATPA_COVERAGE_PAGES :: nat where
  "ATPA_COVERAGE_PAGES = ALLOC_TABLE_PTR_ARRAY_SIZE * ALLOC_TABLE_COVERAGE_PAGES"
definition METADATA_BLOCK_COVERAGE_PAGES :: nat where
  "METADATA_BLOCK_COVERAGE_PAGES = METADATA_BLOCK_ENTRY_COUNT"
definition PMM_MAX_ORDER :: nat where "PMM_MAX_ORDER = 26"
definition EXTENTRIES_PER_PAGE :: nat where "EXTENTRIES_PER_PAGE = PAGE_SIZE div 32"

lemmas pmm_consts =
  PAGE_SIZE_def PAGES_PER_ALLOCTABLE_ENTRY_def ALLOC_TABLE_ENTRY_COUNT_def
  ALLOC_TABLE_PTR_ARRAY_SIZE_def EARLY_ALLOC_TABLE_POOL_COUNT_def
  EARLY_EXTENDED_ENTRY_POOL_COUNT_def ALLOC_TABLE_POOL_LOW_WATERMARK_def
  EXTENTRY_POOL_LOW_WATERMARK_def METADATA_BLOCK_ENTRY_COUNT_def ALLOCENT_COVERAGE_PAGES_def
  ALLOC_TABLE_COVERAGE_PAGES_def ATPA_COVERAGE_PAGES_def METADATA_BLOCK_COVERAGE_PAGES_def
  PMM_MAX_ORDER_def EXTENTRIES_PER_PAGE_def

section \<open>Data\<close>

datatype ee_state = EE_FREE | EE_USED | EE_UNUSABLE

datatype table_ptr = EarlyTable nat | DynTable nat | WildTable
datatype extentry_ptr = EarlyExt nat | DynExt nat nat

text \<open>\<^verbatim>\<open>union alloc_table_entry\<close>: a word with a clear tag bit is a bitmap; the all-ones word and
  a pointer have it set.\<close>

datatype alloc_table_entry =
    ENT_BITMAP uint64_t
  | ENT_EXT_UNUSABLE
  | ENT_EXT extentry_ptr

text \<open>An entry of \<^verbatim>\<open>alloc_table_ptr_array\<close>; a pointer entry carries the order hint bitmap in its
  low twelve bits.\<close>

datatype atpa_entry = ATPA_UNUSABLE | ATPA_HUGE_ALLOC | ATPA_FREE | ATPA_PTR table_ptr "12 word"

record pmm_metadata =
  md_order :: uint32_t
  md_flags :: uint32_t
  md_owner :: "nat option"
  md_refcount :: uint32_t
  md_lock :: uint32_t

text \<open>
  The state. \<open>tables\<close> and \<open>extentries\<close> are the objects behind the pointers. The dynamic free
  lists are chained through the free objects in C and lists of pointers here. \<open>md_mapped p\<close> says
  that page \<open>p\<close> of the metadata area is mapped; \<open>owners\<close> are the allocation owners by number.
\<close>

record pmm =
  atpa :: "nat \<Rightarrow> atpa_entry"
  tables :: "table_ptr \<Rightarrow> nat \<Rightarrow> alloc_table_entry"
  extentries :: "extentry_ptr \<Rightarrow> nat \<Rightarrow> ee_state"
  early_alloctbl_pool_used_count :: nat
  early_extentry_pool_used_count :: nat
  dynamic_alloctbl_freelist :: "table_ptr list"
  dynamic_alloctbl_free_count :: nat
  dynamic_extentry_freelist :: "extentry_ptr list"
  dynamic_extentry_free_count :: nat
  is_topping_up_alloctbl_pool :: bool
  is_topping_up_extentry_pool :: bool
  total_frames :: uint64_t
  free_frames :: uint64_t
  allocation_available :: bool
  remarking_unavailable :: bool
  metadata_available :: bool
  metadata :: "nat \<Rightarrow> pmm_metadata"
  md_mapped :: "nat \<Rightarrow> bool"
  owners :: "nat \<Rightarrow> StAllocationOwner"
  preemption_depth :: uint32_t

section \<open>The order hint bitmap\<close>

definition ATPA_ORDER_BMP_MASK :: "12 word" where "ATPA_ORDER_BMP_MASK = 0xFFF"

definition ATPA_ORDER_BMP_IDX :: "nat \<Rightarrow> nat" where
  "ATPA_ORDER_BMP_IDX ord = (if ord \<le> 2 then 0 else ord - 2)"

definition ATPA_ORDER_BMP_GET :: "12 word \<Rightarrow> nat \<Rightarrow> bool" where
  "ATPA_ORDER_BMP_GET b ord \<longleftrightarrow> b AND push_bit (ATPA_ORDER_BMP_IDX ord) 1 \<noteq> 0"

definition ATPA_ORDER_BMP_SET :: "12 word \<Rightarrow> nat \<Rightarrow> 12 word" where
  "ATPA_ORDER_BMP_SET b ord = b OR push_bit (ATPA_ORDER_BMP_IDX ord) 1"

definition ATPA_ORDER_BMP_CLR :: "12 word \<Rightarrow> nat \<Rightarrow> 12 word" where
  "ATPA_ORDER_BMP_CLR b ord =
     b AND NOT (ATPA_ORDER_BMP_MASK AND NOT (push_bit (ATPA_ORDER_BMP_IDX ord) 1 - 1))"

text \<open>The two macros on a slot of the array: a slot that is not a pointer keeps its value, which the
  code never lets happen.\<close>

definition atpa_hint_set :: "nat \<Rightarrow> nat \<Rightarrow> pmm \<Rightarrow> pmm" where
  "atpa_hint_set i ord s =
     (case atpa s i of
        ATPA_PTR t b \<Rightarrow> s\<lparr>atpa := (atpa s)(i := ATPA_PTR t (ATPA_ORDER_BMP_SET b ord))\<rparr>
      | _ \<Rightarrow> s)"

definition atpa_hint_clr :: "nat \<Rightarrow> nat \<Rightarrow> pmm \<Rightarrow> pmm" where
  "atpa_hint_clr i ord s =
     (case atpa s i of
        ATPA_PTR t b \<Rightarrow> s\<lparr>atpa := (atpa s)(i := ATPA_PTR t (ATPA_ORDER_BMP_CLR b ord))\<rparr>
      | _ \<Rightarrow> s)"

section \<open>Pools of management objects\<close>

definition push_dynamic_alloc_table :: "table_ptr \<Rightarrow> pmm \<Rightarrow> pmm" where
  "push_dynamic_alloc_table t s =
     s\<lparr>dynamic_alloctbl_freelist := t # dynamic_alloctbl_freelist s,
       dynamic_alloctbl_free_count := dynamic_alloctbl_free_count s + 1\<rparr>"

definition pop_dynamic_alloc_table :: "pmm \<Rightarrow> table_ptr option \<times> pmm" where
  "pop_dynamic_alloc_table s =
     (case dynamic_alloctbl_freelist s of
        [] \<Rightarrow> (None, s)
      | t # rest \<Rightarrow>
          (Some t, s\<lparr>dynamic_alloctbl_freelist := rest,
                     dynamic_alloctbl_free_count := dynamic_alloctbl_free_count s - 1\<rparr>))"

definition push_dynamic_extentry :: "extentry_ptr \<Rightarrow> pmm \<Rightarrow> pmm" where
  "push_dynamic_extentry e s =
     s\<lparr>dynamic_extentry_freelist := e # dynamic_extentry_freelist s,
       dynamic_extentry_free_count := dynamic_extentry_free_count s + 1\<rparr>"

definition pop_dynamic_extentry :: "pmm \<Rightarrow> extentry_ptr option \<times> pmm" where
  "pop_dynamic_extentry s =
     (case dynamic_extentry_freelist s of
        [] \<Rightarrow> (None, s)
      | e # rest \<Rightarrow>
          (Some e, s\<lparr>dynamic_extentry_freelist := rest,
                     dynamic_extentry_free_count := dynamic_extentry_free_count s - 1\<rparr>))"

fun is_dynamic_alloc_table :: "table_ptr \<Rightarrow> bool" where
  "is_dynamic_alloc_table (EarlyTable k) = (k \<ge> EARLY_ALLOC_TABLE_POOL_COUNT)"
| "is_dynamic_alloc_table (DynTable _) = True"
| "is_dynamic_alloc_table WildTable = True"

definition alloc_table_is_all_free :: "table_ptr \<Rightarrow> pmm \<Rightarrow> bool" where
  "alloc_table_is_all_free t s =
     list_all (\<lambda>i. tables s t i = ENT_BITMAP ALLOCENT_BMP_FREE) [0..<ALLOC_TABLE_ENTRY_COUNT]"

definition get_alloctbl_pool_remaining :: "pmm \<Rightarrow> nat" where
  "get_alloctbl_pool_remaining s =
     (let early_remaining =
        (if early_alloctbl_pool_used_count s < EARLY_ALLOC_TABLE_POOL_COUNT
         then EARLY_ALLOC_TABLE_POOL_COUNT - early_alloctbl_pool_used_count s else 0)
      in early_remaining + dynamic_alloctbl_free_count s)"

definition get_extentry_pool_remaining :: "pmm \<Rightarrow> nat" where
  "get_extentry_pool_remaining s =
     (let early_remaining =
        (if early_extentry_pool_used_count s < EARLY_EXTENDED_ENTRY_POOL_COUNT
         then EARLY_EXTENDED_ENTRY_POOL_COUNT - early_extentry_pool_used_count s else 0)
      in early_remaining + dynamic_extentry_free_count s)"

text \<open>
  The top-up functions call \<^verbatim>\<open>StPmm_AllocateContiguousFrame\<close>, which calls back into this
  layer. The allocator is an argument here: it takes the value of \<^verbatim>\<open>*pfn\<close> before the call, the
  count and the flags (the owner is NULL) and gives the state, the status and \<^verbatim>\<open>*pfn\<close>
  after it. A page written through the direct map must be a frame of the managed range:
  the initial value \<^verbatim>\<open>(St_PhysFrame)-1\<close> is not one.
\<close>

type_synonym allocator = "pmm \<Rightarrow> nat \<Rightarrow> nat \<Rightarrow> uint32_t \<Rightarrow> (pmm \<times> StStatus \<times> nat) outcome"

definition AF_DEFAULT :: uint32_t where "AF_DEFAULT = 0"
definition INVALID_PFN :: nat where "INVALID_PFN = 2 ^ 64 - 1"

definition topup_alloc_table_pool :: "allocator \<Rightarrow> pmm \<Rightarrow> (pmm \<times> StStatus) outcome" where
  "topup_alloc_table_pool alloc s =
     (if \<not> allocation_available s then Returned (s, STATUS_CONFLICTING_STATE)
      else if is_topping_up_alloctbl_pool s then Returned (s, STATUS_SUCCESS)
      else obind (alloc (s\<lparr>is_topping_up_alloctbl_pool := True\<rparr>) INVALID_PFN 1 AF_DEFAULT)
        (\<lambda>(s, status, pfn).
          if CHECK_SUCCESS status then
            if pfn < ATPA_COVERAGE_PAGES then
              Returned ((push_dynamic_alloc_table (DynTable pfn) s)
                         \<lparr>is_topping_up_alloctbl_pool := False\<rparr>, status)
            else Undefined
          else Returned (s\<lparr>is_topping_up_alloctbl_pool := False\<rparr>, status)))"

definition topup_extentry_pool :: "allocator \<Rightarrow> pmm \<Rightarrow> (pmm \<times> StStatus) outcome" where
  "topup_extentry_pool alloc s =
     (if \<not> allocation_available s then Returned (s, STATUS_CONFLICTING_STATE)
      else if is_topping_up_extentry_pool s then Returned (s, STATUS_SUCCESS)
      else obind (alloc (s\<lparr>is_topping_up_extentry_pool := True\<rparr>) INVALID_PFN 1 AF_DEFAULT)
        (\<lambda>(s, status, pfn).
          if CHECK_SUCCESS status then
            if pfn < ATPA_COVERAGE_PAGES then
              Returned ((fold (\<lambda>i. push_dynamic_extentry (DynExt pfn i)) [0..<EXTENTRIES_PER_PAGE] s)
                         \<lparr>is_topping_up_extentry_pool := False\<rparr>, status)
            else Undefined
          else Returned (s\<lparr>is_topping_up_extentry_pool := False\<rparr>, status)))"

text \<open>A failed top-up is only logged.\<close>

definition maybe_topup_management_pools :: "allocator \<Rightarrow> pmm \<Rightarrow> pmm outcome" where
  "maybe_topup_management_pools alloc s =
     (if \<not> allocation_available s then Returned s
      else obind
        (if \<not> is_topping_up_alloctbl_pool s \<and>
            get_alloctbl_pool_remaining s \<le> ALLOC_TABLE_POOL_LOW_WATERMARK
         then obind (topup_alloc_table_pool alloc s) (\<lambda>(s, _). Returned s) else Returned s)
        (\<lambda>s. if \<not> is_topping_up_extentry_pool s \<and>
                get_extentry_pool_remaining s \<le> EXTENTRY_POOL_LOW_WATERMARK
             then obind (topup_extentry_pool alloc s) (\<lambda>(s, _). Returned s) else Returned s))"

section \<open>Tables and extended entries\<close>

text \<open>The loop \<^verbatim>\<open>for (j = 0; j < n; j++) a[start + j] = v\<close> on an array.\<close>

definition fill_range :: "(nat \<Rightarrow> 'a) \<Rightarrow> nat \<Rightarrow> nat \<Rightarrow> 'a \<Rightarrow> nat \<Rightarrow> 'a" where
  "fill_range a start n v = (\<lambda>k. if start \<le> k \<and> k < start + n then v else a k)"

text \<open>The choice of a new table: the next slot of the early pool, else the head of the
  free list (a write through a NULL head is undefined), else none.\<close>

definition take_alloc_table :: "pmm \<Rightarrow> (pmm \<times> table_ptr option) outcome" where
  "take_alloc_table s =
     (if early_alloctbl_pool_used_count s < EARLY_ALLOC_TABLE_POOL_COUNT then
        Returned (s\<lparr>early_alloctbl_pool_used_count := early_alloctbl_pool_used_count s + 1\<rparr>,
                  Some (EarlyTable (early_alloctbl_pool_used_count s)))
      else if dynamic_alloctbl_free_count s > 0 then
        (case pop_dynamic_alloc_table s of
           (None, _) \<Rightarrow> Undefined
         | (Some t, s) \<Rightarrow> Returned (s, Some t))
      else Returned (s, None))"

definition get_or_create_table ::
  "allocator \<Rightarrow> nat \<Rightarrow> pmm \<Rightarrow> (pmm \<times> (StStatus + table_ptr)) outcome" where
  "get_or_create_table alloc table_idx s =
     (if table_idx \<ge> ALLOC_TABLE_PTR_ARRAY_SIZE then Returned (s, Inl STATUS_INVALID_VALUE)
      else case atpa s table_idx of
        ATPA_PTR t _ \<Rightarrow> Returned (s, Inr t)
      | ATPA_HUGE_ALLOC \<Rightarrow> Returned (s, Inr WildTable)
      | old \<Rightarrow>
          let create_as_free = (old \<noteq> ATPA_UNUSABLE) in
          obind (maybe_topup_management_pools alloc s) (\<lambda>s.
          obind
            (if get_alloctbl_pool_remaining s = 0 \<and> \<not> is_topping_up_alloctbl_pool s \<and>
                allocation_available s
             then topup_alloc_table_pool alloc s else Returned (s, STATUS_SUCCESS)) (\<lambda>(s, status).
          if \<not> CHECK_SUCCESS status then Returned (s, Inl status)
          else obind (take_alloc_table s) (\<lambda>(s, new_table).
            case new_table of
              None \<Rightarrow> Returned (s, Inl STATUS_INSUFFICIENT_MEMORY)
            | Some t \<Rightarrow>
                Returned
                  (s\<lparr>tables := (tables s)(t :=
                       (if create_as_free then (\<lambda>_. ENT_BITMAP ALLOCENT_BMP_FREE)
                        else (\<lambda>_. ENT_EXT_UNUSABLE))),
                     atpa := (atpa s)(table_idx := ATPA_PTR t ATPA_ORDER_BMP_MASK)\<rparr>,
                   Inr t)))))"

text \<open>The choice of a new extended entry.\<close>

definition take_extentry :: "pmm \<Rightarrow> pmm \<times> extentry_ptr option" where
  "take_extentry s =
     (if early_extentry_pool_used_count s < EARLY_EXTENDED_ENTRY_POOL_COUNT then
        (s\<lparr>early_extentry_pool_used_count := early_extentry_pool_used_count s + 1\<rparr>,
         Some (EarlyExt (early_extentry_pool_used_count s)))
      else if dynamic_extentry_free_count s > 0 then
        (case pop_dynamic_extentry s of (e, s) \<Rightarrow> (s, e))
      else (s, None))"

definition get_or_create_extentry ::
  "allocator \<Rightarrow> table_ptr \<Rightarrow> nat \<Rightarrow> pmm \<Rightarrow> (pmm \<times> (StStatus + extentry_ptr)) outcome" where
  "get_or_create_extentry alloc t entry_idx s =
     (if entry_idx \<ge> ALLOC_TABLE_ENTRY_COUNT then Returned (s, Inl STATUS_INVALID_VALUE)
      else if t = WildTable then Undefined
      else case tables s t entry_idx of
        ENT_EXT e \<Rightarrow> Returned (s, Inr e)
      | old \<Rightarrow>
          let create_as_unusable = (old = ENT_EXT_UNUSABLE) in
          obind (maybe_topup_management_pools alloc s) (\<lambda>s.
          obind
            (if get_extentry_pool_remaining s = 0 \<and> \<not> is_topping_up_extentry_pool s \<and>
                allocation_available s
             then topup_extentry_pool alloc s else Returned (s, STATUS_SUCCESS)) (\<lambda>(s, status).
          if \<not> CHECK_SUCCESS status then Returned (s, Inl status)
          else case take_extentry s of
              (s, None) \<Rightarrow> Returned (s, Inl STATUS_INSUFFICIENT_MEMORY)
            | (s, Some e) \<Rightarrow>
                Returned
                  (s\<lparr>extentries := (extentries s)(e :=
                       (\<lambda>_. if create_as_unusable then EE_UNUSABLE else EE_FREE)),
                     tables := (tables s)(t := (tables s t)(entry_idx := ENT_EXT e))\<rparr>,
                   Inr e))))"

section \<open>Frame metadata\<close>

text \<open>The metadata of frame \<open>pfn\<close> lies on page \<open>pfn div METADATA_BLOCK_ENTRY_COUNT\<close> of the metadata
  area; an access to a page that is not mapped faults.\<close>

definition md_accessible :: "pmm \<Rightarrow> nat \<Rightarrow> bool" where
  "md_accessible s pfn \<longleftrightarrow> md_mapped s (pfn div METADATA_BLOCK_ENTRY_COUNT)"

definition charge_owner :: "nat \<Rightarrow> StAllocationOwner \<Rightarrow> StAllocationOwner" where
  "charge_owner order ow =
     (let ow = StAllocationOwner_Acquire ow;
          ow = ow\<lparr>page_usage_count := page_usage_count ow + push_bit order 1\<rparr>
      in if page_usage_peak_count ow < page_usage_count ow
         then ow\<lparr>page_usage_peak_count := page_usage_count ow\<rparr> else ow)"

definition create_metadata :: "nat \<Rightarrow> nat option \<Rightarrow> nat \<Rightarrow> pmm \<Rightarrow> (pmm \<times> StStatus) outcome" where
  "create_metadata pfn owner order s =
     (if \<not> metadata_available s then Returned (s, STATUS_SUCCESS)
      else if \<not> md_accessible s pfn then Undefined
      else let s = s\<lparr>metadata := (metadata s)(pfn :=
                       \<lparr>md_order = of_nat order, md_flags = 0, md_owner = owner,
                        md_refcount = 1, md_lock = 0\<rparr>)\<rparr>
           in case owner of
                None \<Rightarrow> Returned (s, STATUS_SUCCESS)
              | Some n \<Rightarrow>
                  Returned (s\<lparr>owners := (owners s)(n := charge_owner order (owners s n))\<rparr>,
                            STATUS_SUCCESS))"

end
