(* ===== verification/Pmm_Frames.thy ===== *)
theory Pmm_Frames
  imports Pmm_State
begin

text \<open>
  The abstract view of the physical memory manager: each frame is unusable, free or used, as read
  off the table pointer array, the tables and the extended entries. The well-formedness of
  the state says that no two slots share a table or an extended entry, that the pools hold objects in
  no other use, and that each bitmap is consistent. The lemmas say what each elementary update of the
  state does to the view and that it keeps the well-formedness.
\<close>

section \<open>Frame states\<close>

datatype frame_state = Unusable | Free | Used

fun slot_state :: "ee_state \<Rightarrow> frame_state" where
  "slot_state EE_FREE = Free"
| "slot_state EE_USED = Used"
| "slot_state EE_UNUSABLE = Unusable"

fun entry_state :: "pmm \<Rightarrow> alloc_table_entry \<Rightarrow> nat \<Rightarrow> frame_state" where
  "entry_state s (ENT_BITMAP b) p = (if bit b p then Used else Free)"
| "entry_state s ENT_EXT_UNUSABLE p = Unusable"
| "entry_state s (ENT_EXT x) p = slot_state (extentries s x p)"

fun table_state :: "pmm \<Rightarrow> atpa_entry \<Rightarrow> nat \<Rightarrow> nat \<Rightarrow> frame_state" where
  "table_state s ATPA_UNUSABLE e p = Unusable"
| "table_state s ATPA_FREE e p = Free"
| "table_state s ATPA_HUGE_ALLOC e p = Used"
| "table_state s (ATPA_PTR t h) e p = entry_state s (tables s t e) p"

definition table_of :: "nat \<Rightarrow> nat" where "table_of f = f div 16384"
definition entry_of :: "nat \<Rightarrow> nat" where "entry_of f = (f mod 16384) div 32"
definition page_of :: "nat \<Rightarrow> nat" where "page_of f = f mod 32"

definition frame_state :: "pmm \<Rightarrow> nat \<Rightarrow> frame_state" where
  "frame_state s f =
     (if table_of f < 4096 then table_state s (atpa s (table_of f)) (entry_of f) (page_of f)
      else Unusable)"

definition free_set :: "pmm \<Rightarrow> nat set" where "free_set s = {f. frame_state s f = Free}"

section \<open>Well-formedness\<close>

definition live_table :: "pmm \<Rightarrow> table_ptr \<Rightarrow> bool" where
  "live_table s t \<longleftrightarrow> (\<exists>i < 4096. \<exists>h. atpa s i = ATPA_PTR t h)"

definition live_entry :: "pmm \<Rightarrow> table_ptr \<Rightarrow> nat \<Rightarrow> alloc_table_entry \<Rightarrow> bool" where
  "live_entry s t e ent \<longleftrightarrow> live_table s t \<and> e < 512 \<and> tables s t e = ent"

definition table_slot_ok :: "pmm \<Rightarrow> table_ptr \<Rightarrow> bool" where
  "table_slot_ok s t =
     (case t of EarlyTable k \<Rightarrow> k < early_alloctbl_pool_used_count s
      | DynTable p \<Rightarrow> frame_state s p = Used | WildTable \<Rightarrow> False)"

definition ext_slot_ok :: "pmm \<Rightarrow> extentry_ptr \<Rightarrow> bool" where
  "ext_slot_ok s x =
     (case x of EarlyExt k \<Rightarrow> k < early_extentry_pool_used_count s
      | DynExt p i \<Rightarrow> frame_state s p = Used)"

definition tables_wf :: "pmm \<Rightarrow> bool" where
  "tables_wf s \<longleftrightarrow>
     (\<forall>i < 4096. \<forall>j < 4096. \<forall>t h h'. atpa s i = ATPA_PTR t h \<longrightarrow> atpa s j = ATPA_PTR t h' \<longrightarrow> i = j) \<and>
     (\<forall>t. live_table s t \<longrightarrow> table_slot_ok s t \<and> t \<notin> set (dynamic_alloctbl_freelist s)) \<and>
     (\<forall>t \<in> set (dynamic_alloctbl_freelist s). table_slot_ok s t) \<and>
     distinct (dynamic_alloctbl_freelist s) \<and>
     dynamic_alloctbl_free_count s = length (dynamic_alloctbl_freelist s) \<and>
     early_alloctbl_pool_used_count s \<le> 128"

definition exts_wf :: "pmm \<Rightarrow> bool" where
  "exts_wf s \<longleftrightarrow>
     (\<forall>t t' e e' x. live_entry s t e (ENT_EXT x) \<longrightarrow> live_entry s t' e' (ENT_EXT x) \<longrightarrow> t = t' \<and> e = e') \<and>
     (\<forall>t e x. live_entry s t e (ENT_EXT x) \<longrightarrow>
        ext_slot_ok s x \<and> x \<notin> set (dynamic_extentry_freelist s)) \<and>
     (\<forall>x \<in> set (dynamic_extentry_freelist s). ext_slot_ok s x) \<and>
     distinct (dynamic_extentry_freelist s) \<and>
     dynamic_extentry_free_count s = length (dynamic_extentry_freelist s) \<and>
     early_extentry_pool_used_count s \<le> 128"

definition bitmaps_wf :: "pmm \<Rightarrow> bool" where
  "bitmaps_wf s \<longleftrightarrow> (\<forall>t e b. live_entry s t e (ENT_BITMAP b) \<longrightarrow> bmp_wf b)"

definition pmm_wf :: "pmm \<Rightarrow> bool" where
  "pmm_wf s \<longleftrightarrow> tables_wf s \<and> exts_wf s \<and> bitmaps_wf s"

text \<open>The frame counter counts the free frames.\<close>

definition counts_ok :: "pmm \<Rightarrow> bool" where
  "counts_ok s \<longleftrightarrow> free_frames s = of_nat (card (free_set s))"

text \<open>Frames that hold management objects, which no caller may release.\<close>

definition mgmt_frame :: "pmm \<Rightarrow> nat \<Rightarrow> bool" where
  "mgmt_frame s f \<longleftrightarrow>
     live_table s (DynTable f) \<or> DynTable f \<in> set (dynamic_alloctbl_freelist s) \<or>
     (\<exists>i. (\<exists>t e. live_entry s t e (ENT_EXT (DynExt f i))) \<or> DynExt f i \<in> set (dynamic_extentry_freelist s))"

text \<open>No frame becomes a management frame.\<close>

definition mgmt_le :: "pmm \<Rightarrow> pmm \<Rightarrow> bool" where
  "mgmt_le s s' \<longleftrightarrow> (\<forall>f. mgmt_frame s' f \<longrightarrow> mgmt_frame s f)"

lemma mgmt_le_refl [simp]: "mgmt_le s s" by (simp add: mgmt_le_def)

lemma mgmt_le_trans: "mgmt_le s s1 \<Longrightarrow> mgmt_le s1 s2 \<Longrightarrow> mgmt_le s s2"
  by (simp add: mgmt_le_def)

section \<open>Frame arithmetic\<close>

definition frame_at :: "nat \<Rightarrow> nat \<Rightarrow> nat \<Rightarrow> nat" where
  "frame_at i e p = i * 16384 + e * 32 + p"

lemma frame_at_parts [simp]:
  assumes "e < 512" "p < 32"
  shows "table_of (frame_at i e p) = i" "entry_of (frame_at i e p) = e" "page_of (frame_at i e p) = p"
proof -
  have *: "e * 32 + p < 16384" using assms by simp
  have "frame_at i e p = (e * 32 + p) + 16384 * i" by (simp add: frame_at_def)
  then have d: "frame_at i e p div 16384 = i" "frame_at i e p mod 16384 = e * 32 + p" using * by simp_all
  show "table_of (frame_at i e p) = i" using d by (simp add: table_of_def)
  show "entry_of (frame_at i e p) = e" using d assms by (simp add: entry_of_def)
  have "frame_at i e p = p + 32 * (i * 512 + e)" by (simp add: frame_at_def)
  then have "frame_at i e p mod 32 = p mod 32" by (metis mod_mult_self2)
  then show "page_of (frame_at i e p) = p" using assms by (simp add: page_of_def)
qed

lemma frame_parts [simp]: "frame_at (table_of f) (entry_of f) (page_of f) = f"
proof -
  have "f mod 16384 mod 32 = f mod 32" by (simp add: mod_mod_cancel)
  moreover have "f mod 16384 div 32 * 32 + f mod 16384 mod 32 = f mod 16384" by simp
  moreover have "f div 16384 * 16384 + f mod 16384 = f" by simp
  ultimately show ?thesis unfolding frame_at_def table_of_def entry_of_def page_of_def by linarith
qed

lemma entry_of_less [simp]: "entry_of f < 512" by (simp add: entry_of_def)
lemma page_of_less [simp]: "page_of f < 32" by (simp add: page_of_def)

lemma frame_eq_iff: "f = g \<longleftrightarrow> table_of f = table_of g \<and> entry_of f = entry_of g \<and> page_of f = page_of g"
  by (metis frame_parts)

lemma frame_stateD: "frame_state s f \<noteq> Unusable \<Longrightarrow> table_of f < 4096"
  by (auto simp: frame_state_def split: if_splits)

lemma free_set_finite [simp]: "finite (free_set s)"
proof (rule finite_subset)
  show "free_set s \<subseteq> {..<67108864}"
  proof
    fix f assume "f \<in> free_set s"
    then have "table_of f < 4096" by (intro frame_stateD [of s]) (auto simp: free_set_def)
    then show "f \<in> {..<67108864}" by (simp add: table_of_def)
  qed
qed simp

section \<open>Consequences of well-formedness\<close>

lemma wf_table_inj:
  "pmm_wf s \<Longrightarrow> i < 4096 \<Longrightarrow> j < 4096 \<Longrightarrow> atpa s i = ATPA_PTR t h \<Longrightarrow> atpa s j = ATPA_PTR t h' \<Longrightarrow> i = j"
  unfolding pmm_wf_def tables_wf_def by blast

lemma wf_ext_inj:
  "pmm_wf s \<Longrightarrow> live_entry s t e (ENT_EXT x) \<Longrightarrow> live_entry s t' e' (ENT_EXT x) \<Longrightarrow> t = t' \<and> e = e'"
  unfolding pmm_wf_def exts_wf_def by blast

lemma wf_bitmap: "pmm_wf s \<Longrightarrow> live_entry s t e (ENT_BITMAP b) \<Longrightarrow> bmp_wf b"
  unfolding pmm_wf_def bitmaps_wf_def by blast

lemma wf_not_wild: "pmm_wf s \<Longrightarrow> live_table s t \<Longrightarrow> t \<noteq> WildTable"
  unfolding pmm_wf_def tables_wf_def table_slot_ok_def by auto

lemma live_tableI: "atpa s i = ATPA_PTR t h \<Longrightarrow> i < 4096 \<Longrightarrow> live_table s t"
  by (auto simp: live_table_def)

lemma mgmt_frame_Used: "pmm_wf s \<Longrightarrow> mgmt_frame s f \<Longrightarrow> frame_state s f = Used"
  unfolding pmm_wf_def tables_wf_def exts_wf_def mgmt_frame_def
  by (fastforce simp: table_slot_ok_def ext_slot_ok_def)

lemma frame_state_cong:
  "atpa s' = atpa s \<Longrightarrow> tables s' = tables s \<Longrightarrow> extentries s' = extentries s \<Longrightarrow> frame_state s' = frame_state s"
proof (rule ext)
  fix f
  assume a: "atpa s' = atpa s" "tables s' = tables s" "extentries s' = extentries s"
  have e: "entry_state s' ent p = entry_state s ent p" for ent p using a by (cases ent) auto
  have "table_state s' en e p = table_state s en e p" for en e p using a e by (cases en) auto
  then show "frame_state s' f = frame_state s f" using a by (simp add: frame_state_def)
qed

text \<open>The fields the view and the well-formedness depend on.\<close>

definition same_map :: "pmm \<Rightarrow> pmm \<Rightarrow> bool" where
  "same_map s s' \<longleftrightarrow> atpa s' = atpa s \<and> tables s' = tables s \<and> extentries s' = extentries s \<and>
     early_alloctbl_pool_used_count s' = early_alloctbl_pool_used_count s \<and>
     early_extentry_pool_used_count s' = early_extentry_pool_used_count s \<and>
     dynamic_alloctbl_freelist s' = dynamic_alloctbl_freelist s \<and>
     dynamic_alloctbl_free_count s' = dynamic_alloctbl_free_count s \<and>
     dynamic_extentry_freelist s' = dynamic_extentry_freelist s \<and>
     dynamic_extentry_free_count s' = dynamic_extentry_free_count s"

lemma same_map_frame_state: "same_map s s' \<Longrightarrow> frame_state s' = frame_state s"
  by (rule frame_state_cong) (simp_all add: same_map_def)

lemma same_map_wf:
  assumes "same_map s s'"
  shows "pmm_wf s' = pmm_wf s"
proof -
  have fs: "frame_state s' = frame_state s" by (rule same_map_frame_state [OF assms])
  have lt: "live_table s' = live_table s" using assms by (auto simp: live_table_def same_map_def)
  have le: "live_entry s' = live_entry s"
    using assms by (intro ext) (simp add: live_entry_def lt same_map_def)
  have "table_slot_ok s' = table_slot_ok s" "ext_slot_ok s' = ext_slot_ok s"
    using assms by (auto simp: table_slot_ok_def ext_slot_ok_def same_map_def fs
        split: table_ptr.splits extentry_ptr.splits)
  then show ?thesis
    using assms by (simp add: pmm_wf_def tables_wf_def exts_wf_def bitmaps_wf_def lt le same_map_def)
qed

lemma frame_state_fields [simp]:
  "frame_state (s\<lparr>metadata := x0\<rparr>) = frame_state s"
  "frame_state (s\<lparr>owners := x1\<rparr>) = frame_state s"
  "frame_state (s\<lparr>free_frames := x2\<rparr>) = frame_state s"
  "frame_state (s\<lparr>total_frames := x3\<rparr>) = frame_state s"
  "frame_state (s\<lparr>preemption_depth := x4\<rparr>) = frame_state s"
  "frame_state (s\<lparr>is_topping_up_alloctbl_pool := x5\<rparr>) = frame_state s"
  "frame_state (s\<lparr>is_topping_up_extentry_pool := x6\<rparr>) = frame_state s"
  "frame_state (s\<lparr>allocation_available := x7\<rparr>) = frame_state s"
  "frame_state (s\<lparr>remarking_unavailable := x8\<rparr>) = frame_state s"
  "frame_state (s\<lparr>metadata_available := x9\<rparr>) = frame_state s"
  "frame_state (s\<lparr>md_mapped := x10\<rparr>) = frame_state s"
  by (rule frame_state_cong; simp)+

lemma pmm_wf_fields [simp]:
  "pmm_wf (s\<lparr>metadata := x0\<rparr>) = pmm_wf s"
  "pmm_wf (s\<lparr>owners := x1\<rparr>) = pmm_wf s"
  "pmm_wf (s\<lparr>free_frames := x2\<rparr>) = pmm_wf s"
  "pmm_wf (s\<lparr>total_frames := x3\<rparr>) = pmm_wf s"
  "pmm_wf (s\<lparr>preemption_depth := x4\<rparr>) = pmm_wf s"
  "pmm_wf (s\<lparr>is_topping_up_alloctbl_pool := x5\<rparr>) = pmm_wf s"
  "pmm_wf (s\<lparr>is_topping_up_extentry_pool := x6\<rparr>) = pmm_wf s"
  "pmm_wf (s\<lparr>allocation_available := x7\<rparr>) = pmm_wf s"
  "pmm_wf (s\<lparr>remarking_unavailable := x8\<rparr>) = pmm_wf s"
  "pmm_wf (s\<lparr>metadata_available := x9\<rparr>) = pmm_wf s"
  "pmm_wf (s\<lparr>md_mapped := x10\<rparr>) = pmm_wf s"
  by (rule same_map_wf; simp add: same_map_def)+

lemma pool_remaining_fields [simp]:
  "get_alloctbl_pool_remaining (s\<lparr>metadata := x0\<rparr>) = get_alloctbl_pool_remaining s"
  "get_extentry_pool_remaining (s\<lparr>metadata := x0\<rparr>) = get_extentry_pool_remaining s"
  "get_alloctbl_pool_remaining (s\<lparr>owners := x1\<rparr>) = get_alloctbl_pool_remaining s"
  "get_extentry_pool_remaining (s\<lparr>owners := x1\<rparr>) = get_extentry_pool_remaining s"
  "get_alloctbl_pool_remaining (s\<lparr>free_frames := x2\<rparr>) = get_alloctbl_pool_remaining s"
  "get_extentry_pool_remaining (s\<lparr>free_frames := x2\<rparr>) = get_extentry_pool_remaining s"
  "get_alloctbl_pool_remaining (s\<lparr>total_frames := x3\<rparr>) = get_alloctbl_pool_remaining s"
  "get_extentry_pool_remaining (s\<lparr>total_frames := x3\<rparr>) = get_extentry_pool_remaining s"
  "get_alloctbl_pool_remaining (s\<lparr>preemption_depth := x4\<rparr>) = get_alloctbl_pool_remaining s"
  "get_extentry_pool_remaining (s\<lparr>preemption_depth := x4\<rparr>) = get_extentry_pool_remaining s"
  "get_alloctbl_pool_remaining (s\<lparr>is_topping_up_alloctbl_pool := x5\<rparr>) = get_alloctbl_pool_remaining s"
  "get_extentry_pool_remaining (s\<lparr>is_topping_up_alloctbl_pool := x5\<rparr>) = get_extentry_pool_remaining s"
  "get_alloctbl_pool_remaining (s\<lparr>is_topping_up_extentry_pool := x6\<rparr>) = get_alloctbl_pool_remaining s"
  "get_extentry_pool_remaining (s\<lparr>is_topping_up_extentry_pool := x6\<rparr>) = get_extentry_pool_remaining s"
  "get_alloctbl_pool_remaining (s\<lparr>allocation_available := x7\<rparr>) = get_alloctbl_pool_remaining s"
  "get_extentry_pool_remaining (s\<lparr>allocation_available := x7\<rparr>) = get_extentry_pool_remaining s"
  "get_alloctbl_pool_remaining (s\<lparr>remarking_unavailable := x8\<rparr>) = get_alloctbl_pool_remaining s"
  "get_extentry_pool_remaining (s\<lparr>remarking_unavailable := x8\<rparr>) = get_extentry_pool_remaining s"
  "get_alloctbl_pool_remaining (s\<lparr>metadata_available := x9\<rparr>) = get_alloctbl_pool_remaining s"
  "get_extentry_pool_remaining (s\<lparr>metadata_available := x9\<rparr>) = get_extentry_pool_remaining s"
  "get_alloctbl_pool_remaining (s\<lparr>md_mapped := x10\<rparr>) = get_alloctbl_pool_remaining s"
  "get_extentry_pool_remaining (s\<lparr>md_mapped := x10\<rparr>) = get_extentry_pool_remaining s"
  "get_alloctbl_pool_remaining (s\<lparr>atpa := x11\<rparr>) = get_alloctbl_pool_remaining s"
  "get_extentry_pool_remaining (s\<lparr>atpa := x11\<rparr>) = get_extentry_pool_remaining s"
  "get_alloctbl_pool_remaining (s\<lparr>tables := x12\<rparr>) = get_alloctbl_pool_remaining s"
  "get_extentry_pool_remaining (s\<lparr>tables := x12\<rparr>) = get_extentry_pool_remaining s"
  "get_alloctbl_pool_remaining (s\<lparr>extentries := x13\<rparr>) = get_alloctbl_pool_remaining s"
  "get_extentry_pool_remaining (s\<lparr>extentries := x13\<rparr>) = get_extentry_pool_remaining s"
  by (simp_all add: get_alloctbl_pool_remaining_def get_extentry_pool_remaining_def)

section \<open>Updates of the map\<close>

text \<open>An update that adds no table and no extended entry to the map keeps the well-formedness.\<close>

definition same_pools :: "pmm \<Rightarrow> pmm \<Rightarrow> bool" where
  "same_pools s s' \<longleftrightarrow>
     early_alloctbl_pool_used_count s' = early_alloctbl_pool_used_count s \<and>
     early_extentry_pool_used_count s' = early_extentry_pool_used_count s \<and>
     dynamic_alloctbl_freelist s' = dynamic_alloctbl_freelist s \<and>
     dynamic_alloctbl_free_count s' = dynamic_alloctbl_free_count s \<and>
     dynamic_extentry_freelist s' = dynamic_extentry_freelist s \<and>
     dynamic_extentry_free_count s' = dynamic_extentry_free_count s"

lemma mgmt_le_shrink:
  assumes pools: "set (dynamic_alloctbl_freelist s') \<subseteq> set (dynamic_alloctbl_freelist s)"
      "set (dynamic_extentry_freelist s') \<subseteq> set (dynamic_extentry_freelist s)"
    and at: "\<And>i t h. i < 4096 \<Longrightarrow> atpa s' i = ATPA_PTR t h \<Longrightarrow> \<exists>h. atpa s i = ATPA_PTR t h"
    and ext: "\<And>i t h e x. i < 4096 \<Longrightarrow> atpa s' i = ATPA_PTR t h \<Longrightarrow> e < 512 \<Longrightarrow> tables s' t e = ENT_EXT x
      \<Longrightarrow> tables s t e = ENT_EXT x"
  shows "mgmt_le s s'"
proof -
  have lt: "live_table s t" if "live_table s' t" for t using that at by (auto simp: live_table_def)
  have "live_entry s t e (ENT_EXT x)" if "live_entry s' t e (ENT_EXT x)" for t e x
    using that lt [of t] ext by (auto simp: live_entry_def live_table_def)
  then show ?thesis using lt pools unfolding mgmt_le_def mgmt_frame_def by blast
qed

lemma mgmt_frame_cong:
  assumes "atpa s' = atpa s" "tables s' = tables s" "dynamic_alloctbl_freelist s' = dynamic_alloctbl_freelist s"
    "dynamic_extentry_freelist s' = dynamic_extentry_freelist s"
  shows "mgmt_frame s' = mgmt_frame s"
  using assms by (intro ext) (simp add: mgmt_frame_def live_entry_def live_table_def)

lemma mgmt_frame_fields [simp]:
  "mgmt_frame (s\<lparr>metadata := x0\<rparr>) = mgmt_frame s"
  "mgmt_frame (s\<lparr>owners := x1\<rparr>) = mgmt_frame s"
  "mgmt_frame (s\<lparr>free_frames := x2\<rparr>) = mgmt_frame s"
  "mgmt_frame (s\<lparr>preemption_depth := x4\<rparr>) = mgmt_frame s"
  "mgmt_frame (s\<lparr>extentries := x5\<rparr>) = mgmt_frame s"
  by (rule mgmt_frame_cong; simp)+

lemma wf_shrink:
  assumes wf: "pmm_wf s" and pools: "same_pools s s'"
    and at: "\<And>i t h. i < 4096 \<Longrightarrow> atpa s' i = ATPA_PTR t h \<Longrightarrow> \<exists>h. atpa s i = ATPA_PTR t h"
    and le: "\<And>t e x. live_entry s' t e (ENT_EXT x) \<Longrightarrow> live_entry s t e (ENT_EXT x)"
    and bm: "\<And>t e b. live_entry s' t e (ENT_BITMAP b) \<Longrightarrow> bmp_wf b"
    and used: "\<And>f. mgmt_frame s f \<Longrightarrow> frame_state s' f = Used"
  shows "pmm_wf s'"
proof -
  have lt: "live_table s t" if "live_table s' t" for t using that at by (auto simp: live_table_def)
  have ts: "table_slot_ok s' t" if "table_slot_ok s t" "live_table s t \<or> t \<in> set (dynamic_alloctbl_freelist s)" for t
    using that used pools by (auto simp: table_slot_ok_def mgmt_frame_def same_pools_def split: table_ptr.splits)
  have xs: "ext_slot_ok s' x" if "ext_slot_ok s x"
    "(\<exists>t e. live_entry s t e (ENT_EXT x)) \<or> x \<in> set (dynamic_extentry_freelist s)" for x
    using that used pools by (fastforce simp: ext_slot_ok_def mgmt_frame_def same_pools_def split: extentry_ptr.splits)
  have "i = j" if "i < 4096" "j < 4096" "atpa s' i = ATPA_PTR t h" "atpa s' j = ATPA_PTR t h'" for i j t h h'
    using that at wf_table_inj [OF wf] by metis
  then have "tables_wf s'"
    using wf ts lt pools unfolding pmm_wf_def tables_wf_def same_pools_def by (simp; meson)
  moreover have "exts_wf s'"
    using wf xs le pools unfolding pmm_wf_def exts_wf_def same_pools_def by (simp; meson)
  moreover have "bitmaps_wf s'" using bm by (auto simp: bitmaps_wf_def)
  ultimately show ?thesis by (simp add: pmm_wf_def)
qed

text \<open>Replacing the entries of a live table.\<close>

lemma entry_state_exts: "extentries s' = extentries s \<Longrightarrow> entry_state s' ent p = entry_state s ent p"
  by (cases ent) auto

lemma frame_state_table_update:
  assumes wf: "pmm_wf s" and i: "i < 4096" "atpa s i = ATPA_PTR t h"
  shows "frame_state (s\<lparr>tables := (tables s)(t := g)\<rparr>) f =
    (if table_of f = i then entry_state s (g (entry_of f)) (page_of f) else frame_state s f)"
proof -
  let ?s = "s\<lparr>tables := (tables s)(t := g)\<rparr>"
  have en: "entry_state ?s ent p = entry_state s ent p" for ent p by (rule entry_state_exts) simp
  show ?thesis
  proof (cases "table_of f = i")
    case True
    then show ?thesis using i en by (simp add: frame_state_def)
  next
    case False
    have "table_state ?s (atpa s (table_of f)) e p = table_state s (atpa s (table_of f)) e p"
      if "table_of f < 4096" for e p
      using wf_table_inj [OF wf that i(1) _ i(2)] False en by (cases "atpa s (table_of f)") auto
    then show ?thesis using False by (simp add: frame_state_def)
  qed
qed

lemma wf_table_update:
  assumes wf: "pmm_wf s" and t: "live_table s t"
    and g: "\<And>e b. e < 512 \<Longrightarrow> g e = ENT_BITMAP b \<Longrightarrow> bmp_wf b"
      "\<And>e x. e < 512 \<Longrightarrow> g e = ENT_EXT x \<Longrightarrow> tables s t e = ENT_EXT x"
    and used: "\<And>f. mgmt_frame s f \<Longrightarrow> frame_state (s\<lparr>tables := (tables s)(t := g)\<rparr>) f = Used"
  shows "pmm_wf (s\<lparr>tables := (tables s)(t := g)\<rparr>)"
proof (rule wf_shrink [OF wf _ _ _ _ used])
  let ?s = "s\<lparr>tables := (tables s)(t := g)\<rparr>"
  have lt: "live_table ?s = live_table s" by (auto simp: live_table_def)
  show "live_entry s t' e (ENT_EXT x)" if "live_entry ?s t' e (ENT_EXT x)" for t' e x
    using that g(2) by (auto simp: live_entry_def lt split: if_splits)
  show "bmp_wf b" if "live_entry ?s t' e (ENT_BITMAP b)" for t' e b
    using that g(1) wf_bitmap [OF wf, of t' e b] by (auto simp: live_entry_def lt split: if_splits)
qed (auto simp: same_pools_def)

text \<open>Replacing the slots of a live extended entry.\<close>

lemma frame_state_ext_update:
  assumes wf: "pmm_wf s" and i: "i < 4096" "atpa s i = ATPA_PTR t h" and j: "j < 512" "tables s t j = ENT_EXT x"
  shows "frame_state (s\<lparr>extentries := (extentries s)(x := g)\<rparr>) f =
    (if table_of f = i \<and> entry_of f = j then slot_state (g (page_of f)) else frame_state s f)"
proof (cases "table_of f < 4096")
  case c: True
  let ?s = "s\<lparr>extentries := (extentries s)(x := g)\<rparr>"
  have l: "live_entry s t j (ENT_EXT x)" using i j by (auto simp: live_entry_def live_tableI)
  show ?thesis
  proof (cases "atpa s (table_of f)")
    case (ATPA_PTR t' h')
    show ?thesis
    proof (cases "tables s t' (entry_of f) = ENT_EXT x")
      case True
      then have "live_entry s t' (entry_of f) (ENT_EXT x)" using ATPA_PTR c by (auto simp: live_entry_def live_tableI)
      then have "t' = t" "entry_of f = j" using wf_ext_inj [OF wf l] by auto
      moreover from this have "table_of f = i" using wf_table_inj [OF wf c i(1)] ATPA_PTR i(2) by auto
      ultimately show ?thesis using c ATPA_PTR True by (simp add: frame_state_def)
    next
      case False
      then have "\<not> (table_of f = i \<and> entry_of f = j)" using ATPA_PTR i j by auto
      moreover have "entry_state ?s (tables s t' (entry_of f)) p = entry_state s (tables s t' (entry_of f)) p" for p
        using False by (cases "tables s t' (entry_of f)") auto
      ultimately show ?thesis using c ATPA_PTR by (auto simp: frame_state_def)
    qed
  qed (use c i in \<open>auto simp: frame_state_def\<close>)
qed (use i in \<open>auto simp: frame_state_def\<close>)

lemma wf_ext_update:
  assumes wf: "pmm_wf s"
    and used: "\<And>f. mgmt_frame s f \<Longrightarrow> frame_state (s\<lparr>extentries := (extentries s)(x := g)\<rparr>) f = Used"
  shows "pmm_wf (s\<lparr>extentries := (extentries s)(x := g)\<rparr>)"
proof (rule wf_shrink [OF wf _ _ _ _ used])
  let ?s = "s\<lparr>extentries := (extentries s)(x := g)\<rparr>"
  have le: "live_entry ?s = live_entry s" by (intro ext) (auto simp: live_entry_def live_table_def)
  show "live_entry s t' e (ENT_EXT x)" if "live_entry ?s t' e (ENT_EXT x)" for t' e x
    using that by (simp add: le)
  show "bmp_wf b" if "live_entry ?s t' e (ENT_BITMAP b)" for t' e b
    using that wf_bitmap [OF wf] by (simp add: le)
qed (auto simp: same_pools_def)

text \<open>Replacing slots of the pointer array.\<close>

lemma frame_state_atpa_update:
  "frame_state (s\<lparr>atpa := a\<rparr>) f =
    (if table_of f < 4096 then table_state s (a (table_of f)) (entry_of f) (page_of f) else Unusable)"
proof -
  have en: "entry_state (s\<lparr>atpa := a\<rparr>) ent p = entry_state s ent p" for ent p by (rule entry_state_exts) simp
  have "table_state (s\<lparr>atpa := a\<rparr>) v e p = table_state s v e p" for v e p by (cases v) (auto simp: en)
  then show ?thesis by (simp add: frame_state_def)
qed

lemma wf_atpa_update:
  assumes wf: "pmm_wf s"
    and a: "\<And>i t h. i < 4096 \<Longrightarrow> a i = ATPA_PTR t h \<Longrightarrow> \<exists>h. atpa s i = ATPA_PTR t h"
    and used: "\<And>f. mgmt_frame s f \<Longrightarrow> frame_state (s\<lparr>atpa := a\<rparr>) f = Used"
  shows "pmm_wf (s\<lparr>atpa := a\<rparr>)"
proof (rule wf_shrink [OF wf _ _ _ _ used])
  let ?s = "s\<lparr>atpa := a\<rparr>"
  have lt: "live_table s t" if "live_table ?s t" for t using that a by (auto simp: live_table_def)
  then have le: "live_entry ?s t e ent \<Longrightarrow> live_entry s t e ent" for t e ent by (auto simp: live_entry_def)
  show "live_entry s t' e (ENT_EXT x)" if "live_entry ?s t' e (ENT_EXT x)" for t' e x
    using that by (rule le)
  show "bmp_wf b" if "live_entry ?s t' e (ENT_BITMAP b)" for t' e b
    using wf_bitmap [OF wf le [OF that]] .
qed (use a in \<open>auto simp: same_pools_def\<close>)

lemma frame_state_hint:
  assumes "atpa s i = ATPA_PTR t h"
  shows "frame_state (s\<lparr>atpa := (atpa s)(i := ATPA_PTR t h')\<rparr>) f = frame_state s f"
  using assms unfolding frame_state_atpa_update frame_state_def [of s] by auto

lemma wf_hint:
  assumes "pmm_wf s" "atpa s i = ATPA_PTR t h"
  shows "pmm_wf (s\<lparr>atpa := (atpa s)(i := ATPA_PTR t h')\<rparr>)"
  by (rule wf_atpa_update [OF assms(1)])
    (use assms in \<open>auto simp: frame_state_hint mgmt_frame_Used split: if_splits\<close>)

lemma hint_clr_frame_state [simp]: "frame_state (atpa_hint_clr i ord s) = frame_state s"
  by (rule ext) (auto simp: atpa_hint_clr_def frame_state_hint split: atpa_entry.splits)

lemma hint_set_frame_state [simp]: "frame_state (atpa_hint_set i ord s) = frame_state s"
  by (rule ext) (auto simp: atpa_hint_set_def frame_state_hint split: atpa_entry.splits)

lemma hint_clr_wf: "pmm_wf s \<Longrightarrow> pmm_wf (atpa_hint_clr i ord s)"
  by (auto simp: atpa_hint_clr_def wf_hint split: atpa_entry.splits)

lemma hint_set_wf: "pmm_wf s \<Longrightarrow> pmm_wf (atpa_hint_set i ord s)"
  by (auto simp: atpa_hint_set_def wf_hint split: atpa_entry.splits)

text \<open>Taking a table from the pools and linking it into a slot that has none.\<close>

definition link_table :: "nat \<Rightarrow> table_ptr \<Rightarrow> alloc_table_entry \<Rightarrow> pmm \<Rightarrow> pmm" where
  "link_table i t ent s =
     s\<lparr>tables := (tables s)(t := (\<lambda>_. ent)),
       atpa := (atpa s)(i := ATPA_PTR t ATPA_ORDER_BMP_MASK)\<rparr>"

definition same_objects :: "pmm \<Rightarrow> pmm \<Rightarrow> bool" where
  "same_objects s s' \<longleftrightarrow> atpa s' = atpa s \<and> tables s' = tables s \<and> extentries s' = extentries s \<and>
     dynamic_extentry_freelist s' = dynamic_extentry_freelist s \<and>
     dynamic_extentry_free_count s' = dynamic_extentry_free_count s \<and>
     early_extentry_pool_used_count s' = early_extentry_pool_used_count s"

lemma take_alloc_table_Some:
  assumes wf: "pmm_wf s" and tk: "take_alloc_table s = Returned (s', Some t)"
  shows "same_objects s s'" "pmm_wf s'" "\<not> live_table s' t" "t \<notin> set (dynamic_alloctbl_freelist s')"
    "table_slot_ok s' t"
proof -
  have objs: "same_objects s s'"
    using tk by (auto simp: take_alloc_table_def pop_dynamic_alloc_table_def same_objects_def
        split: if_splits list.splits)
  then have fs: "frame_state s' = frame_state s" by (intro frame_state_cong) (auto simp: same_objects_def)
  have lt: "live_table s' = live_table s" using objs by (auto simp: live_table_def same_objects_def)
  have le: "live_entry s' = live_entry s" using objs by (intro ext) (simp add: live_entry_def lt same_objects_def)
  have xo: "ext_slot_ok s' = ext_slot_ok s"
    using objs by (intro ext) (auto simp: ext_slot_ok_def fs same_objects_def split: extentry_ptr.splits)
  have ex: "exts_wf s'" "bitmaps_wf s'"
    using wf objs by (auto simp: pmm_wf_def exts_wf_def bitmaps_wf_def le xo same_objects_def)
  have T: "tables_wf s" using wf by (simp add: pmm_wf_def)
  have "tables_wf s' \<and> \<not> live_table s t \<and> t \<notin> set (dynamic_alloctbl_freelist s') \<and> table_slot_ok s' t"
  proof (cases "early_alloctbl_pool_used_count s < EARLY_ALLOC_TABLE_POOL_COUNT")
    case True
    then have s': "s' = s\<lparr>early_alloctbl_pool_used_count := early_alloctbl_pool_used_count s + 1\<rparr>"
      "t = EarlyTable (early_alloctbl_pool_used_count s)"
      using tk by (auto simp: take_alloc_table_def)
    have mono: "table_slot_ok s r \<Longrightarrow> table_slot_ok s' r" for r
      using fs by (auto simp: table_slot_ok_def s' split: table_ptr.splits)
    have no: "\<not> table_slot_ok s t" by (simp add: table_slot_ok_def s')
    show ?thesis
      using T mono no True unfolding tables_wf_def lt
      by (auto simp: s'(1) lt pmm_consts) (auto simp: s'(2) table_slot_ok_def)
  next
    case False
    then obtain rest where fl: "dynamic_alloctbl_freelist s = t # rest"
      and s': "s' = s\<lparr>dynamic_alloctbl_freelist := rest,
         dynamic_alloctbl_free_count := dynamic_alloctbl_free_count s - 1\<rparr>"
      using tk by (auto simp: take_alloc_table_def pop_dynamic_alloc_table_def split: if_splits list.splits)
    have so: "table_slot_ok s' = table_slot_ok s"
      using fs by (intro ext) (auto simp: table_slot_ok_def s' split: table_ptr.splits)
    show ?thesis using T unfolding tables_wf_def lt so by (auto simp: s' fl)
  qed
  then show "same_objects s s'" "pmm_wf s'" "\<not> live_table s' t" "t \<notin> set (dynamic_alloctbl_freelist s')"
    "table_slot_ok s' t"
    using objs ex by (auto simp: pmm_wf_def lt)
qed

lemma link_table_frame_state:
  assumes "\<not> live_table s t" "i < 4096"
    and "atpa s i = ATPA_FREE \<and> ent = ENT_BITMAP ALLOCENT_BMP_FREE \<or> atpa s i = ATPA_UNUSABLE \<and> ent = ENT_EXT_UNUSABLE"
  shows "frame_state (link_table i t ent s) = frame_state s"
proof
  fix f
  let ?s = "link_table i t ent s"
  have en: "entry_state ?s e p = entry_state s e p" for e p
    by (rule entry_state_exts) (simp add: link_table_def)
  show "frame_state ?s f = frame_state s f"
  proof (cases "table_of f = i")
    case True
    then show ?thesis using assms en by (auto simp: frame_state_def link_table_def ALLOCENT_BMP_FREE_def)
  next
    case False
    have "table_state ?s (atpa s (table_of f)) e p = table_state s (atpa s (table_of f)) e p"
      if "table_of f < 4096" for e p
      using assms(1) that en live_tableI [of s "table_of f" t]
      by (cases "atpa s (table_of f)") (auto simp: link_table_def)
    then show ?thesis using False by (simp add: frame_state_def) (simp add: link_table_def)
  qed
qed

lemma link_table_wf:
  assumes wf: "pmm_wf s" and t: "\<not> live_table s t" "t \<notin> set (dynamic_alloctbl_freelist s)" "table_slot_ok s t"
    and i: "i < 4096"
    and a: "atpa s i = ATPA_FREE \<and> ent = ENT_BITMAP ALLOCENT_BMP_FREE \<or> atpa s i = ATPA_UNUSABLE \<and> ent = ENT_EXT_UNUSABLE"
  shows "pmm_wf (link_table i t ent s)"
proof -
  let ?s = "link_table i t ent s"
  have fs: "frame_state ?s = frame_state s" by (rule link_table_frame_state [OF t(1) i a])
  have lt: "live_table ?s r \<longleftrightarrow> r = t \<or> live_table s r" for r
    using i a
    by (auto simp: live_table_def link_table_def split: if_splits) (metis atpa_entry.distinct)+
  have le: "live_entry ?s r e x \<longleftrightarrow> (if r = t then e < 512 \<and> x = ent else live_entry s r e x)" for r e x
    by (auto simp: live_entry_def lt) (auto simp: link_table_def)
  have fields: "early_alloctbl_pool_used_count ?s = early_alloctbl_pool_used_count s"
    "early_extentry_pool_used_count ?s = early_extentry_pool_used_count s"
    by (simp_all add: link_table_def)
  have so: "table_slot_ok ?s = table_slot_ok s" "ext_slot_ok ?s = ext_slot_ok s"
    by (intro ext, simp add: table_slot_ok_def ext_slot_ok_def fs fields
        split: table_ptr.split extentry_ptr.split)+
  have nox: "ent \<noteq> ENT_EXT x" for x using a by auto
  have "j = k" if "j < 4096" "k < 4096" "atpa ?s j = ATPA_PTR r h" "atpa ?s k = ATPA_PTR r h'" for j k r h h'
    using that t(1) wf_table_inj [OF wf, of j k r h h'] live_tableI [of s _ r]
    by (auto simp: link_table_def split: if_splits)
  then have "tables_wf ?s"
    using wf t unfolding pmm_wf_def tables_wf_def lt so by (simp add: link_table_def)
  moreover have "exts_wf ?s"
    using wf nox unfolding pmm_wf_def exts_wf_def le so
    by (auto simp: link_table_def split: if_splits)
  moreover have "bitmaps_wf ?s"
    using wf a encodes_wf [OF encodes_free] unfolding pmm_wf_def bitmaps_wf_def le
    by (auto split: if_splits)
  ultimately show ?thesis by (simp add: pmm_wf_def)
qed

text \<open>The fields outside the map and the pools.\<close>

definition same_rest :: "pmm \<Rightarrow> pmm \<Rightarrow> bool" where
  "same_rest s s' \<longleftrightarrow>
     is_topping_up_alloctbl_pool s' = is_topping_up_alloctbl_pool s \<and>
     is_topping_up_extentry_pool s' = is_topping_up_extentry_pool s \<and>
     total_frames s' = total_frames s \<and> free_frames s' = free_frames s \<and>
     allocation_available s' = allocation_available s \<and>
     remarking_unavailable s' = remarking_unavailable s \<and>
     metadata_available s' = metadata_available s \<and> metadata s' = metadata s \<and>
     md_mapped s' = md_mapped s \<and> owners s' = owners s \<and> preemption_depth s' = preemption_depth s"

text \<open>The pools need no top-up: the map is still being built, or both pools are above their
  watermarks.\<close>

definition ample :: "pmm \<Rightarrow> bool" where
  "ample s \<longleftrightarrow> get_alloctbl_pool_remaining s > ALLOC_TABLE_POOL_LOW_WATERMARK \<and>
     get_extentry_pool_remaining s > EXTENTRY_POOL_LOW_WATERMARK"

definition quiet :: "pmm \<Rightarrow> bool" where
  "quiet s \<longleftrightarrow> \<not> allocation_available s \<or> ample s"

lemma quiet_maybe_topup: "quiet s \<Longrightarrow> maybe_topup_management_pools alloc s = Returned s"
  by (auto simp: quiet_def ample_def maybe_topup_management_pools_def)

lemma take_alloc_table_rest: "take_alloc_table s = Returned (s', t) \<Longrightarrow> same_rest s s'"
  by (auto simp: take_alloc_table_def pop_dynamic_alloc_table_def same_rest_def split: if_splits list.splits)

lemma take_alloc_table_cases:
  assumes "pmm_wf s"
  shows "if get_alloctbl_pool_remaining s = 0 then take_alloc_table s = Returned (s, None)
    else \<exists>s' t. take_alloc_table s = Returned (s', Some t) \<and>
      get_alloctbl_pool_remaining s' = get_alloctbl_pool_remaining s - 1"
  using assms unfolding pmm_wf_def tables_wf_def
  by (cases "dynamic_alloctbl_freelist s")
    (auto simp: take_alloc_table_def get_alloctbl_pool_remaining_def pop_dynamic_alloc_table_def pmm_consts)

text \<open>Creating a table, when the pools need no top-up.\<close>

definition created_entry :: "atpa_entry \<Rightarrow> alloc_table_entry" where
  "created_entry a = (if a \<noteq> ATPA_UNUSABLE then ENT_BITMAP ALLOCENT_BMP_FREE else ENT_EXT_UNUSABLE)"

lemma get_or_create_table_new:
  assumes wf: "pmm_wf s" and q: "quiet s" and i: "i < 4096" and a: "atpa s i = ATPA_FREE \<or> atpa s i = ATPA_UNUSABLE"
  shows "get_or_create_table alloc i s =
    (case take_alloc_table s of
       Returned (s', Some t) \<Rightarrow> Returned (link_table i t (created_entry (atpa s i)) s', Inr t)
     | _ \<Rightarrow> Returned (s, Inl STATUS_INSUFFICIENT_MEMORY))"
proof -
  have "\<not> (get_alloctbl_pool_remaining s = 0 \<and> \<not> is_topping_up_alloctbl_pool s \<and> allocation_available s)"
    using q by (auto simp: quiet_def ample_def pmm_consts)
  then show ?thesis
    using take_alloc_table_cases [OF wf] i a
    by (auto simp: get_or_create_table_def quiet_maybe_topup [OF q] link_table_def created_entry_def
        ALLOC_TABLE_PTR_ARRAY_SIZE_def Let_def split: if_splits)
qed

lemma get_or_create_table_spec:
  assumes wf: "pmm_wf s" and q: "quiet s" and i: "i < 4096" and a: "atpa s i = ATPA_FREE \<or> atpa s i = ATPA_UNUSABLE"
  obtains (none) "get_alloctbl_pool_remaining s = 0"
      "get_or_create_table alloc i s = Returned (s, Inl STATUS_INSUFFICIENT_MEMORY)"
  | (some) s' t where "get_or_create_table alloc i s = Returned (s', Inr t)" "pmm_wf s'"
      "frame_state s' = frame_state s" "same_rest s s'" "atpa s' = (atpa s)(i := ATPA_PTR t ATPA_ORDER_BMP_MASK)"
      "tables s' = (tables s)(t := (\<lambda>_. created_entry (atpa s i)))" "extentries s' = extentries s" "\<not> live_table s t"
      "get_alloctbl_pool_remaining s' = get_alloctbl_pool_remaining s - 1"
      "get_extentry_pool_remaining s' = get_extentry_pool_remaining s" "mgmt_le s s'"
proof (cases "get_alloctbl_pool_remaining s = 0")
  case True
  then show thesis
    using take_alloc_table_cases [OF wf] none by (simp add: get_or_create_table_new [OF wf q i a])
next
  case False
  then obtain s1 t where t: "take_alloc_table s = Returned (s1, Some t)"
    "get_alloctbl_pool_remaining s1 = get_alloctbl_pool_remaining s - 1"
    using take_alloc_table_cases [OF wf] by auto
  note tk = take_alloc_table_Some [OF wf t(1)]
  have at: "atpa s1 = atpa s" using tk(1) by (simp add: same_objects_def)
  let ?s = "link_table i t (created_entry (atpa s i)) s1"
  have a1: "atpa s1 i = ATPA_FREE \<and> created_entry (atpa s i) = ENT_BITMAP ALLOCENT_BMP_FREE \<or>
      atpa s1 i = ATPA_UNUSABLE \<and> created_entry (atpa s i) = ENT_EXT_UNUSABLE"
    using a by (auto simp: at created_entry_def)
  show thesis
  proof (rule some)
    show "get_or_create_table alloc i s = Returned (?s, Inr t)"
      by (simp add: get_or_create_table_new [OF wf q i a] t(1))
    show "pmm_wf ?s" by (rule link_table_wf [OF tk(2-5) i a1])
    have "frame_state s1 = frame_state s" using tk(1) by (intro frame_state_cong) (auto simp: same_objects_def)
    then show "frame_state ?s = frame_state s" using link_table_frame_state [OF tk(3) i a1] by simp
    show "same_rest s ?s" using take_alloc_table_rest [OF t(1)] by (simp add: same_rest_def link_table_def)
    show "\<not> live_table s t" using tk(3) by (simp add: live_table_def at)
    have "get_alloctbl_pool_remaining ?s = get_alloctbl_pool_remaining s1"
      by (simp add: get_alloctbl_pool_remaining_def link_table_def)
    then show "get_alloctbl_pool_remaining ?s = get_alloctbl_pool_remaining s - 1" using t(2) by simp
    show "get_extentry_pool_remaining ?s = get_extentry_pool_remaining s"
      using tk(1) by (simp add: get_extentry_pool_remaining_def link_table_def same_objects_def)
    have tp: "set (dynamic_alloctbl_freelist s1) \<subseteq> set (dynamic_alloctbl_freelist s)"
      "t = DynTable f \<Longrightarrow> t \<in> set (dynamic_alloctbl_freelist s)" for f
      using t(1) by (auto simp: take_alloc_table_def pop_dynamic_alloc_table_def split: if_splits list.splits)
    have lt: "live_table s t'" if "live_table ?s t'" "t' \<noteq> t" for t'
      using that by (auto simp: live_table_def link_table_def at split: if_splits)
    have "created_entry (atpa s i) \<noteq> ENT_EXT x" for x by (simp add: created_entry_def)
    then have "live_entry s t' e (ENT_EXT x)" if "live_entry ?s t' e (ENT_EXT x)" for t' e x
      using that lt [of t'] tk(1) by (auto simp: live_entry_def link_table_def same_objects_def split: if_splits)
    moreover have "live_table s (DynTable f) \<or> DynTable f \<in> set (dynamic_alloctbl_freelist s)" if "live_table ?s (DynTable f)" for f
      using lt [OF that] tp(2) [of f] by blast
    moreover have "set (dynamic_alloctbl_freelist ?s) \<subseteq> set (dynamic_alloctbl_freelist s)"
      "dynamic_extentry_freelist ?s = dynamic_extentry_freelist s"
      using tp(1) tk(1) by (simp_all add: link_table_def same_objects_def)
    ultimately show "mgmt_le s ?s" unfolding mgmt_le_def mgmt_frame_def by (metis subsetD)
  qed (use tk(1) in \<open>simp_all add: link_table_def at same_objects_def\<close>)
qed

text \<open>Taking an extended entry from the pools and linking it into a slot of a live table.\<close>

definition same_tables :: "pmm \<Rightarrow> pmm \<Rightarrow> bool" where
  "same_tables s s' \<longleftrightarrow> atpa s' = atpa s \<and> tables s' = tables s \<and> extentries s' = extentries s \<and>
     dynamic_alloctbl_freelist s' = dynamic_alloctbl_freelist s \<and>
     dynamic_alloctbl_free_count s' = dynamic_alloctbl_free_count s \<and>
     early_alloctbl_pool_used_count s' = early_alloctbl_pool_used_count s"

definition link_ext :: "table_ptr \<Rightarrow> nat \<Rightarrow> extentry_ptr \<Rightarrow> ee_state \<Rightarrow> pmm \<Rightarrow> pmm" where
  "link_ext t j x v s =
     s\<lparr>extentries := (extentries s)(x := (\<lambda>_. v)), tables := (tables s)(t := (tables s t)(j := ENT_EXT x))\<rparr>"

lemma take_extentry_rest: "take_extentry s = (s', x) \<Longrightarrow> same_rest s s'"
  by (auto simp: take_extentry_def pop_dynamic_extentry_def same_rest_def split: if_splits list.splits)

lemma take_extentry_cases:
  assumes "pmm_wf s"
  shows "if get_extentry_pool_remaining s = 0 then take_extentry s = (s, None)
    else \<exists>s' x. take_extentry s = (s', Some x) \<and>
      get_extentry_pool_remaining s' = get_extentry_pool_remaining s - 1"
  using assms unfolding pmm_wf_def exts_wf_def
  by (cases "dynamic_extentry_freelist s")
    (auto simp: take_extentry_def get_extentry_pool_remaining_def pop_dynamic_extentry_def pmm_consts)

lemma take_extentry_Some:
  assumes wf: "pmm_wf s" and tk: "take_extentry s = (s', Some x)"
  shows "same_tables s s'" "pmm_wf s'" "\<not> live_entry s' t e (ENT_EXT x)" "x \<notin> set (dynamic_extentry_freelist s')"
    "ext_slot_ok s' x"
proof -
  have objs: "same_tables s s'"
    using tk by (auto simp: take_extentry_def pop_dynamic_extentry_def same_tables_def
        split: if_splits list.splits)
  then have fs: "frame_state s' = frame_state s" by (intro frame_state_cong) (auto simp: same_tables_def)
  have lt: "live_table s' = live_table s" using objs by (auto simp: live_table_def same_tables_def)
  have le: "live_entry s' = live_entry s" using objs by (intro ext) (simp add: live_entry_def lt same_tables_def)
  have to: "table_slot_ok s' = table_slot_ok s"
    using objs by (intro ext) (auto simp: table_slot_ok_def fs same_tables_def split: table_ptr.splits)
  have tw: "tables_wf s'" "bitmaps_wf s'"
    using wf objs by (auto simp: pmm_wf_def tables_wf_def bitmaps_wf_def lt le to same_tables_def)
  have X: "exts_wf s" using wf by (simp add: pmm_wf_def)
  have "exts_wf s' \<and> \<not> live_entry s t e (ENT_EXT x) \<and> x \<notin> set (dynamic_extentry_freelist s') \<and> ext_slot_ok s' x"
  proof (cases "early_extentry_pool_used_count s < EARLY_EXTENDED_ENTRY_POOL_COUNT")
    case True
    then have s': "s' = s\<lparr>early_extentry_pool_used_count := early_extentry_pool_used_count s + 1\<rparr>"
      "x = EarlyExt (early_extentry_pool_used_count s)"
      using tk by (auto simp: take_extentry_def)
    have mono: "ext_slot_ok s r \<Longrightarrow> ext_slot_ok s' r" for r
      using fs by (auto simp: ext_slot_ok_def s' split: extentry_ptr.splits)
    have no: "\<not> ext_slot_ok s x" by (simp add: ext_slot_ok_def s')
    have nl: "\<not> live_entry s t e (ENT_EXT x)" "x \<notin> set (dynamic_extentry_freelist s)"
      using X no unfolding exts_wf_def by blast+
    have "exts_wf s'" using X mono True unfolding exts_wf_def le by (simp add: s'(1) pmm_consts; meson)
    then show ?thesis using nl by (auto simp: s'(1)) (simp add: s' ext_slot_ok_def)
  next
    case False
    then obtain rest where fl: "dynamic_extentry_freelist s = x # rest"
      and s': "s' = s\<lparr>dynamic_extentry_freelist := rest,
         dynamic_extentry_free_count := dynamic_extentry_free_count s - 1\<rparr>"
      using tk by (auto simp: take_extentry_def pop_dynamic_extentry_def split: if_splits list.splits)
    have so: "ext_slot_ok s' = ext_slot_ok s"
      using fs by (intro ext) (auto simp: ext_slot_ok_def s' split: extentry_ptr.splits)
    have "\<not> live_entry s t e (ENT_EXT x)" using X fl unfolding exts_wf_def by (metis list.set_intros(1))
    moreover have "exts_wf s'" using X unfolding exts_wf_def le so by (simp add: s' fl; meson)
    ultimately show ?thesis using X unfolding exts_wf_def so by (simp add: s' fl)
  qed
  then show "same_tables s s'" "pmm_wf s'" "\<not> live_entry s' t e (ENT_EXT x)"
    "x \<notin> set (dynamic_extentry_freelist s')" "ext_slot_ok s' x"
    using objs tw by (auto simp: pmm_wf_def le)
qed

lemma link_ext_frame_state:
  assumes wf: "pmm_wf s" and i: "i < 4096" "atpa s i = ATPA_PTR t h" and j: "j < 512"
    and x: "\<And>t e. \<not> live_entry s t e (ENT_EXT x)"
  shows "frame_state (link_ext t j x v s) f =
    (if table_of f = i \<and> entry_of f = j then slot_state v else frame_state s f)"
proof -
  let ?s = "link_ext t j x v s"
  let ?g = "(tables s t)(j := ENT_EXT x)"
  have en: "entry_state ?s ent p = entry_state s ent p" if "ent \<noteq> ENT_EXT x" for ent p
    using that by (cases ent) (auto simp: link_ext_def)
  show ?thesis
  proof (cases "table_of f = i \<and> entry_of f = j")
    case True
    then show ?thesis using i by (simp add: frame_state_def link_ext_def)
  next
    case False
    have "table_state ?s (atpa s (table_of f)) (entry_of f) p = table_state s (atpa s (table_of f)) (entry_of f) p"
      if "table_of f < 4096" for p
    proof (cases "atpa s (table_of f)")
      case (ATPA_PTR t' h')
      then have "live_table s t'" using that by (rule live_tableI)
      then have "tables s t' (entry_of f) \<noteq> ENT_EXT x" using x [of t' "entry_of f"] by (auto simp: live_entry_def)
      moreover have "tables ?s t' (entry_of f) = tables s t' (entry_of f)"
        using False wf_table_inj [OF wf that i(1) _ i(2)] ATPA_PTR by (auto simp: link_ext_def)
      ultimately show ?thesis using ATPA_PTR en by simp
    qed (auto)
    then show ?thesis using False by (auto simp: frame_state_def) (auto simp: link_ext_def)
  qed
qed

lemma link_ext_wf:
  assumes wf: "pmm_wf s" and t: "live_table s t" and j: "j < 512"
    and x: "\<And>t e. \<not> live_entry s t e (ENT_EXT x)" "x \<notin> set (dynamic_extentry_freelist s)" "ext_slot_ok s x"
    and used: "\<And>f. mgmt_frame s f \<or> (\<exists>k. x = DynExt f k) \<Longrightarrow> frame_state (link_ext t j x v s) f = Used"
  shows "pmm_wf (link_ext t j x v s)"
proof -
  let ?s = "link_ext t j x v s"
  have lt: "live_table ?s = live_table s" by (auto simp: live_table_def link_ext_def)
  have le: "live_entry ?s r e ent \<longleftrightarrow> (if r = t \<and> e = j then ent = ENT_EXT x else live_entry s r e ent)" for r e ent
    using t j by (auto simp: live_entry_def lt) (auto simp: link_ext_def)
  have ts: "table_slot_ok ?s r" if "table_slot_ok s r" "live_table s r \<or> r \<in> set (dynamic_alloctbl_freelist s)" for r
    using that used by (auto simp: table_slot_ok_def mgmt_frame_def split: table_ptr.splits)
      (auto simp: link_ext_def)
  have xs: "ext_slot_ok ?s r" if "ext_slot_ok s r"
    "(\<exists>t e. live_entry s t e (ENT_EXT r)) \<or> r \<in> set (dynamic_extentry_freelist s) \<or> r = x" for r
    using that used by (fastforce simp: ext_slot_ok_def mgmt_frame_def link_ext_def split: extentry_ptr.splits)
  have "tables_wf ?s"
    using wf ts unfolding pmm_wf_def tables_wf_def lt by (simp add: link_ext_def)
  moreover have "exts_wf ?s"
  proof -
    have fields: "dynamic_extentry_freelist ?s = dynamic_extentry_freelist s"
      "dynamic_extentry_free_count ?s = dynamic_extentry_free_count s"
      "early_extentry_pool_used_count ?s = early_extentry_pool_used_count s"
      by (simp_all add: link_ext_def)
    have X: "exts_wf s" using wf by (simp add: pmm_wf_def)
    have xl: "ext_slot_ok ?s r" if "live_entry s t' e' (ENT_EXT r)" for t' e' r
      using xs [of r] X that unfolding exts_wf_def by blast
    show ?thesis using X xs x xl unfolding exts_wf_def le fields by (auto split: if_splits)
  qed
  moreover have "bitmaps_wf ?s"
    using wf unfolding pmm_wf_def bitmaps_wf_def le by (auto split: if_splits)
  ultimately show ?thesis by (simp add: pmm_wf_def)
qed

text \<open>Creating an extended entry for an entry that is all free or all unusable, when the pools need
  no top-up.\<close>

definition created_slot :: "alloc_table_entry \<Rightarrow> ee_state" where
  "created_slot ent = (if ent = ENT_EXT_UNUSABLE then EE_UNUSABLE else EE_FREE)"

lemma get_or_create_extentry_spec:
  assumes wf: "pmm_wf s" and q: "quiet s" and i: "i < 4096" "atpa s i = ATPA_PTR t h" and j: "j < 512"
    and old: "tables s t j = ENT_BITMAP ALLOCENT_BMP_FREE \<or> tables s t j = ENT_EXT_UNUSABLE"
  obtains (none) "get_extentry_pool_remaining s = 0"
      "get_or_create_extentry alloc t j s = Returned (s, Inl STATUS_INSUFFICIENT_MEMORY)"
  | (some) s' x where "get_or_create_extentry alloc t j s = Returned (s', Inr x)" "pmm_wf s'"
      "frame_state s' = frame_state s" "same_rest s s'" "atpa s' = atpa s"
      "tables s' = (tables s)(t := (tables s t)(j := ENT_EXT x))"
      "get_alloctbl_pool_remaining s' = get_alloctbl_pool_remaining s"
      "get_extentry_pool_remaining s' = get_extentry_pool_remaining s - 1"
      "extentries s' = (extentries s)(x := (\<lambda>_. created_slot (tables s t j)))"
      "\<And>t e. \<not> live_entry s t e (ENT_EXT x)"
proof -
  have lt: "live_table s t" using i by (simp add: live_tableI)
  have nw: "t \<noteq> WildTable" using wf_not_wild [OF wf lt] .
  have nt: "\<not> (get_extentry_pool_remaining s = 0 \<and> \<not> is_topping_up_extentry_pool s \<and> allocation_available s)"
    using q by (auto simp: quiet_def ample_def pmm_consts)
  show thesis
  proof (cases "get_extentry_pool_remaining s = 0")
    case True
    then have "get_or_create_extentry alloc t j s = Returned (s, Inl STATUS_INSUFFICIENT_MEMORY)"
      using take_extentry_cases [OF wf] nt nw j old
      by (auto simp: get_or_create_extentry_def quiet_maybe_topup [OF q] ALLOC_TABLE_ENTRY_COUNT_def Let_def)
    then show thesis using none True by simp
  next
    case False
    then obtain s1 x where x: "take_extentry s = (s1, Some x)"
      "get_extentry_pool_remaining s1 = get_extentry_pool_remaining s - 1"
      using take_extentry_cases [OF wf] by auto
    note tk = take_extentry_Some [OF wf x(1)]
    have same: "atpa s1 = atpa s" "tables s1 = tables s" "extentries s1 = extentries s"
      using tk(1) by (auto simp: same_tables_def)
    have fs1: "frame_state s1 = frame_state s" using same by (intro frame_state_cong) auto
    let ?v = "created_slot (tables s t j)"
    let ?s = "link_ext t j x ?v s1"
    have fs: "frame_state ?s = frame_state s"
    proof
      fix f
      have "table_of f = i \<and> entry_of f = j \<Longrightarrow> frame_state s f = slot_state ?v"
        using old i by (auto simp: frame_state_def created_slot_def ALLOCENT_BMP_FREE_def)
      then show "frame_state ?s f = frame_state s f"
        using link_ext_frame_state [OF tk(2) i(1) _ j tk(3), of t h ?v f] i(2) same fs1 by auto
    qed
    show thesis
    proof (rule some)
      show "get_or_create_extentry alloc t j s = Returned (?s, Inr x)"
        using nt nw j old x False
        by (auto simp: get_or_create_extentry_def quiet_maybe_topup [OF q] ALLOC_TABLE_ENTRY_COUNT_def Let_def
            link_ext_def created_slot_def)
      have used: "frame_state ?s f = Used" if "mgmt_frame s1 f \<or> (\<exists>k. x = DynExt f k)" for f
        using that mgmt_frame_Used [OF tk(2), of f] tk(5) by (auto simp: fs fs1 ext_slot_ok_def)
      have "live_table s1 t" using lt by (simp add: live_table_def same)
      then show "pmm_wf ?s" by (rule link_ext_wf [OF tk(2) _ j tk(3-5) used])
      show "frame_state ?s = frame_state s" by (rule fs)
      show "same_rest s ?s" using take_extentry_rest [OF x(1)] by (simp add: same_rest_def link_ext_def)
      have "get_extentry_pool_remaining ?s = get_extentry_pool_remaining s1"
        by (simp add: get_extentry_pool_remaining_def link_ext_def)
      then show "get_extentry_pool_remaining ?s = get_extentry_pool_remaining s - 1" using x(2) by simp
      show "get_alloctbl_pool_remaining ?s = get_alloctbl_pool_remaining s"
        using tk(1) by (simp add: get_alloctbl_pool_remaining_def link_ext_def same_tables_def)
      show "\<And>t e. \<not> live_entry s t e (ENT_EXT x)"
        using tk(3) by (simp add: live_entry_def live_table_def same)
    qed (simp_all add: link_ext_def same)
  qed
qed

text \<open>Returning objects to the pools.\<close>

lemma push_table_wf:
  assumes wf: "pmm_wf s" and t: "\<not> live_table s t" "t \<notin> set (dynamic_alloctbl_freelist s)" "table_slot_ok s t"
  shows "pmm_wf (push_dynamic_alloc_table t s)"
proof -
  let ?s = "push_dynamic_alloc_table t s"
  have fs: "frame_state ?s = frame_state s" by (rule frame_state_cong) (simp_all add: push_dynamic_alloc_table_def)
  have lt: "live_table ?s = live_table s" by (auto simp: live_table_def push_dynamic_alloc_table_def)
  have le: "live_entry ?s = live_entry s"
    by (intro ext) (simp add: live_entry_def lt, simp add: push_dynamic_alloc_table_def)
  have fields: "early_alloctbl_pool_used_count ?s = early_alloctbl_pool_used_count s"
    "early_extentry_pool_used_count ?s = early_extentry_pool_used_count s"
    by (simp_all add: push_dynamic_alloc_table_def)
  have so: "table_slot_ok ?s = table_slot_ok s" "ext_slot_ok ?s = ext_slot_ok s"
    by (intro ext, simp add: table_slot_ok_def ext_slot_ok_def fs fields
        split: table_ptr.split extentry_ptr.split)+
  show ?thesis
    using wf t unfolding pmm_wf_def tables_wf_def exts_wf_def bitmaps_wf_def lt le so
    by (auto simp: push_dynamic_alloc_table_def)
qed

lemma push_extentry_wf:
  assumes wf: "pmm_wf s" and x: "\<And>t e. \<not> live_entry s t e (ENT_EXT x)" "x \<notin> set (dynamic_extentry_freelist s)" "ext_slot_ok s x"
  shows "pmm_wf (push_dynamic_extentry x s)"
proof -
  let ?s = "push_dynamic_extentry x s"
  have fs: "frame_state ?s = frame_state s" by (rule frame_state_cong) (simp_all add: push_dynamic_extentry_def)
  have lt: "live_table ?s = live_table s" by (auto simp: live_table_def push_dynamic_extentry_def)
  have le: "live_entry ?s = live_entry s"
    by (intro ext) (simp add: live_entry_def lt, simp add: push_dynamic_extentry_def)
  have fields: "early_alloctbl_pool_used_count ?s = early_alloctbl_pool_used_count s"
    "early_extentry_pool_used_count ?s = early_extentry_pool_used_count s"
    by (simp_all add: push_dynamic_extentry_def)
  have so: "table_slot_ok ?s = table_slot_ok s" "ext_slot_ok ?s = ext_slot_ok s"
    by (intro ext, simp add: table_slot_ok_def ext_slot_ok_def fs fields
        split: table_ptr.split extentry_ptr.split)+
  have X: "exts_wf s" using wf by (simp add: pmm_wf_def)
  have "exts_wf ?s" using X x unfolding exts_wf_def le so by (simp add: push_dynamic_extentry_def) metis
  then show ?thesis
    using wf unfolding pmm_wf_def tables_wf_def bitmaps_wf_def lt le so
    by (auto simp: push_dynamic_extentry_def)
qed

text \<open>Dropping a table all of whose entries are free.\<close>

lemma drop_table_frame_state:
  assumes "atpa s i = ATPA_PTR t h" "\<And>e. e < 512 \<Longrightarrow> tables s t e = ENT_BITMAP ALLOCENT_BMP_FREE"
  shows "frame_state (s\<lparr>atpa := (atpa s)(i := ATPA_FREE)\<rparr>) = frame_state s"
  using assms unfolding frame_state_atpa_update frame_state_def [of s] fun_eq_iff
  by (auto simp: ALLOCENT_BMP_FREE_def)

lemma drop_table_wf:
  assumes wf: "pmm_wf s" and "atpa s i = ATPA_PTR t h" "\<And>e. e < 512 \<Longrightarrow> tables s t e = ENT_BITMAP ALLOCENT_BMP_FREE"
  shows "pmm_wf (s\<lparr>atpa := (atpa s)(i := ATPA_FREE)\<rparr>)"
  by (rule wf_atpa_update [OF wf])
    (use drop_table_frame_state [OF assms(2,3)] mgmt_frame_Used [OF wf] in \<open>auto split: if_splits\<close>)

section \<open>Counting\<close>

lemma counts_remove:
  assumes "counts_ok s" "free_set s' = free_set s - B" "B \<subseteq> free_set s" "card B = 2 ^ order"
    and "free_frames s' = free_frames s - push_bit order 1"
  shows "counts_ok s'"
proof -
  have "finite B" using assms(3) by (rule finite_subset) simp
  then have "card (free_set s') = card (free_set s) - 2 ^ order" "2 ^ order \<le> card (free_set s)"
    using assms(2-4) card_Diff_subset [of B "free_set s"] card_mono [of "free_set s" B] by auto
  then show ?thesis using assms(1,5) by (simp add: counts_ok_def of_nat_diff push_bit_eq_mult)
qed

lemma counts_add:
  assumes "counts_ok s" "free_set s' = free_set s \<union> B" "B \<inter> free_set s = {}" "card B = 2 ^ order"
    and "free_frames s' = free_frames s + push_bit order 1"
  shows "counts_ok s'"
proof -
  have "finite B" using assms(4) card_ge_0_finite by force
  then have "card (free_set s') = card (free_set s) + 2 ^ order"
    using assms(2-4) card_Un_disjoint [of "free_set s" B] by (simp add: Int_commute)
  then show ?thesis using assms(1,5) by (simp add: counts_ok_def push_bit_eq_mult)
qed

end
