(* ===== verification/Pmm_Alloc.thy ===== *)
theory Pmm_Alloc
  imports Pmm_Frames
begin

text \<open>
  \<^verbatim>\<open>StPmm_AllocateContiguousFrame\<close> of \<^verbatim>\<open>strata/mm/pmm.c\<close>: the request's parameters, the three
  searches (huge: whole tables, normal: whole entries, small: frames of one entry) and the
  function itself. The function calls itself through the pool top-up; its fuel is the
  nesting depth.
\<close>

section \<open>Request parameters\<close>

definition AF_PMM_BELOW_MASK :: uint32_t where "AF_PMM_BELOW_MASK = 0x00000007"
definition AF_PMM_BELOW_NONE :: uint32_t where "AF_PMM_BELOW_NONE = 0x00000000"
definition AF_PMM_BELOW_1M :: uint32_t where "AF_PMM_BELOW_1M = 0x00000001"
definition AF_PMM_BELOW_16M :: uint32_t where "AF_PMM_BELOW_16M = 0x00000002"
definition AF_PMM_BELOW_4G :: uint32_t where "AF_PMM_BELOW_4G = 0x00000003"
definition AF_ALIGN_MASK :: uint32_t where "AF_ALIGN_MASK = 0x000003F0"

lemmas af_defs = AF_PMM_BELOW_MASK_def AF_PMM_BELOW_NONE_def AF_PMM_BELOW_1M_def
  AF_PMM_BELOW_16M_def AF_PMM_BELOW_4G_def AF_ALIGN_MASK_def AF_DEFAULT_def

definition ALIGN_DIV :: "nat \<Rightarrow> nat \<Rightarrow> nat" where "ALIGN_DIV v a = (v + a - 1) div a"

definition ATPA_INDEX_LIMIT_4G :: nat where
  "ATPA_INDEX_LIMIT_4G = ALIGN_DIV (2 ^ 32) (PAGE_SIZE * ALLOC_TABLE_COVERAGE_PAGES)"
definition ATPA_INDEX_LIMIT_16M :: nat where
  "ATPA_INDEX_LIMIT_16M = ALIGN_DIV (2 ^ 24) (PAGE_SIZE * ALLOC_TABLE_COVERAGE_PAGES)"
definition ATPA_INDEX_LIMIT_1M :: nat where
  "ATPA_INDEX_LIMIT_1M = ALIGN_DIV (2 ^ 20) (PAGE_SIZE * ALLOC_TABLE_COVERAGE_PAGES)"
definition ALLOC_TABLE_ENTRY_INDEX_LIMIT_16M :: nat where
  "ALLOC_TABLE_ENTRY_INDEX_LIMIT_16M = ALIGN_DIV (2 ^ 24) (PAGE_SIZE * ALLOCENT_COVERAGE_PAGES)"
definition ALLOC_TABLE_ENTRY_INDEX_LIMIT_1M :: nat where
  "ALLOC_TABLE_ENTRY_INDEX_LIMIT_1M = ALIGN_DIV (2 ^ 20) (PAGE_SIZE * ALLOCENT_COVERAGE_PAGES)"

text \<open>\<^verbatim>\<open>(int)(((alloc_flags & AF_ALIGN_MASK) >> 4) - 12)\<close>, raised to the order.\<close>

definition request_align_order :: "uint32_t \<Rightarrow> int \<Rightarrow> int" where
  "request_align_order alloc_flags order =
     (let align_order = int (unat (drop_bit 4 (alloc_flags AND AF_ALIGN_MASK))) - 12
      in if align_order < order then order else align_order)"

text \<open>The exclusive start of the table search by the address limit of the request.\<close>

definition atpa_search_limit :: "uint32_t \<Rightarrow> int \<Rightarrow> StStatus + int" where
  "atpa_search_limit below_value order =
     (let start = int ALLOC_TABLE_PTR_ARRAY_SIZE in
      if below_value = AF_PMM_BELOW_NONE then Inr start
      else if below_value = AF_PMM_BELOW_1M then
        (if order > 8 then Inl STATUS_INSUFFICIENT_MEMORY
         else if start > int ATPA_INDEX_LIMIT_1M then Inr (int ATPA_INDEX_LIMIT_1M)
         else Inr start)
      else if below_value = AF_PMM_BELOW_16M then
        (if order > 12 then Inl STATUS_INSUFFICIENT_MEMORY
         else if start > int ATPA_INDEX_LIMIT_16M then Inr (int ATPA_INDEX_LIMIT_16M)
         else Inr start)
      else if below_value = AF_PMM_BELOW_4G then
        (if order > 20 then Inl STATUS_INSUFFICIENT_MEMORY
         else if start > int ATPA_INDEX_LIMIT_4G then Inr (int ATPA_INDEX_LIMIT_4G)
         else Inr start)
      else Inl STATUS_INVALID_VALUE)"

definition atpa_align_jump :: "nat \<Rightarrow> nat" where
  "atpa_align_jump align_order = (if align_order > 13 then 2 ^ (align_order - 13) else 1)"

definition table_align_jump :: "nat \<Rightarrow> nat" where
  "table_align_jump align_order = (if align_order > 5 then 2 ^ (align_order - 5) else 1)"

definition extentry_align_jump :: "nat \<Rightarrow> nat" where
  "extentry_align_jump align_order = (if align_order > 12 then 2 ^ (align_order - 12) else 1)"

definition round_start :: "int \<Rightarrow> nat \<Rightarrow> int" where
  "round_start start jump = ((start - 1) div int jump) * int jump"

text \<open>The start of the entry search: rounded to the alignment, then cut to the address limit.\<close>

definition table_search_start :: "uint32_t \<Rightarrow> int \<Rightarrow> nat \<Rightarrow> StStatus + int" where
  "table_search_start below_value order jump =
     (let start = round_start (int ALLOC_TABLE_ENTRY_COUNT) jump in
      if below_value = AF_PMM_BELOW_1M then
        (if order > 8 then Inl STATUS_INSUFFICIENT_MEMORY
         else if start > int ALLOC_TABLE_ENTRY_INDEX_LIMIT_1M
              then Inr (int ALLOC_TABLE_ENTRY_INDEX_LIMIT_1M) else Inr start)
      else if below_value = AF_PMM_BELOW_16M then
        (if order > 12 then Inl STATUS_INSUFFICIENT_MEMORY
         else if start > int ALLOC_TABLE_ENTRY_INDEX_LIMIT_16M
              then Inr (int ALLOC_TABLE_ENTRY_INDEX_LIMIT_16M) else Inr start)
      else Inr start)"

section \<open>The three searches\<close>

text \<open>The common end of a successful search: metadata, \<^verbatim>\<open>*pfn\<close> and the frame count.\<close>

definition finish_allocation ::
  "nat \<Rightarrow> nat option \<Rightarrow> nat \<Rightarrow> nat \<Rightarrow> pmm \<Rightarrow> (pmm \<times> StStatus \<times> nat) outcome" where
  "finish_allocation allocated_pfn owner order pfn s =
     obind (create_metadata allocated_pfn owner order s) (\<lambda>(s, status).
       if \<not> CHECK_SUCCESS status then Returned (s, status, pfn)
       else Returned (s\<lparr>free_frames := free_frames s - push_bit order 1\<rparr>,
                      STATUS_SUCCESS, allocated_pfn))"

text \<open>Huge: a run of free tables.\<close>

definition huge_allocatable :: "pmm \<Rightarrow> nat \<Rightarrow> nat \<Rightarrow> bool" where
  "huge_allocatable s atpa_slots_needed i \<longleftrightarrow>
     i + atpa_slots_needed \<le> ALLOC_TABLE_PTR_ARRAY_SIZE \<and> atpa s i = ATPA_FREE \<and>
     list_all (\<lambda>j. atpa s (i + j) = ATPA_FREE) [1..<atpa_slots_needed]"

definition allocate_huge ::
  "nat option \<Rightarrow> nat \<Rightarrow> int \<Rightarrow> nat \<Rightarrow> nat \<Rightarrow> pmm \<Rightarrow> (pmm \<times> StStatus \<times> nat) outcome" where
  "allocate_huge owner order atpa_start atpa_jump pfn s =
     (let atpa_slots_needed = 2 ^ (order - 14) in
      if atpa_slots_needed > ALLOC_TABLE_PTR_ARRAY_SIZE
      then Returned (s, STATUS_INSUFFICIENT_MEMORY, pfn)
      else case find (huge_allocatable s atpa_slots_needed) (for_down atpa_start atpa_jump) of
        None \<Rightarrow> Returned (s, STATUS_INSUFFICIENT_MEMORY, pfn)
      | Some i \<Rightarrow>
          finish_allocation (i * ALLOC_TABLE_COVERAGE_PAGES) owner order pfn
            (s\<lparr>atpa := fill_range (atpa s) i atpa_slots_needed ATPA_HUGE_ALLOC\<rparr>))"

text \<open>Normal: a run of free entries of one table.\<close>

definition entries_allocatable :: "pmm \<Rightarrow> table_ptr \<Rightarrow> nat \<Rightarrow> nat \<Rightarrow> bool" where
  "entries_allocatable s t table_entries_needed j \<longleftrightarrow>
     j + table_entries_needed \<le> ALLOC_TABLE_ENTRY_COUNT \<and>
     tables s t j = ENT_BITMAP ALLOCENT_BMP_FREE \<and>
     list_all (\<lambda>k. tables s t (j + k) = ENT_BITMAP ALLOCENT_BMP_FREE) [0..<table_entries_needed]"

definition claim_entries :: "table_ptr \<Rightarrow> nat \<Rightarrow> nat \<Rightarrow> pmm \<Rightarrow> pmm" where
  "claim_entries t start n s =
     s\<lparr>tables := (tables s)(t := fill_range (tables s t) start n
                                 (ENT_BITMAP ALLOCENT_BMP_FULL_ALLOC))\<rparr>"

text \<open>The start of the entry search of a normal request, cut so that the run fits.\<close>

definition normal_table_search_start :: "int \<Rightarrow> nat \<Rightarrow> nat \<Rightarrow> int" where
  "normal_table_search_start start table_entries_needed jump =
     (if start > int (ALLOC_TABLE_ENTRY_COUNT - table_entries_needed)
      then (int (ALLOC_TABLE_ENTRY_COUNT - table_entries_needed) div int jump) * int jump
      else start)"

fun allocate_normal_loop ::
  "allocator \<Rightarrow> nat option \<Rightarrow> nat \<Rightarrow> int \<Rightarrow> nat \<Rightarrow> nat \<Rightarrow> nat list \<Rightarrow> pmm
     \<Rightarrow> (pmm \<times> StStatus \<times> nat) outcome" where
  "allocate_normal_loop alloc owner order start jump pfn [] s =
     Returned (s, STATUS_INSUFFICIENT_MEMORY, pfn)"
| "allocate_normal_loop alloc owner order start jump pfn (i # is) s =
     (let n = 2 ^ (order - 5) in
      case atpa s i of
        ATPA_FREE \<Rightarrow>
          if start < 0 then allocate_normal_loop alloc owner order start jump pfn is s
          else if nat start + n > ALLOC_TABLE_ENTRY_COUNT
          then allocate_normal_loop alloc owner order start jump pfn is s
          else obind (get_or_create_table alloc i s) (\<lambda>(s, r). case r of
              Inl status \<Rightarrow> Returned (s, status, pfn)
            | Inr t \<Rightarrow>
                if t = WildTable then Undefined
                else finish_allocation
                       (i * ALLOC_TABLE_COVERAGE_PAGES + nat start * ALLOCENT_COVERAGE_PAGES)
                       owner order pfn (claim_entries t (nat start) n s))
      | ATPA_HUGE_ALLOC \<Rightarrow> allocate_normal_loop alloc owner order start jump pfn is s
      | ATPA_UNUSABLE \<Rightarrow> allocate_normal_loop alloc owner order start jump pfn is s
      | ATPA_PTR t b \<Rightarrow>
          if \<not> ATPA_ORDER_BMP_GET b order
          then allocate_normal_loop alloc owner order start jump pfn is s
          else if t = WildTable then Undefined
          else case find (entries_allocatable s t n) (for_down start jump) of
              Some j \<Rightarrow>
                finish_allocation
                  (i * ALLOC_TABLE_COVERAGE_PAGES + j * ALLOCENT_COVERAGE_PAGES)
                  owner order pfn (claim_entries t j n s)
            | None \<Rightarrow>
                allocate_normal_loop alloc owner order start jump pfn is (atpa_hint_clr i order s))"

text \<open>Small: frames of one entry, in a bitmap or an extended entry. The extended entry's slots are
  searched from the top.\<close>

definition ext_allocatable :: "pmm \<Rightarrow> extentry_ptr \<Rightarrow> nat \<Rightarrow> nat \<Rightarrow> bool" where
  "ext_allocatable s e extentry_slots_needed k \<longleftrightarrow>
     \<not> (k \<ge> PAGES_PER_ALLOCTABLE_ENTRY \<or> k + extentry_slots_needed > PAGES_PER_ALLOCTABLE_ENTRY) \<and>
     extentries s e k = EE_FREE \<and>
     list_all (\<lambda>idx. extentries s e idx = EE_FREE) [k..<k + extentry_slots_needed]"

definition small_index :: "pmm \<Rightarrow> table_ptr \<Rightarrow> nat \<Rightarrow> nat \<Rightarrow> nat \<Rightarrow> nat option" where
  "small_index s t align_order order j =
     (case tables s t j of
        ENT_EXT_UNUSABLE \<Rightarrow> None
      | ENT_EXT e \<Rightarrow>
          (let jump = extentry_align_jump align_order in
           find (ext_allocatable s e (2 ^ order))
             (for_down (round_start (int PAGES_PER_ALLOCTABLE_ENTRY) jump) jump))
      | ENT_BITMAP b \<Rightarrow> find_free_frame_idx_bitmap_entry b (int align_order))"

fun small_search ::
  "pmm \<Rightarrow> table_ptr \<Rightarrow> nat \<Rightarrow> nat \<Rightarrow> nat list \<Rightarrow> (nat \<times> nat) option" where
  "small_search s t align_order order [] = None"
| "small_search s t align_order order (j # js) =
     (case small_index s t align_order order j of
        None \<Rightarrow> small_search s t align_order order js
      | Some index \<Rightarrow> Some (j, index))"

definition claim_slots :: "table_ptr \<Rightarrow> nat \<Rightarrow> nat \<Rightarrow> nat \<Rightarrow> pmm \<Rightarrow> StStatus + pmm" where
  "claim_slots t j index order s =
     (case tables s t j of
        ENT_EXT e \<Rightarrow>
          if index + 2 ^ order > PAGES_PER_ALLOCTABLE_ENTRY then Inl STATUS_UNEXPECTED_RESULT
          else Inr (s\<lparr>extentries := (extentries s)(e :=
                         fill_range (extentries s e) index (2 ^ order) EE_USED)\<rparr>)
      | ENT_BITMAP b \<Rightarrow>
          Inr (s\<lparr>tables := (tables s)(t := (tables s t)(j :=
                    ENT_BITMAP (allocate_from_bitmap_entry b index order)))\<rparr>)
      | ENT_EXT_UNUSABLE \<Rightarrow> Inr s)"

text \<open>An exhausted search falls through to the label \<^verbatim>\<open>success\<close>: the status is
  \<^verbatim>\<open>STATUS_SUCCESS\<close> and \<^verbatim>\<open>*pfn\<close> is not written.\<close>

fun allocate_small_loop ::
  "allocator \<Rightarrow> nat option \<Rightarrow> nat \<Rightarrow> nat \<Rightarrow> nat \<Rightarrow> nat \<Rightarrow> nat \<Rightarrow> nat list \<Rightarrow> pmm
     \<Rightarrow> (pmm \<times> StStatus \<times> nat) outcome" where
  "allocate_small_loop alloc owner order align_order start jump pfn [] s =
     Returned (s, STATUS_SUCCESS, pfn)"
| "allocate_small_loop alloc owner order align_order start jump pfn (i # is) s =
     (case atpa s i of
        ATPA_FREE \<Rightarrow>
          obind (get_or_create_table alloc i s) (\<lambda>(s, r). case r of
              Inl status \<Rightarrow> Returned (s, status, pfn)
            | Inr t \<Rightarrow>
                (case (if t = WildTable then ENT_EXT_UNUSABLE else tables s t start) of
                   ENT_BITMAP b \<Rightarrow>
                     (case find_free_frame_idx_bitmap_entry b (int align_order) of
                        None \<Rightarrow> Panicked STATUS_UNEXPECTED_RESULT
                      | Some index \<Rightarrow>
                          finish_allocation
                            (i * ALLOC_TABLE_COVERAGE_PAGES + start * ALLOCENT_COVERAGE_PAGES + index)
                            owner order pfn
                            (s\<lparr>tables := (tables s)(t := (tables s t)(start :=
                                ENT_BITMAP (allocate_from_bitmap_entry b index order)))\<rparr>))
                 | _ \<Rightarrow> Undefined))
      | ATPA_HUGE_ALLOC \<Rightarrow> allocate_small_loop alloc owner order align_order start jump pfn is s
      | ATPA_UNUSABLE \<Rightarrow> allocate_small_loop alloc owner order align_order start jump pfn is s
      | ATPA_PTR t b \<Rightarrow>
          if \<not> ATPA_ORDER_BMP_GET b order
          then allocate_small_loop alloc owner order align_order start jump pfn is s
          else if t = WildTable then Undefined
          else case small_search s t align_order order (for_down (int start) jump) of
              Some (j, index) \<Rightarrow>
                (case claim_slots t j index order s of
                   Inl status \<Rightarrow> Returned (s, status, pfn)
                 | Inr s \<Rightarrow>
                     finish_allocation
                       (i * ALLOC_TABLE_COVERAGE_PAGES + j * ALLOCENT_COVERAGE_PAGES + index)
                       owner order pfn s)
            | None \<Rightarrow>
                allocate_small_loop alloc owner order align_order start jump pfn is
                  (atpa_hint_clr i order s))"

section \<open>StPmm_AllocateContiguousFrame\<close>

text \<open>The part between locking and unlocking preemption.\<close>

definition allocate_locked ::
  "allocator \<Rightarrow> nat option \<Rightarrow> nat \<Rightarrow> nat \<Rightarrow> uint32_t \<Rightarrow> int \<Rightarrow> nat \<Rightarrow> pmm
     \<Rightarrow> (pmm \<times> StStatus \<times> nat) outcome" where
  "allocate_locked alloc owner order align_order below_value atpa_limit pfn s =
     (let atpa_jump = atpa_align_jump align_order;
          atpa_start = round_start atpa_limit atpa_jump
      in if order \<ge> 14 then allocate_huge owner order atpa_start atpa_jump pfn s
         else let table_jump = table_align_jump align_order in
           case table_search_start below_value (int order) table_jump of
             Inl status \<Rightarrow> Returned (s, status, pfn)
           | Inr table_start \<Rightarrow>
               if order \<ge> 5 then
                 let n = 2 ^ (order - 5) in
                 if n > ALLOC_TABLE_ENTRY_COUNT then Returned (s, STATUS_INSUFFICIENT_MEMORY, pfn)
                 else allocate_normal_loop alloc owner order
                        (normal_table_search_start table_start n table_jump) table_jump pfn
                        (for_down atpa_start atpa_jump) s
               else if table_start < 0 \<or> table_start \<ge> int ALLOC_TABLE_ENTRY_COUNT
               then Returned (s, STATUS_INSUFFICIENT_MEMORY, pfn)
               else allocate_small_loop alloc owner order align_order (nat table_start) table_jump
                      pfn (for_down atpa_start atpa_jump) s)"

definition with_preemption_locked ::
  "(pmm \<Rightarrow> (pmm \<times> 'a) outcome) \<Rightarrow> pmm \<Rightarrow> (pmm \<times> 'a) outcome" where
  "with_preemption_locked f s =
     obind (StThread_LockPreemption (preemption_depth s)) (\<lambda>d.
     obind (f (s\<lparr>preemption_depth := d\<rparr>)) (\<lambda>(s, r).
     obind (StThread_UnlockPreemption (preemption_depth s)) (\<lambda>d.
       Returned (s\<lparr>preemption_depth := d\<rparr>, r))))"

definition allocate_body ::
  "allocator \<Rightarrow> pmm \<Rightarrow> nat \<Rightarrow> nat \<Rightarrow> nat option \<Rightarrow> uint32_t
     \<Rightarrow> (pmm \<times> StStatus \<times> nat) outcome" where
  "allocate_body alloc s pfn count owner alloc_flags =
     (if \<not> allocation_available s then Returned (s, STATUS_CONFLICTING_STATE, pfn)
      else let order = get_order count in
      if order < 0 then Returned (s, STATUS_INVALID_VALUE, pfn)
      else if order > int PMM_MAX_ORDER then Returned (s, STATUS_INSUFFICIENT_MEMORY, pfn)
      else if (case owner of None \<Rightarrow> False | Some n \<Rightarrow> StAllocationOwner_IsClosed (owners s n))
      then Returned (s, STATUS_CONFLICTING_STATE, pfn)
      else let below_value = alloc_flags AND AF_PMM_BELOW_MASK;
               align_order = request_align_order alloc_flags order in
      if align_order > int PMM_MAX_ORDER then Returned (s, STATUS_INSUFFICIENT_MEMORY, pfn)
      else case atpa_search_limit below_value order of
             Inl status \<Rightarrow> Returned (s, status, pfn)
           | Inr atpa_limit \<Rightarrow>
               with_preemption_locked
                 (allocate_locked alloc owner (nat order) (nat align_order) below_value atpa_limit
                   pfn) s)"

fun allocate_fuel ::
  "nat \<Rightarrow> pmm \<Rightarrow> nat \<Rightarrow> nat \<Rightarrow> nat option \<Rightarrow> uint32_t \<Rightarrow> (pmm \<times> StStatus \<times> nat) outcome" where
  "allocate_fuel 0 s pfn count owner alloc_flags = OutOfFuel"
| "allocate_fuel (Suc fuel) s pfn count owner alloc_flags =
     allocate_body (\<lambda>s pfn count flags. allocate_fuel fuel s pfn count None flags)
       s pfn count owner alloc_flags"

definition ALLOCATE_NESTING :: nat where "ALLOCATE_NESTING = 3"

definition StPmm_AllocateContiguousFrame ::
  "nat \<Rightarrow> nat \<Rightarrow> nat option \<Rightarrow> uint32_t \<Rightarrow> pmm \<Rightarrow> (pmm \<times> StStatus \<times> nat) outcome" where
  "StPmm_AllocateContiguousFrame pfn count owner alloc_flags s =
     allocate_fuel ALLOCATE_NESTING s pfn count owner alloc_flags"

end
