(* ===== verification/Pmm_Alloc_Safe.thy ===== *)
theory Pmm_Alloc_Safe
  imports Pmm_Alloc
begin

text \<open>
  What \<^verbatim>\<open>StPmm_AllocateContiguousFrame\<close> does to the frame map: in a well-formed state whose
  management pools are above their watermarks it either claims a block of free frames, and
  only that block, or leaves the map as it was.
\<close>

section \<open>Blocks\<close>

definition block :: "nat \<Rightarrow> nat \<Rightarrow> nat set" where "block p order = {p..<p + 2 ^ order}"

lemma card_block [simp]: "card (block p order) = 2 ^ order" by (simp add: block_def)

lemma block_huge:
  assumes "14 \<le> order"
  shows "f \<in> block (i * 16384) order \<longleftrightarrow> i \<le> table_of f \<and> table_of f < i + 2 ^ (order - 14)"
proof -
  have "(2::nat) ^ order = 2 ^ (14 + (order - 14))" using assms by simp
  also have "\<dots> = 16384 * 2 ^ (order - 14)" by (simp only: power_add) simp
  finally have sz: "i * 16384 + 2 ^ order = (i + 2 ^ (order - 14)) * 16384" by simp
  have "f < m * 16384 \<longleftrightarrow> f div 16384 < m" for m by (simp add: div_less_iff_less_mult)
  moreover have "i * 16384 \<le> f \<longleftrightarrow> i \<le> f div 16384" by (simp add: less_eq_div_iff_mult_less_eq)
  ultimately show ?thesis unfolding block_def atLeastLessThan_iff sz table_of_def by metis
qed

lemma block_normal:
  assumes "5 \<le> order" "j + 2 ^ (order - 5) \<le> 512"
  shows "f \<in> block (i * 16384 + j * 32) order \<longleftrightarrow>
    table_of f = i \<and> j \<le> entry_of f \<and> entry_of f < j + 2 ^ (order - 5)"
proof -
  have "(2::nat) ^ order = 2 ^ (5 + (order - 5))" using assms by simp
  also have "\<dots> = 32 * 2 ^ (order - 5)" by (simp only: power_add) simp
  finally have sz: "(2::nat) ^ order = 32 * 2 ^ (order - 5)" .
  define n where "n = (2::nat) ^ (order - 5)"
  define t e p where "t = table_of f" and "e = entry_of f" and "p = page_of f"
  have f: "f = t * 16384 + e * 32 + p" using frame_parts [of f] by (simp add: frame_at_def t_def e_def p_def)
  have b: "e < 512" "p < 32" by (simp_all add: e_def p_def)
  have "i * 16384 + j * 32 \<le> t * 16384 + e * 32 + p \<and> t * 16384 + e * 32 + p < i * 16384 + j * 32 + 32 * n
     \<longleftrightarrow> t = i \<and> j \<le> e \<and> e < j + n"
  proof (cases "t = i")
    case False
    have "t < i \<Longrightarrow> t * 16384 + 16384 \<le> i * 16384" "i < t \<Longrightarrow> i * 16384 + 16384 \<le> t * 16384" by simp_all
    then show ?thesis using False b assms(2) n_def by linarith
  qed (use b in auto)
  then show ?thesis unfolding block_def atLeastLessThan_iff sz n_def [symmetric] t_def [symmetric] e_def [symmetric]
    by (simp add: f)
qed

lemma block_small:
  assumes "j < 512" "k + 2 ^ order \<le> 32"
  shows "f \<in> block (i * 16384 + j * 32 + k) order \<longleftrightarrow>
    table_of f = i \<and> entry_of f = j \<and> k \<le> page_of f \<and> page_of f < k + 2 ^ order"
proof -
  define n where "n = (2::nat) ^ order"
  define t e p where "t = table_of f" and "e = entry_of f" and "p = page_of f"
  have f: "f = t * 16384 + e * 32 + p" using frame_parts [of f] by (simp add: frame_at_def t_def e_def p_def)
  have b: "e < 512" "p < 32" by (simp_all add: e_def p_def)
  have "i * 16384 + j * 32 + k \<le> t * 16384 + e * 32 + p \<and> t * 16384 + e * 32 + p < i * 16384 + j * 32 + k + n
     \<longleftrightarrow> t = i \<and> e = j \<and> k \<le> p \<and> p < k + n"
  proof (cases "t = i")
    case False
    have "t < i \<Longrightarrow> t * 16384 + 16384 \<le> i * 16384" "i < t \<Longrightarrow> i * 16384 + 16384 \<le> t * 16384" by simp_all
    then show ?thesis using False b assms n_def by linarith
  next
    case True
    have "e < j \<Longrightarrow> e * 32 + 32 \<le> j * 32" "j < e \<Longrightarrow> j * 32 + 32 \<le> e * 32" by simp_all
    then show ?thesis using True b assms n_def by (cases "e = j") auto
  qed
  then show ?thesis
    unfolding block_def atLeastLessThan_iff n_def [symmetric] t_def [symmetric] e_def [symmetric] p_def [symmetric]
    by (simp add: f)
qed

section \<open>Held blocks\<close>

text \<open>
  A block as an allocation leaves it in the map: whole tables, whole entries, or frames of one entry.
  Holding a block lasts until the block is released.
\<close>

definition held_huge :: "pmm \<Rightarrow> nat \<Rightarrow> nat \<Rightarrow> bool" where
  "held_huge s p order \<longleftrightarrow> (\<exists>i. p = i * 16384 \<and> i + 2 ^ (order - 14) \<le> 4096 \<and>
     (\<forall>k. i \<le> k \<longrightarrow> k < i + 2 ^ (order - 14) \<longrightarrow> atpa s k = ATPA_HUGE_ALLOC))"

definition held_normal :: "pmm \<Rightarrow> nat \<Rightarrow> nat \<Rightarrow> bool" where
  "held_normal s p order \<longleftrightarrow> (\<exists>i j t h. p = i * 16384 + j * 32 \<and> i < 4096 \<and> j + 2 ^ (order - 5) \<le> 512 \<and>
     atpa s i = ATPA_PTR t h \<and>
     (\<forall>e. j \<le> e \<longrightarrow> e < j + 2 ^ (order - 5) \<longrightarrow> tables s t e = ENT_BITMAP ALLOCENT_BMP_FULL_ALLOC))"

definition slots_held :: "pmm \<Rightarrow> alloc_table_entry \<Rightarrow> nat \<Rightarrow> nat \<Rightarrow> bool" where
  "slots_held s ent k order =
     (case ent of
        ENT_BITMAP b \<Rightarrow> 2 ^ order dvd k \<and> (\<forall>q. k \<le> q \<longrightarrow> q < k + 2 ^ order \<longrightarrow> bit b q)
      | ENT_EXT x \<Rightarrow> (\<forall>q. k \<le> q \<longrightarrow> q < k + 2 ^ order \<longrightarrow> extentries s x q = EE_USED)
      | ENT_EXT_UNUSABLE \<Rightarrow> False)"

definition held_small :: "pmm \<Rightarrow> nat \<Rightarrow> nat \<Rightarrow> bool" where
  "held_small s p order \<longleftrightarrow> (\<exists>i j k t h. p = i * 16384 + j * 32 + k \<and> i < 4096 \<and> j < 512 \<and>
     k + 2 ^ order \<le> 32 \<and> atpa s i = ATPA_PTR t h \<and> slots_held s (tables s t j) k order)"

definition held :: "pmm \<Rightarrow> nat \<Rightarrow> nat \<Rightarrow> bool" where
  "held s p order =
     (if order \<ge> 14 then held_huge s p order else if order \<ge> 5 then held_normal s p order
      else held_small s p order)"

definition keeps_held :: "pmm \<Rightarrow> pmm \<Rightarrow> bool" where
  "keeps_held s s' \<longleftrightarrow> (\<forall>p order. held s p order \<longrightarrow> held s' p order)"

lemma keeps_held_refl [simp]: "keeps_held s s" by (simp add: keeps_held_def)

lemma keeps_held_trans: "keeps_held s s1 \<Longrightarrow> keeps_held s1 s2 \<Longrightarrow> keeps_held s s2"
  by (simp add: keeps_held_def)

lemma held_cong:
  assumes "atpa s' = atpa s" "tables s' = tables s" "extentries s' = extentries s"
  shows "held s' = held s"
proof -
  have "slots_held s' = slots_held s"
    using assms by (intro ext) (simp add: slots_held_def split: alloc_table_entry.split)
  then show ?thesis
    using assms by (intro ext) (simp add: held_def held_huge_def held_normal_def held_small_def)
qed

lemma held_depth [simp]: "held (s\<lparr>preemption_depth := d\<rparr>) = held s" by (rule held_cong) simp_all

lemma keeps_held_depth [simp]:
  "keeps_held (s\<lparr>preemption_depth := d\<rparr>) s' = keeps_held s s'"
  "keeps_held s (s'\<lparr>preemption_depth := d\<rparr>) = keeps_held s s'"
  by (simp_all add: keeps_held_def)

text \<open>An update keeps every held block when it keeps huge slots, linked tables, full entries and
  used slots.\<close>

lemma keeps_heldI:
  assumes huge: "\<And>i. i < 4096 \<Longrightarrow> atpa s i = ATPA_HUGE_ALLOC \<Longrightarrow> atpa s' i = ATPA_HUGE_ALLOC"
    and ptr: "\<And>i t h. i < 4096 \<Longrightarrow> atpa s i = ATPA_PTR t h \<Longrightarrow> \<exists>h. atpa s' i = ATPA_PTR t h"
    and full: "\<And>i t h e. i < 4096 \<Longrightarrow> atpa s i = ATPA_PTR t h \<Longrightarrow> e < 512 \<Longrightarrow>
      tables s t e = ENT_BITMAP ALLOCENT_BMP_FULL_ALLOC \<Longrightarrow> tables s' t e = ENT_BITMAP ALLOCENT_BMP_FULL_ALLOC"
    and slots: "\<And>i t h e k order. i < 4096 \<Longrightarrow> atpa s i = ATPA_PTR t h \<Longrightarrow> e < 512 \<Longrightarrow> k + 2 ^ order \<le> 32 \<Longrightarrow>
      slots_held s (tables s t e) k order \<Longrightarrow> slots_held s' (tables s' t e) k order"
  shows "keeps_held s s'"
  unfolding keeps_held_def
proof (intro allI impI)
  fix p order
  assume h: "held s p order"
  consider "14 \<le> order" | "5 \<le> order" "order < 14" | "order < 5" by linarith
  then show "held s' p order"
  proof cases
    case 1
    then show ?thesis using h huge by (auto simp: held_def held_huge_def)
  next
    case 2
    then obtain i j t hh where n: "p = i * 16384 + j * 32" "i < 4096" "j + 2 ^ (order - 5) \<le> 512" "atpa s i = ATPA_PTR t hh"
      "\<forall>e. j \<le> e \<longrightarrow> e < j + 2 ^ (order - 5) \<longrightarrow> tables s t e = ENT_BITMAP ALLOCENT_BMP_FULL_ALLOC"
      using h by (auto simp: held_def held_normal_def)
    obtain h' where "atpa s' i = ATPA_PTR t h'" using ptr [OF n(2,4)] by blast
    moreover have "tables s' t e = ENT_BITMAP ALLOCENT_BMP_FULL_ALLOC" if "j \<le> e" "e < j + 2 ^ (order - 5)" for e
      using full [OF n(2,4), of e] n(3,5) that by simp
    ultimately have "held_normal s' p order" using n(1-3) unfolding held_normal_def by blast
    then show ?thesis using 2 by (simp add: held_def)
  next
    case 3
    then obtain i j k t hh where n: "p = i * 16384 + j * 32 + k" "i < 4096" "j < 512" "k + 2 ^ order \<le> 32"
      "atpa s i = ATPA_PTR t hh" "slots_held s (tables s t j) k order"
      using h by (auto simp: held_def held_small_def)
    obtain h' where "atpa s' i = ATPA_PTR t h'" using ptr [OF n(2,5)] by blast
    then have "held_small s' p order"
      using n slots [OF n(2,5,3,4,6)] unfolding held_small_def by blast
    then show ?thesis using 3 by (simp add: held_def)
  qed
qed

lemma keeps_held_map:
  assumes "atpa s' = atpa s" "tables s' = tables s" "extentries s' = extentries s"
  shows "keeps_held s s'"
  using held_cong [OF assms] by (simp add: keeps_held_def)

lemma slots_held_exts: "extentries s' = extentries s \<Longrightarrow> slots_held s' = slots_held s"
  by (intro ext) (simp add: slots_held_def split: alloc_table_entry.split)

lemma keeps_held_hint:
  assumes "atpa s i = ATPA_PTR t h"
  shows "keeps_held s (s\<lparr>atpa := (atpa s)(i := ATPA_PTR t h')\<rparr>)"
proof -
  let ?s = "s\<lparr>atpa := (atpa s)(i := ATPA_PTR t h')\<rparr>"
  have sh: "slots_held ?s = slots_held s" by (rule slots_held_exts) simp
  show ?thesis by (rule keeps_heldI) (use assms in \<open>auto simp: sh\<close>)
qed

lemma keeps_held_new_table:
  assumes "\<not> live_table s t" "atpa s i = ATPA_FREE \<or> atpa s i = ATPA_UNUSABLE"
    and "atpa s' = (atpa s)(i := ATPA_PTR t h)" "tables s' = (tables s)(t := g)" "extentries s' = extentries s"
  shows "keeps_held s s'"
proof -
  have sh: "slots_held s' = slots_held s" by (rule slots_held_exts) (rule assms(5))
  have t': "t' \<noteq> t" if "j < 4096" "atpa s j = ATPA_PTR t' h" for j t' h
    using assms(1) live_tableI [OF that(2,1)] by auto
  show ?thesis
    by (rule keeps_heldI) (use assms(2) t' in \<open>auto simp: sh assms(3,4)\<close>)
qed

section \<open>What an allocation does\<close>

text \<open>Every frame that is not unusable has its metadata mapped, once the metadata is in use.\<close>

definition md_ok :: "pmm \<Rightarrow> bool" where
  "md_ok s \<longleftrightarrow> (metadata_available s \<longrightarrow> (\<forall>f. frame_state s f \<noteq> Unusable \<longrightarrow> md_accessible s f))"

definition new_metadata :: "nat option \<Rightarrow> nat \<Rightarrow> pmm_metadata" where
  "new_metadata owner order =
     \<lparr>md_order = of_nat order, md_flags = 0, md_owner = owner, md_refcount = 1, md_lock = 0\<rparr>"

text \<open>The fields that neither an allocation nor a release changes.\<close>

definition same_config :: "pmm \<Rightarrow> pmm \<Rightarrow> bool" where
  "same_config s s' \<longleftrightarrow>
     is_topping_up_alloctbl_pool s' = is_topping_up_alloctbl_pool s \<and>
     is_topping_up_extentry_pool s' = is_topping_up_extentry_pool s \<and>
     total_frames s' = total_frames s \<and> allocation_available s' = allocation_available s \<and>
     remarking_unavailable s' = remarking_unavailable s \<and>
     metadata_available s' = metadata_available s \<and> md_mapped s' = md_mapped s \<and>
     preemption_depth s' = preemption_depth s"

definition unchanged :: "pmm \<Rightarrow> pmm \<Rightarrow> bool" where
  "unchanged s s' \<longleftrightarrow> frame_state s' = frame_state s \<and> same_rest s s' \<and> keeps_held s s' \<and>
     mgmt_le s s'"

definition allocated :: "nat option \<Rightarrow> nat \<Rightarrow> nat \<Rightarrow> pmm \<Rightarrow> pmm \<Rightarrow> bool" where
  "allocated owner order p s s' \<longleftrightarrow>
     block p order \<subseteq> free_set s \<and>
     (\<forall>f. frame_state s' f = (if f \<in> block p order then Used else frame_state s f)) \<and>
     free_frames s' = free_frames s - push_bit order 1 \<and>
     metadata s' = (if metadata_available s then (metadata s)(p := new_metadata owner order) else metadata s) \<and>
     owners s' = (case owner of
        Some n \<Rightarrow> if metadata_available s then (owners s)(n := charge_owner order (owners s n)) else owners s
      | None \<Rightarrow> owners s) \<and>
     same_config s s' \<and> held s' p order \<and> keeps_held s s' \<and> mgmt_le s s'"

definition alloc_post ::
  "nat option \<Rightarrow> nat \<Rightarrow> nat \<Rightarrow> nat set \<Rightarrow> StStatus set \<Rightarrow> pmm \<Rightarrow> (pmm \<times> StStatus \<times> nat) outcome \<Rightarrow> bool" where
  "alloc_post owner order pfn C failures s r \<longleftrightarrow>
     (\<exists>s' st q. r = Returned (s', st, q) \<and> pmm_wf s' \<and>
       (st = STATUS_SUCCESS \<and> q \<in> C \<and> allocated owner order q s s' \<or>
        st \<in> failures \<and> q = pfn \<and> unchanged s s'))"

lemma unchanged_refl [simp]: "unchanged s s" by (simp add: unchanged_def same_rest_def)

lemma unchanged_trans: "unchanged s s1 \<Longrightarrow> unchanged s1 s2 \<Longrightarrow> unchanged s s2"
  using keeps_held_trans [of s s1 s2] mgmt_le_trans [of s s1 s2] by (simp add: unchanged_def same_rest_def)

lemma unchanged_allocated: "unchanged s s1 \<Longrightarrow> allocated owner order p s1 s' \<Longrightarrow> allocated owner order p s s'"
  using keeps_held_trans [of s s1 s'] mgmt_le_trans [of s s1 s']
  by (cases owner) (simp_all add: unchanged_def allocated_def same_rest_def same_config_def free_set_def)

lemma unchanged_alloc_post:
  "unchanged s s1 \<Longrightarrow> alloc_post owner order pfn C F s1 r \<Longrightarrow> alloc_post owner order pfn C F s r"
  unfolding alloc_post_def using unchanged_trans unchanged_allocated by blast

lemma unchanged_md_ok: "unchanged s s' \<Longrightarrow> md_ok s' = md_ok s"
  by (simp add: unchanged_def md_ok_def same_rest_def md_accessible_def)

lemma alloc_post_mono: "alloc_post owner order pfn C F s r \<Longrightarrow> C \<subseteq> D \<Longrightarrow> alloc_post owner order pfn D F s r"
  unfolding alloc_post_def by blast

lemma block_base [simp]: "p \<in> block p order" by (simp add: block_def)

text \<open>The update of the map by a search that found \<open>p\<close>.\<close>

definition claims :: "nat \<Rightarrow> nat \<Rightarrow> pmm \<Rightarrow> pmm \<Rightarrow> bool" where
  "claims order p s s' \<longleftrightarrow> same_rest s s' \<and> pmm_wf s' \<and> block p order \<subseteq> free_set s \<and>
     (\<forall>f. frame_state s' f = (if f \<in> block p order then Used else frame_state s f)) \<and>
     held s' p order \<and> keeps_held s s' \<and> mgmt_le s s'"

lemma claims_used:
  "pmm_wf s \<Longrightarrow> (\<And>f. frame_state s' f = (if f \<in> B then Used else frame_state s f)) \<Longrightarrow> mgmt_frame s f
     \<Longrightarrow> frame_state s' f = Used"
  by (simp add: mgmt_frame_Used)

lemma claim_entries_claims:
  assumes wf: "pmm_wf s" and i: "i < 4096" "atpa s i = ATPA_PTR t h" and o: "5 \<le> order" "order < 14"
    and j: "j + 2 ^ (order - 5) \<le> 512"
    and fr: "\<And>e. j \<le> e \<Longrightarrow> e < j + 2 ^ (order - 5) \<Longrightarrow> tables s t e = ENT_BITMAP ALLOCENT_BMP_FREE"
  shows "claims order (i * 16384 + j * 32) s (claim_entries t j (2 ^ (order - 5)) s)"
proof -
  let ?s = "claim_entries t j (2 ^ (order - 5)) s"
  let ?g = "fill_range (tables s t) j (2 ^ (order - 5)) (ENT_BITMAP ALLOCENT_BMP_FULL_ALLOC)"
  let ?B = "block (i * 16384 + j * 32) order"
  note B = block_normal [OF o(1) j, of _ i]
  have full: "bit ALLOCENT_BMP_FULL_ALLOC p" if "p < 32" for p
    using that pages_of_encodes [OF encodes_full] by (auto simp: pages_of_def)
  have fs: "frame_state ?s f = (if f \<in> ?B then Used else frame_state s f)" for f
    unfolding claim_entries_def frame_state_table_update [OF wf i]
    by (auto simp: B fill_range_def full frame_state_def [of s] i)
  have "pmm_wf ?s"
    unfolding claim_entries_def
  proof (rule wf_table_update [OF wf live_tableI [OF i(2,1)]])
    show "bmp_wf b" if "e < 512" "?g e = ENT_BITMAP b" for e b
      using that encodes_wf [OF encodes_full] wf_bitmap [OF wf, of t e b] live_tableI [OF i(2,1)]
      by (auto simp: fill_range_def live_entry_def split: if_splits)
    show "tables s t e = ENT_EXT x" if "e < 512" "?g e = ENT_EXT x" for e x
      using that by (auto simp: fill_range_def split: if_splits)
  qed (use claims_used [OF wf fs] in \<open>simp add: claim_entries_def\<close>)
  moreover have "?B \<subseteq> free_set s"
    using fr i by (auto simp: B free_set_def frame_state_def ALLOCENT_BMP_FREE_def)
  moreover have "held ?s (i * 16384 + j * 32) order"
    using o i j by (auto simp: held_def held_normal_def claim_entries_def fill_range_def)
  moreover have "keeps_held s ?s"
  proof (rule keeps_heldI)
    have sh: "slots_held ?s = slots_held s" by (rule slots_held_exts) (simp add: claim_entries_def)
    have nf: "\<not> slots_held s (ENT_BITMAP ALLOCENT_BMP_FREE) k order'" for k order'
      by (auto simp: slots_held_def ALLOCENT_BMP_FREE_def intro!: exI [of _ k])
    show "slots_held ?s (tables ?s t' e) k order'" if "slots_held s (tables s t' e) k order'" for t' e k order'
      unfolding sh using that fr [of e] nf by (auto simp: claim_entries_def fill_range_def)
    show "tables ?s t' e = ENT_BITMAP ALLOCENT_BMP_FULL_ALLOC" if "tables s t' e = ENT_BITMAP ALLOCENT_BMP_FULL_ALLOC" for t' e
      using that by (auto simp: claim_entries_def fill_range_def)
  qed (auto simp: claim_entries_def)
  moreover have "mgmt_le s ?s"
    by (rule mgmt_le_shrink) (auto simp: claim_entries_def fill_range_def split: if_splits)
  ultimately show ?thesis using fs by (simp add: claims_def same_rest_def claim_entries_def)
qed

lemma block_pages_aligned:
  assumes "2 ^ order dvd index" "p < 32"
  shows "p \<in> block_pages index order \<longleftrightarrow> index \<le> p \<and> p < index + 2 ^ order"
proof -
  obtain m where m: "index = m * 2 ^ order" using assms(1) by (metis dvdE mult.commute)
  have "p div 2 ^ order = m \<longleftrightarrow> m * 2 ^ order \<le> p \<and> p < m * 2 ^ order + 2 ^ order"
    by (metis add.commute div_nat_eqI le_add1 mult.commute mult_Suc times_div_less_eq_dividend
        dividend_less_times_div mult_Suc_right zero_less_numeral zero_less_power)
  then show ?thesis using assms(2) m by (simp add: block_pages_def)
qed

lemma aligned_fits: "2 ^ order dvd index \<Longrightarrow> index < 32 \<Longrightarrow> order \<le> 5 \<Longrightarrow> index + 2 ^ order \<le> (32::nat)"
proof -
  assume a: "2 ^ order dvd index" "index < 32" "order \<le> 5"
  have "(32::nat) = 2 ^ order * 2 ^ (5 - order)" using a(3) by (simp add: power_add [symmetric])
  then have "2 ^ order dvd (32::nat)" by (rule dvdI)
  then have "2 ^ order dvd (32::nat) - index" using a(1) by (rule dvd_diff_nat)
  then have "2 ^ order \<le> 32 - index" using a(2) by (intro dvd_imp_le) auto
  then show ?thesis using a(2) by linarith
qed

lemma find_free_fits:
  assumes "encodes b P" "align_order \<le> 5" "order \<le> align_order"
    and "find_free_frame_idx_bitmap_entry b (int align_order) = Some index"
  shows "index + 2 ^ order \<le> 32"
proof -
  note found = find_free_Some [OF assms(1,2,4)]
  have "2 ^ order dvd index" using found(2) assms(3) by (meson dvd_trans le_imp_power_dvd)
  then show ?thesis using aligned_fits [OF _ found(1)] assms(2,3) by simp
qed

lemma claim_bitmap_claims:
  assumes wf: "pmm_wf s" and i: "i < 4096" "atpa s i = ATPA_PTR t h" and j: "j < 512" "tables s t j = ENT_BITMAP b"
    and a: "align_order \<le> 5" "order \<le> align_order" "order < 5"
    and f: "find_free_frame_idx_bitmap_entry b (int align_order) = Some index"
  shows "claims order (i * 16384 + j * 32 + index) s
    (s\<lparr>tables := (tables s)(t := (tables s t)(j := ENT_BITMAP (allocate_from_bitmap_entry b index order)))\<rparr>)"
    (is "claims _ _ _ ?s")
proof -
  let ?b = "allocate_from_bitmap_entry b index order"
  let ?B = "block (i * 16384 + j * 32 + index) order"
  have o: "order \<le> 5" using a by simp
  have lt: "live_table s t" by (rule live_tableI [OF i(2,1)])
  then have "bmp_wf b" using wf_bitmap [OF wf] j by (auto simp: live_entry_def)
  then have en: "encodes b (pages_of b)" by (rule wf_encodes)
  note found = find_free_Some [OF en a(1) f]
  have al: "2 ^ order dvd index" using found(2) a(2) by (meson dvd_trans le_imp_power_dvd)
  have fits: "index + 2 ^ order \<le> 32" by (rule aligned_fits [OF al found(1) o])
  note B = block_small [OF j(1) fits, of _ i]
  have en': "encodes ?b (pages_of b \<union> block_pages index order)"
    by (rule allocate_encodes [OF en o found(1)])
  have "block_pages index order \<subseteq> block_pages index align_order"
    using a(2) unfolding block_pages_def
    by (auto simp: div_mult2_eq [symmetric] power_add [symmetric]
        dest: arg_cong [of _ _ "\<lambda>x. x div 2 ^ (align_order - order)"])
  then have disj: "block_pages index order \<inter> pages_of b = {}" using found(3) by blast
  have bits: "bit ?b p \<longleftrightarrow> bit b p \<or> index \<le> p \<and> p < index + 2 ^ order" if "p < 32" for p
    using that pages_of_encodes [OF en'] block_pages_aligned [OF al that] by (auto simp: pages_of_def)
  have nb: "\<not> bit b p" if "index \<le> p" "p < index + 2 ^ order" for p
    using that fits disj block_pages_aligned [OF al, of p] by (auto simp: pages_of_def)
  have fs: "frame_state ?s f = (if f \<in> ?B then Used else frame_state s f)" for f
    unfolding frame_state_table_update [OF wf i]
    by (auto simp: B bits frame_state_def [of s] i j)
  have "pmm_wf ?s"
  proof (rule wf_table_update [OF wf lt])
    show "bmp_wf b'" if "e < 512" "((tables s t)(j := ENT_BITMAP ?b)) e = ENT_BITMAP b'" for e b'
      using that encodes_wf [OF en'] wf_bitmap [OF wf, of t e b'] lt
      by (auto simp: live_entry_def split: if_splits)
  qed (use claims_used [OF wf fs] in \<open>auto split: if_splits\<close>)
  moreover have "?B \<subseteq> free_set s"
    using nb i j by (auto simp: B free_set_def frame_state_def)
  moreover have "held_small ?s (i * 16384 + j * 32 + index) order"
    unfolding held_small_def using i j fits al bits
    by (intro exI [of _ i] exI [of _ j] exI [of _ index] exI [of _ t] exI [of _ h]) (simp add: slots_held_def)
  moreover have "keeps_held s ?s"
  proof (rule keeps_heldI)
    have sh: "slots_held ?s = slots_held s" by (rule slots_held_exts) simp
    have "b \<noteq> ALLOCENT_BMP_FULL_ALLOC"
      using nb [of index] pages_of_encodes [OF encodes_full] found(1) by (auto simp: pages_of_def)
    then show "tables ?s t' e = ENT_BITMAP ALLOCENT_BMP_FULL_ALLOC" if "tables s t' e = ENT_BITMAP ALLOCENT_BMP_FULL_ALLOC" for t' e
      using that j(2) by auto
    show "slots_held ?s (tables ?s t' e) k order'" if "slots_held s (tables s t' e) k order'" "k + 2 ^ order' \<le> 32" for t' e k order'
      using that bits j(2) by (auto simp: sh slots_held_def)
  qed auto
  moreover have "mgmt_le s ?s" by (rule mgmt_le_shrink) (auto split: if_splits)
  ultimately show ?thesis using fs a(3) by (simp add: claims_def same_rest_def held_def)
qed

lemma claim_ext_claims:
  assumes wf: "pmm_wf s" and i: "i < 4096" "atpa s i = ATPA_PTR t h" and j: "j < 512" "tables s t j = ENT_EXT x"
    and fits: "index + 2 ^ order \<le> 32" and o: "order < 5"
    and fr: "\<And>p. index \<le> p \<Longrightarrow> p < index + 2 ^ order \<Longrightarrow> extentries s x p = EE_FREE"
  shows "claims order (i * 16384 + j * 32 + index) s
    (s\<lparr>extentries := (extentries s)(x := fill_range (extentries s x) index (2 ^ order) EE_USED)\<rparr>)"
    (is "claims _ _ _ ?s")
proof -
  let ?B = "block (i * 16384 + j * 32 + index) order"
  note B = block_small [OF j(1) fits, of _ i]
  have fs: "frame_state ?s f = (if f \<in> ?B then Used else frame_state s f)" for f
    unfolding frame_state_ext_update [OF wf i j]
    by (auto simp: B fill_range_def frame_state_def [of s] i j)
  have "pmm_wf ?s" by (rule wf_ext_update [OF wf]) (rule claims_used [OF wf fs])
  moreover have "?B \<subseteq> free_set s"
    using fr i j by (auto simp: B free_set_def frame_state_def)
  moreover have "held_small ?s (i * 16384 + j * 32 + index) order"
    unfolding held_small_def using i j fits
    by (intro exI [of _ i] exI [of _ j] exI [of _ index] exI [of _ t] exI [of _ h]) (simp add: slots_held_def fill_range_def)
  moreover have "keeps_held s ?s"
    by (rule keeps_heldI) (auto simp: slots_held_def fill_range_def split: alloc_table_entry.splits)
  moreover have "mgmt_le s ?s" by (simp add: mgmt_le_def)
  ultimately show ?thesis using fs o by (simp add: claims_def same_rest_def held_def)
qed

lemma claim_huge_claims:
  assumes wf: "pmm_wf s" and o: "14 \<le> order" and n: "i + 2 ^ (order - 14) \<le> 4096"
    and fr: "\<And>k. i \<le> k \<Longrightarrow> k < i + 2 ^ (order - 14) \<Longrightarrow> atpa s k = ATPA_FREE"
  shows "claims order (i * 16384) s (s\<lparr>atpa := fill_range (atpa s) i (2 ^ (order - 14)) ATPA_HUGE_ALLOC\<rparr>)"
    (is "claims _ _ _ ?s")
proof -
  let ?B = "block (i * 16384) order"
  note B = block_huge [OF o, of _ i]
  have fs: "frame_state ?s f = (if f \<in> ?B then Used else frame_state s f)" for f
    using n unfolding frame_state_atpa_update frame_state_def [of s] by (auto simp: B fill_range_def)
  have "pmm_wf ?s"
    by (rule wf_atpa_update [OF wf]) (use claims_used [OF wf fs] in \<open>auto simp: fill_range_def split: if_splits\<close>)
  moreover have "?B \<subseteq> free_set s"
    using fr n by (auto simp: B free_set_def frame_state_def)
  moreover have "held ?s (i * 16384) order" using o n by (auto simp: held_def held_huge_def fill_range_def)
  moreover have "keeps_held s ?s"
  proof (rule keeps_heldI)
    have sh: "slots_held ?s = slots_held s" by (rule slots_held_exts) simp
    show "slots_held ?s (tables ?s t e) k order'" if "slots_held s (tables s t e) k order'" for t e k order'
      using that by (simp add: sh)
  qed (use fr in \<open>auto simp: fill_range_def\<close>)
  moreover have "mgmt_le s ?s" by (rule mgmt_le_shrink) (auto simp: fill_range_def split: if_splits)
  ultimately show ?thesis using fs by (simp add: claims_def same_rest_def)
qed

lemma finish_allocation_post:
  assumes un: "unchanged s s1" and cl: "claims order p s1 s2" and md: "md_ok s" and p: "p \<in> C"
  shows "alloc_post owner order pfn C F s (finish_allocation p owner order pfn s2)"
proof -
  have rest: "same_rest s1 s2" and wf: "pmm_wf s2"
    and fs: "\<And>f. frame_state s2 f = (if f \<in> block p order then Used else frame_state s1 f)"
    and fr: "block p order \<subseteq> free_set s1"
    and hd: "held s2 p order" "keeps_held s1 s2" "mgmt_le s1 s2"
    using cl by (auto simp: claims_def)
  have avail: "metadata_available s2 = metadata_available s" "md_mapped s2 = md_mapped s"
    using un rest by (auto simp: unchanged_def same_rest_def)
  have "p \<in> free_set s1" using fr by auto
  then have "frame_state s p = Free" using un by (simp add: free_set_def unchanged_def)
  then have acc: "metadata_available s2 \<Longrightarrow> md_accessible s2 p"
    using md by (simp add: md_ok_def avail md_accessible_def)
  let ?s = "(if metadata_available s2 then
      s2\<lparr>metadata := (metadata s2)(p := new_metadata owner order),
         owners := (case owner of None \<Rightarrow> owners s2
           | Some n \<Rightarrow> (owners s2)(n := charge_owner order (owners s2 n)))\<rparr> else s2)
      \<lparr>free_frames := free_frames s2 - push_bit order 1\<rparr>"
  have "finish_allocation p owner order pfn s2 = Returned (?s, STATUS_SUCCESS, p)"
    using acc by (auto simp: finish_allocation_def create_metadata_def new_metadata_def split: option.splits)
  moreover have "pmm_wf ?s" using wf by simp
  moreover have "held ?s = held s2" by (rule held_cong) simp_all
  then have "held ?s p order" "keeps_held s1 ?s" "mgmt_le s1 ?s" using hd by (simp_all add: keeps_held_def mgmt_le_def)
  then have "allocated owner order p s1 ?s"
    using fr rest by (cases owner) (simp_all add: allocated_def fs same_config_def same_rest_def)
  ultimately show ?thesis
    using un p unchanged_allocated unfolding alloc_post_def by blast
qed

section \<open>The searches\<close>

text \<open>A state in which the allocator runs without top-up.\<close>

definition alloc_ready :: "pmm \<Rightarrow> bool" where
  "alloc_ready s \<longleftrightarrow> pmm_wf s \<and> ample s \<and> allocation_available s \<and> md_ok s"

lemma allocate_huge_post:
  assumes s: "alloc_ready s" and o: "14 \<le> order" and C: "\<And>i. i \<in> set (for_down start jump) \<Longrightarrow> i * 16384 \<in> C"
    and F: "STATUS_INSUFFICIENT_MEMORY \<in> F"
  shows "alloc_post owner order pfn C F s (allocate_huge owner order start jump pfn s)"
proof -
  let ?n = "2 ^ (order - 14) :: nat"
  have wf: "pmm_wf s" and md: "md_ok s" using s by (auto simp: alloc_ready_def)
  have fail: "alloc_post owner order pfn C F s (Returned (s, STATUS_INSUFFICIENT_MEMORY, pfn))"
    using wf F by (auto simp: alloc_post_def)
  show ?thesis
  proof (cases "find (huge_allocatable s ?n) (for_down start jump)")
    case None
    then show ?thesis using fail by (auto simp: allocate_huge_def Let_def)
  next
    case (Some i)
    then have i: "huge_allocatable s ?n i" "i \<in> set (for_down start jump)"
      by (auto simp: find_Some_iff in_set_conv_nth)
    have "atpa s k = ATPA_FREE" if "i \<le> k" "k < i + ?n" for k
    proof (cases "k = i")
      case False
      then have "k - i \<in> set [1..<?n]" using that by auto
      then show ?thesis using i(1) that by (auto simp: huge_allocatable_def list_all_iff dest!: bspec [of _ _ "k - i"])
    qed (use i(1) in \<open>simp add: huge_allocatable_def\<close>)
    then have "claims order (i * 16384) s (s\<lparr>atpa := fill_range (atpa s) i ?n ATPA_HUGE_ALLOC\<rparr>)"
      using i(1) by (intro claim_huge_claims [OF wf o]) (auto simp: huge_allocatable_def pmm_consts)
    then have "alloc_post owner order pfn C F s
        (finish_allocation (i * 16384) owner order pfn (s\<lparr>atpa := fill_range (atpa s) i ?n ATPA_HUGE_ALLOC\<rparr>))"
      using md C [OF i(2)] by (intro finish_allocation_post [OF unchanged_refl])
    then show ?thesis
      using Some fail by (auto simp: allocate_huge_def Let_def pmm_consts)
  qed
qed

lemma mgmt_le_hint: "atpa s i = ATPA_PTR t h \<Longrightarrow> mgmt_le s (s\<lparr>atpa := (atpa s)(i := ATPA_PTR t h')\<rparr>)"
  by (rule mgmt_le_shrink) (auto split: if_splits)

lemma ready_hint_clr:
  assumes "alloc_ready s"
  shows "alloc_ready (atpa_hint_clr i order s)" "unchanged s (atpa_hint_clr i order s)"
proof -
  show un: "unchanged s (atpa_hint_clr i order s)"
    by (auto simp: unchanged_def same_rest_def atpa_hint_clr_def frame_state_hint keeps_held_hint mgmt_le_hint
        split: atpa_entry.splits)
  have "ample (atpa_hint_clr i order s) = ample s" "allocation_available (atpa_hint_clr i order s) = allocation_available s"
    by (auto simp: ample_def get_alloctbl_pool_remaining_def get_extentry_pool_remaining_def atpa_hint_clr_def
        split: atpa_entry.splits)
  then show "alloc_ready (atpa_hint_clr i order s)"
    using assms hint_clr_wf unchanged_md_ok [OF un] by (auto simp: alloc_ready_def)
qed

lemma ready_quiet: "alloc_ready s \<Longrightarrow> quiet s" by (simp add: alloc_ready_def quiet_def)

text \<open>In a ready state a table can be created for every free slot.\<close>

lemma ready_create_table:
  assumes s: "alloc_ready s" and i: "i < 4096" "atpa s i = ATPA_FREE"
  obtains s' t where "get_or_create_table alloc i s = Returned (s', Inr t)" "pmm_wf s'" "unchanged s s'"
    "atpa s' i = ATPA_PTR t ATPA_ORDER_BMP_MASK" "tables s' t = (\<lambda>_. ENT_BITMAP ALLOCENT_BMP_FREE)" "t \<noteq> WildTable"
proof -
  have wf: "pmm_wf s" using s by (simp add: alloc_ready_def)
  have pos: "get_alloctbl_pool_remaining s \<noteq> 0" using s by (simp add: alloc_ready_def ample_def)
  have a: "atpa s i = ATPA_FREE \<or> atpa s i = ATPA_UNUSABLE" using i by simp
  show thesis
  proof (rule get_or_create_table_spec [OF wf ready_quiet [OF s] i(1) a, of alloc])
    fix s' t
    assume *: "get_or_create_table alloc i s = Returned (s', Inr t)" "pmm_wf s'"
      "frame_state s' = frame_state s" "same_rest s s'" "atpa s' = (atpa s)(i := ATPA_PTR t ATPA_ORDER_BMP_MASK)"
      "tables s' = (tables s)(t := (\<lambda>_. created_entry (atpa s i)))" "extentries s' = extentries s" "\<not> live_table s t" "mgmt_le s s'"
    have "keeps_held s s'" by (rule keeps_held_new_table [OF *(8) a *(5-7)])
    moreover have "t \<noteq> WildTable" using *(2,5) i(1) by (intro wf_not_wild [OF *(2)] live_tableI [of s' i]) auto
    ultimately show thesis using that [of s' t] * i(2) by (simp add: unchanged_def created_entry_def)
  qed (use pos in simp)
qed

lemma allocate_normal_post:
  assumes "alloc_ready s" and o: "5 \<le> order" "order < 14" and "\<And>i. i \<in> set is \<Longrightarrow> i < 4096"
    and C: "\<And>i j. i \<in> set is \<Longrightarrow> 0 \<le> start \<Longrightarrow> j \<in> insert (nat start) (set (for_down start jump)) \<Longrightarrow> i * 16384 + j * 32 \<in> C"
    and F: "STATUS_INSUFFICIENT_MEMORY \<in> F"
  shows "alloc_post owner order pfn C F s (allocate_normal_loop alloc owner order start jump pfn is s)"
  using assms(1,4,5)
proof (induction "is" arbitrary: s)
  case Nil
  then show ?case using F by (auto simp: alloc_post_def alloc_ready_def)
next
  case (Cons i "is")
  let ?n = "2 ^ (order - 5) :: nat"
  have wf: "pmm_wf s" and md: "md_ok s" using Cons.prems(1) by (auto simp: alloc_ready_def)
  have i: "i < 4096" using Cons.prems(2) by simp
  have IH: "alloc_post owner order pfn C F s (allocate_normal_loop alloc owner order start jump pfn is s)"
    using Cons.IH [OF Cons.prems(1)] Cons.prems(2,3) by simp
  show ?case
  proof (cases "atpa s i")
    case ATPA_FREE
    show ?thesis
    proof (cases "start < 0 \<or> nat start + ?n > ALLOC_TABLE_ENTRY_COUNT")
      case True
      then show ?thesis using IH ATPA_FREE by (auto simp: Let_def)
    next
      case False
      obtain s' t where c: "get_or_create_table alloc i s = Returned (s', Inr t)" "pmm_wf s'" "unchanged s s'"
        "atpa s' i = ATPA_PTR t ATPA_ORDER_BMP_MASK" "tables s' t = (\<lambda>_. ENT_BITMAP ALLOCENT_BMP_FREE)" "t \<noteq> WildTable"
        by (rule ready_create_table [OF Cons.prems(1) i ATPA_FREE])
      have "claims order (i * 16384 + nat start * 32) s' (claim_entries t (nat start) ?n s')"
        using False c by (intro claim_entries_claims [OF c(2) i c(4) o]) (auto simp: pmm_consts)
      then have "alloc_post owner order pfn C F s
        (finish_allocation (i * 16384 + nat start * 32) owner order pfn (claim_entries t (nat start) ?n s'))"
        using Cons.prems(3) False by (intro finish_allocation_post [OF c(3) _ md]) auto
      then show ?thesis using ATPA_FREE False c by (auto simp: Let_def pmm_consts)
    qed
  next
    case (ATPA_PTR t b)
    have lt: "live_table s t" by (rule live_tableI [OF ATPA_PTR i])
    have nw: "t \<noteq> WildTable" by (rule wf_not_wild [OF wf lt])
    show ?thesis
    proof (cases "find (entries_allocatable s t ?n) (for_down start jump)")
      case None
      have "alloc_post owner order pfn C F s
          (allocate_normal_loop alloc owner order start jump pfn is (atpa_hint_clr i order s))"
        using Cons.IH [OF ready_hint_clr(1) [OF Cons.prems(1)]] Cons.prems(2,3)
        by (intro unchanged_alloc_post [OF ready_hint_clr(2) [OF Cons.prems(1)]]) simp
      then show ?thesis using IH ATPA_PTR None nw by (auto simp: Let_def)
    next
      case (Some j)
      then have j: "entries_allocatable s t ?n j" "j \<in> set (for_down start jump)"
        by (auto simp: find_Some_iff in_set_conv_nth)
      have "tables s t e = ENT_BITMAP ALLOCENT_BMP_FREE" if "j \<le> e" "e < j + ?n" for e
        using j(1) that by (auto simp: entries_allocatable_def list_all_iff dest!: bspec [of _ _ "e - j"])
      then have "claims order (i * 16384 + j * 32) s (claim_entries t j ?n s)"
        using j(1) by (intro claim_entries_claims [OF wf i ATPA_PTR o]) (auto simp: entries_allocatable_def pmm_consts)
      moreover have "0 \<le> start" using j(2) by (auto simp: for_down_mem)
      ultimately have "alloc_post owner order pfn C F s
        (finish_allocation (i * 16384 + j * 32) owner order pfn (claim_entries t j ?n s))"
        using Cons.prems(3) j(2) by (intro finish_allocation_post [OF unchanged_refl _ md]) auto
      then show ?thesis using IH ATPA_PTR Some nw by (auto simp: Let_def pmm_consts)
    qed
  qed (use IH in \<open>auto simp: Let_def\<close>)
qed


lemma small_search_Some:
  "small_search s t align_order order js = Some (j, index) \<Longrightarrow>
     j \<in> set js \<and> small_index s t align_order order j = Some index"
  by (induction js) (auto split: option.splits)

lemma claim_slots_claims:
  assumes wf: "pmm_wf s" and i: "i < 4096" "atpa s i = ATPA_PTR t h" and j: "j < 512" and a: "order \<le> align_order" "order < 5"
    and f: "small_index s t align_order order j = Some index"
  shows "index + 2 ^ order \<le> 32 \<and> (\<exists>s'. claim_slots t j index order s = Inr s' \<and> claims order (i * 16384 + j * 32 + index) s s')"
proof (cases "tables s t j")
  case (ENT_BITMAP b)
  then have ff: "find_free_frame_idx_bitmap_entry b (int align_order) = Some index"
    using f by (simp add: small_index_def)
  then have a5: "align_order \<le> 5"
    by (auto simp: find_free_frame_idx_bitmap_entry_def split: if_splits)
  have "bmp_wf b" using live_tableI [OF i(2,1)] j ENT_BITMAP by (intro wf_bitmap [OF wf, of t j]) (simp add: live_entry_def)
  then have "index + 2 ^ order \<le> 32" using find_free_fits [OF wf_encodes a5 a(1) ff] by simp
  then show ?thesis
    unfolding claim_slots_def ENT_BITMAP using claim_bitmap_claims [OF wf i j ENT_BITMAP a5 a ff] by simp
next
  case (ENT_EXT x)
  then have "ext_allocatable s x (2 ^ order) index"
    using f by (auto simp: small_index_def Let_def find_Some_iff)
  then have "index + 2 ^ order \<le> 32" "\<And>p. index \<le> p \<Longrightarrow> p < index + 2 ^ order \<Longrightarrow> extentries s x p = EE_FREE"
    by (auto simp: ext_allocatable_def list_all_iff pmm_consts)
  then show ?thesis
    using claim_ext_claims [OF wf i j ENT_EXT _ a(2)] ENT_EXT by (simp add: claim_slots_def pmm_consts)
qed (use f in \<open>simp add: small_index_def\<close>)

text \<open>Where a small search looks: the entries from \<open>start\<close> down, any frame of the entry.\<close>

lemma allocate_small_post:
  assumes "alloc_ready s" and a: "order \<le> align_order" "align_order \<le> 5" "order < 5" and st: "start < 512"
    and "\<And>i. i \<in> set is \<Longrightarrow> i < 4096"
    and C: "\<And>i j k. i \<in> set is \<Longrightarrow> j \<in> insert start (set (for_down (int start) jump)) \<Longrightarrow> k + 2 ^ order \<le> 32
      \<Longrightarrow> i * 16384 + j * 32 + k \<in> C"
    and F: "STATUS_SUCCESS \<in> F"
  shows "alloc_post owner order pfn C F s
    (allocate_small_loop alloc owner order align_order start jump pfn is s)"
  using assms(1,6,7)
proof (induction "is" arbitrary: s)
  case Nil
  then show ?case using F by (auto simp: alloc_post_def alloc_ready_def)
next
  case (Cons i "is")
  have wf: "pmm_wf s" and md: "md_ok s" using Cons.prems(1) by (auto simp: alloc_ready_def)
  have i: "i < 4096" using Cons.prems(2) by simp
  have IH: "alloc_post owner order pfn C F s
      (allocate_small_loop alloc owner order align_order start jump pfn is s)"
    using Cons.IH [OF Cons.prems(1)] Cons.prems(2,3) by simp
  show ?case
  proof (cases "atpa s i")
    case ATPA_FREE
    obtain s' t where c: "get_or_create_table alloc i s = Returned (s', Inr t)" "pmm_wf s'" "unchanged s s'"
      "atpa s' i = ATPA_PTR t ATPA_ORDER_BMP_MASK" "tables s' t = (\<lambda>_. ENT_BITMAP ALLOCENT_BMP_FREE)" "t \<noteq> WildTable"
      by (rule ready_create_table [OF Cons.prems(1) i ATPA_FREE])
    have ent: "tables s' t start = ENT_BITMAP ALLOCENT_BMP_FREE" using c(5) by simp
    have "find_free_frame_idx_bitmap_entry ALLOCENT_BMP_FREE (int align_order) \<noteq> None"
      unfolding find_free_None [OF encodes_free a(2)]
      by (auto simp: occupied_def intro!: exI [of _ 0])
    then obtain index where f: "find_free_frame_idx_bitmap_entry ALLOCENT_BMP_FREE (int align_order) = Some index"
      by blast
    have "index + 2 ^ order \<le> 32" by (rule find_free_fits [OF encodes_free a(2,1) f])
    then have "alloc_post owner order pfn C F s
        (finish_allocation (i * 16384 + start * 32 + index) owner order pfn
          (s'\<lparr>tables := (tables s')(t := (tables s' t)(start :=
              ENT_BITMAP (allocate_from_bitmap_entry ALLOCENT_BMP_FREE index order)))\<rparr>))"
      using Cons.prems(3)
      by (intro finish_allocation_post [OF c(3) claim_bitmap_claims [OF c(2) i c(4) st ent a(2,1,3) f] md]) auto
    then show ?thesis using ATPA_FREE c f by (simp add: pmm_consts)
  next
    case (ATPA_PTR t b)
    have nw: "t \<noteq> WildTable" by (rule wf_not_wild [OF wf live_tableI [OF ATPA_PTR i]])
    show ?thesis
    proof (cases "small_search s t align_order order (for_down (int start) jump)")
      case None
      have "alloc_post owner order pfn C F s
          (allocate_small_loop alloc owner order align_order start jump pfn is (atpa_hint_clr i order s))"
        using Cons.IH [OF ready_hint_clr(1) [OF Cons.prems(1)]] Cons.prems(2,3)
        by (intro unchanged_alloc_post [OF ready_hint_clr(2) [OF Cons.prems(1)]]) simp
      then show ?thesis using IH ATPA_PTR None nw by auto
    next
      case (Some ji)
      then obtain j index where ji: "ji = (j, index)" by fastforce
      have m: "j \<in> set (for_down (int start) jump)" "small_index s t align_order order j = Some index"
        using small_search_Some [of s t align_order order _ j index] Some ji by auto
      have j: "j < 512" using m(1) st by (auto simp: for_down_mem)
      obtain s' where s': "claim_slots t j index order s = Inr s'" "claims order (i * 16384 + j * 32 + index) s s'"
        by (rule exE [OF conjunct2 [OF claim_slots_claims [OF wf i ATPA_PTR j a(1,3) m(2)]]]) auto
      have "index + 2 ^ order \<le> 32" by (rule conjunct1 [OF claim_slots_claims [OF wf i ATPA_PTR j a(1,3) m(2)]])
      then have "alloc_post owner order pfn C F s
        (finish_allocation (i * 16384 + j * 32 + index) owner order pfn s')"
        using Cons.prems(3) m(1) by (intro finish_allocation_post [OF unchanged_refl s'(2) md]) auto
      then show ?thesis using IH ATPA_PTR Some ji s' nw by (auto simp: pmm_consts)
    qed
  qed (use IH in auto)
qed


section \<open>The whole function\<close>

text \<open>The frames the searches may return.\<close>

definition alloc_sites :: "nat \<Rightarrow> nat \<Rightarrow> uint32_t \<Rightarrow> int \<Rightarrow> nat set" where
  "alloc_sites order align_order below_value limit =
     (let aj = atpa_align_jump align_order; I = set (for_down (round_start limit aj) aj);
          tj = table_align_jump align_order
      in if order \<ge> 14 then {i * 16384 | i. i \<in> I}
         else case table_search_start below_value (int order) tj of
             Inl _ \<Rightarrow> {}
           | Inr start \<Rightarrow>
               if order \<ge> 5 then
                 let start = normal_table_search_start start (2 ^ (order - 5)) tj in
                 {i * 16384 + j * 32 | i j. i \<in> I \<and> 0 \<le> start \<and> j \<in> insert (nat start) (set (for_down start tj))}
               else {i * 16384 + j * 32 + k | i j k.
                       i \<in> I \<and> j \<in> insert (nat start) (set (for_down (int (nat start)) tj)) \<and> k + 2 ^ order \<le> 32})"

lemma for_down_atpa:
  assumes "0 < limit" "limit \<le> 4096" "i \<in> set (for_down (round_start limit (atpa_align_jump a)) (atpa_align_jump a))"
  shows "int i < limit" "atpa_align_jump a dvd i"
proof -
  let ?J = "int (atpa_align_jump a)"
  have J: "?J > 0" by (simp add: atpa_align_jump_def)
  have m: "int i \<le> round_start limit (atpa_align_jump a)" "?J dvd round_start limit (atpa_align_jump a) - int i"
    using assms(3) by (auto simp: for_down_mem)
  have "round_start limit (atpa_align_jump a) \<le> limit - 1"
    unfolding round_start_def using J by (metis minus_mod_eq_div_mult diff_le_self le_diff_eq
        add_increasing2 pos_mod_sign diff_ge_0_iff_ge le_add_same_cancel1 minus_div_mult_eq_mod diff_diff_add)
  then show "int i < limit" using m(1) by linarith
  have "?J dvd round_start limit (atpa_align_jump a)" by (simp add: round_start_def)
  then have "?J dvd int i" using m(2) by (metis dvd_diff_right_iff)
  then show "atpa_align_jump a dvd i" by (simp only: int_dvd_int_iff)
qed

lemma allocate_locked_post:
  assumes s: "alloc_ready s" and a: "order \<le> align_order" "5 \<le> order \<or> align_order \<le> 5"
    and l: "0 < limit" "limit \<le> 4096"
  shows "alloc_post owner order pfn (alloc_sites order align_order below_value limit)
    (if order < 5 then UNIV else UNIV - {STATUS_SUCCESS}) s
    (allocate_locked alloc owner order align_order below_value limit pfn s)"
proof -
  let ?F = "if order < 5 then UNIV else UNIV - {STATUS_SUCCESS}"
  let ?C = "alloc_sites order align_order below_value limit"
  let ?aj = "atpa_align_jump align_order"
  let ?tj = "table_align_jump align_order"
  have wf: "pmm_wf s" using s by (simp add: alloc_ready_def)
  have fail: "alloc_post owner order pfn ?C ?F s (Returned (s, st, pfn))" if "st \<noteq> STATUS_SUCCESS" for st
    using wf that by (auto simp: alloc_post_def)
  have ilt: "i < 4096" if "i \<in> set (for_down (round_start limit ?aj) ?aj)" for i
    using for_down_atpa(1) [OF l that] l by linarith
  show ?thesis
  proof (cases "14 \<le> order")
    case True
    have "alloc_post owner order pfn ?C ?F s (allocate_huge owner order (round_start limit ?aj) ?aj pfn s)"
      using True by (intro allocate_huge_post [OF s]) (auto simp: alloc_sites_def Let_def)
    then show ?thesis using True by (simp add: allocate_locked_def Let_def)
  next
    case h: False
    show ?thesis
    proof (cases "table_search_start below_value (int order) ?tj")
      case (Inl st)
      then have "st = STATUS_INSUFFICIENT_MEMORY"
        by (auto simp: table_search_start_def Let_def split: if_splits)
      then show ?thesis using fail h Inl by (simp add: allocate_locked_def Let_def)
    next
      case (Inr start)
      show ?thesis
      proof (cases "5 \<le> order")
        case True
        let ?start = "normal_table_search_start start (2 ^ (order - 5)) ?tj"
        have "alloc_post owner order pfn ?C ?F s (allocate_normal_loop alloc owner order ?start ?tj pfn
            (for_down (round_start limit ?aj) ?aj) s)"
          using True h ilt Inr by (intro allocate_normal_post [OF s]) (auto simp: alloc_sites_def Let_def)
        then show ?thesis using True h Inr fail by (auto simp: allocate_locked_def Let_def)
      next
        case False
        show ?thesis
        proof (cases "start < 0 \<or> start \<ge> int ALLOC_TABLE_ENTRY_COUNT")
          case True
          then show ?thesis using False h Inr fail by (simp add: allocate_locked_def Let_def)
        next
          case st: False
          have "alloc_post owner order pfn ?C ?F s (allocate_small_loop alloc owner order align_order
              (nat start) ?tj pfn (for_down (round_start limit ?aj) ?aj) s)"
            using False h ilt Inr st a
            by (intro allocate_small_post [OF s]) (auto simp: alloc_sites_def Let_def pmm_consts)
          then show ?thesis using False h Inr st by (auto simp: allocate_locked_def Let_def)
        qed
      qed
    qed
  qed
qed

lemma atpa_search_limit_range:
  "atpa_search_limit below_value order = Inr limit \<Longrightarrow> 0 < limit \<and> limit \<le> 4096"
  by (auto simp: atpa_search_limit_def Let_def pmm_consts ALIGN_DIV_def ATPA_INDEX_LIMIT_1M_def
      ATPA_INDEX_LIMIT_16M_def ATPA_INDEX_LIMIT_4G_def split: if_splits)

lemma atpa_search_limit_error:
  "atpa_search_limit below_value order = Inl st \<Longrightarrow> st \<noteq> STATUS_SUCCESS"
  by (auto simp: atpa_search_limit_def Let_def split: if_splits)

lemma unchanged_depth:
  "unchanged (s\<lparr>preemption_depth := d\<rparr>) s' \<Longrightarrow> unchanged s (s'\<lparr>preemption_depth := preemption_depth s\<rparr>)"
  by (simp add: unchanged_def same_rest_def mgmt_le_def)

lemma allocated_depth:
  "allocated owner order p (s\<lparr>preemption_depth := d\<rparr>) s'
     \<Longrightarrow> allocated owner order p s (s'\<lparr>preemption_depth := preemption_depth s\<rparr>)"
  by (cases owner) (simp_all add: allocated_def same_config_def free_set_def mgmt_le_def)

lemma with_preemption_post:
  assumes d: "preemption_depth s \<noteq> 0xFFFFFFFF"
    and f: "\<And>d. alloc_post owner order pfn C F (s\<lparr>preemption_depth := d\<rparr>) (f (s\<lparr>preemption_depth := d\<rparr>))"
  shows "alloc_post owner order pfn C F s (with_preemption_locked f s)"
proof -
  let ?d = "preemption_depth s + 1"
  have l: "StThread_LockPreemption (preemption_depth s) = Returned ?d"
    using d by (simp add: StThread_LockPreemption_def)
  obtain s' st q where r: "f (s\<lparr>preemption_depth := ?d\<rparr>) = Returned (s', st, q)" "pmm_wf s'"
    "st = STATUS_SUCCESS \<and> q \<in> C \<and> allocated owner order q (s\<lparr>preemption_depth := ?d\<rparr>) s' \<or>
     st \<in> F \<and> q = pfn \<and> unchanged (s\<lparr>preemption_depth := ?d\<rparr>) s'"
    using f [of ?d] unfolding alloc_post_def by blast
  have "preemption_depth s' = ?d"
    using r(3) by (auto simp: allocated_def unchanged_def same_config_def same_rest_def)
  then have "with_preemption_locked f s = Returned (s'\<lparr>preemption_depth := preemption_depth s\<rparr>, st, q)"
    using r(1) by (simp add: with_preemption_locked_def l lock_unlock [OF l] del: lock_unlock)
  then show ?thesis
    using r(2,3) unchanged_depth allocated_depth unfolding alloc_post_def by fastforce
qed

text \<open>The frames a request may be served with, and the statuses of a request that is not served.\<close>

definition request_sites :: "nat \<Rightarrow> uint32_t \<Rightarrow> nat set" where
  "request_sites count alloc_flags =
     {q. \<exists>limit. atpa_search_limit (alloc_flags AND AF_PMM_BELOW_MASK) (get_order count) = Inr limit \<and>
        q \<in> alloc_sites (nat (get_order count)) (nat (request_align_order alloc_flags (get_order count)))
              (alloc_flags AND AF_PMM_BELOW_MASK) limit}"

lemma allocate_body_post:
  assumes s: "alloc_ready s" and d: "preemption_depth s \<noteq> 0xFFFFFFFF"
    and a: "5 \<le> get_order count \<or> request_align_order alloc_flags (get_order count) \<le> 5"
  shows "alloc_post owner (nat (get_order count)) pfn (request_sites count alloc_flags)
    (if 0 \<le> get_order count \<and> get_order count < 5 then UNIV else UNIV - {STATUS_SUCCESS}) s
    (allocate_body alloc s pfn count owner alloc_flags)"
    (is "alloc_post _ ?o _ ?C ?F _ _")
proof -
  let ?b = "alloc_flags AND AF_PMM_BELOW_MASK"
  let ?a = "request_align_order alloc_flags (get_order count)"
  have wf: "pmm_wf s" and av: "allocation_available s" using s by (auto simp: alloc_ready_def)
  have fail: "alloc_post owner ?o pfn ?C ?F s (Returned (s, st, pfn))" if "st \<noteq> STATUS_SUCCESS" for st
    using wf that by (auto simp: alloc_post_def)
  show ?thesis
  proof (cases "get_order count < 0 \<or> get_order count > int PMM_MAX_ORDER \<or> ?a > int PMM_MAX_ORDER \<or>
      (case owner of None \<Rightarrow> False | Some n \<Rightarrow> StAllocationOwner_IsClosed (owners s n))")
    case True
    then have "\<exists>st. st \<noteq> STATUS_SUCCESS \<and> allocate_body alloc s pfn count owner alloc_flags = Returned (s, st, pfn)"
      using av by (auto simp: allocate_body_def Let_def)
    then show ?thesis using fail by (elim exE conjE) (simp only:)
  next
    case ok: False
    show ?thesis
    proof (cases "atpa_search_limit ?b (get_order count)")
      case (Inl st)
      then show ?thesis
        using fail [OF atpa_search_limit_error [OF Inl]] ok av by (simp add: allocate_body_def Let_def)
    next
      case (Inr limit)
      have l: "0 < limit" "limit \<le> 4096" using atpa_search_limit_range [OF Inr] by auto
      have al: "nat (get_order count) \<le> nat ?a" "5 \<le> nat (get_order count) \<or> nat ?a \<le> 5"
        using a by (auto simp: request_align_order_def Let_def)
      have C: "alloc_sites ?o (nat ?a) ?b limit \<subseteq> ?C" using Inr by (auto simp: request_sites_def)
      have "alloc_post owner ?o pfn ?C ?F s
          (with_preemption_locked (allocate_locked alloc owner ?o (nat ?a) ?b limit pfn) s)"
      proof (rule with_preemption_post [OF d])
        fix d
        have s': "alloc_ready (s\<lparr>preemption_depth := d\<rparr>)"
          using s by (simp add: alloc_ready_def ample_def md_ok_def md_accessible_def)
        have F: "(if ?o < 5 then UNIV else UNIV - {STATUS_SUCCESS}) = ?F" using ok by auto
        show "alloc_post owner ?o pfn ?C ?F (s\<lparr>preemption_depth := d\<rparr>)
            (allocate_locked alloc owner ?o (nat ?a) ?b limit pfn (s\<lparr>preemption_depth := d\<rparr>))"
          by (rule alloc_post_mono [OF allocate_locked_post [OF s' al l, unfolded F] C])
      qed
      then show ?thesis using ok av Inr by (simp add: allocate_body_def Let_def)
    qed
  qed
qed

lemma allocate_eq_body:
  "StPmm_AllocateContiguousFrame pfn count owner alloc_flags s =
     allocate_body (\<lambda>s pfn count flags. allocate_fuel 2 s pfn count None flags) s pfn count owner alloc_flags"
  unfolding StPmm_AllocateContiguousFrame_def ALLOCATE_NESTING_def
  by (simp only: numeral_3_eq_3 numeral_2_eq_2 allocate_fuel.simps(2) [of "Suc (Suc 0)"])

lemma allocated_counts:
  assumes "allocated owner order p s s'" "counts_ok s"
  shows "counts_ok s'"
proof (rule counts_remove [OF assms(2)])
  show "free_set s' = free_set s - block p order"
    using assms(1) by (auto simp: allocated_def free_set_def)
qed (use assms(1) in \<open>auto simp: allocated_def\<close>)

lemma allocated_md_ok:
  assumes "allocated owner order p s s'" "md_ok s"
  shows "md_ok s'"
proof -
  have "frame_state s f \<noteq> Unusable" if "frame_state s' f \<noteq> Unusable" for f
    using that assms(1) by (auto simp: allocated_def free_set_def split: if_splits)
  then show ?thesis using assms by (auto simp: md_ok_def allocated_def same_config_def md_accessible_def)
qed


lemma unchanged_counts: "unchanged s s' \<Longrightarrow> counts_ok s' = counts_ok s"
  by (simp add: counts_ok_def unchanged_def same_rest_def free_set_def)

lemma alloc_postE:
  assumes "alloc_post owner order pfn C F s r" "md_ok s"
  obtains s' st q where "r = Returned (s', st, q)" "pmm_wf s'" "md_ok s'" "counts_ok s \<Longrightarrow> counts_ok s'"
    "st = STATUS_SUCCESS \<and> q \<in> C \<and> allocated owner order q s s' \<or> st \<in> F \<and> q = pfn \<and> unchanged s s'"
proof -
  obtain s' st q where r: "r = Returned (s', st, q)" "pmm_wf s'"
    "st = STATUS_SUCCESS \<and> q \<in> C \<and> allocated owner order q s s' \<or> st \<in> F \<and> q = pfn \<and> unchanged s s'"
    using assms(1) unfolding alloc_post_def by (elim exE conjE)
  have "md_ok s'" using r(3) allocated_md_ok unchanged_md_ok assms(2) by blast
  moreover have "counts_ok s'" if "counts_ok s" using r(3) allocated_counts unchanged_counts that by blast
  ultimately show thesis using that r by simp
qed

end
