(* ===== verification/Pmm_Free.thy ===== *)
theory Pmm_Free
  imports Pmm_Alloc_Safe
begin

text \<open>
  The release of frames: \<^verbatim>\<open>do_free_contiguous_frame\<close>, the reference count of a block, and the metadata
  lock (\<^verbatim>\<open>strata/mm/pmm.c\<close>). A loop that checks and clears one slot at a time and panics on a bad one
  is a check of all slots followed by the update: a panic leaves no state to observe.
\<close>

section \<open>Definitions\<close>

text \<open>Dropping a table all of whose entries are free.\<close>

definition drop_free_table :: "nat \<Rightarrow> table_ptr \<Rightarrow> pmm \<Rightarrow> pmm" where
  "drop_free_table table_idx t s =
     (if alloc_table_is_all_free t s then
        let s = s\<lparr>atpa := (atpa s)(table_idx := ATPA_FREE)\<rparr>
        in if is_dynamic_alloc_table t then push_dynamic_alloc_table t s else s
      else s)"

definition free_huge :: "nat \<Rightarrow> nat \<Rightarrow> pmm \<Rightarrow> pmm outcome" where
  "free_huge table_idx order s =
     (let slots_needed = 2 ^ (order - 14) in
      if table_idx + slots_needed > ALLOC_TABLE_PTR_ARRAY_SIZE then Panicked STATUS_INVALID_VALUE
      else if \<not> list_all (\<lambda>i. atpa s (table_idx + i) = ATPA_HUGE_ALLOC) [0..<slots_needed]
      then Panicked STATUS_INVALID_VALUE
      else Returned (s\<lparr>atpa := fill_range (atpa s) table_idx slots_needed ATPA_FREE,
                       free_frames := free_frames s + push_bit order 1\<rparr>))"

definition free_normal :: "nat \<Rightarrow> table_ptr \<Rightarrow> nat \<Rightarrow> nat \<Rightarrow> pmm \<Rightarrow> pmm outcome" where
  "free_normal table_idx t entry_idx order s =
     (let entries_needed = 2 ^ (order - 5) in
      if entry_idx + entries_needed > ALLOC_TABLE_ENTRY_COUNT then Panicked STATUS_INVALID_VALUE
      else if \<not> list_all (\<lambda>i. tables s t (entry_idx + i) = ENT_BITMAP ALLOCENT_BMP_FULL_ALLOC)
                  [0..<entries_needed]
      then Panicked STATUS_INVALID_VALUE
      else let s = s\<lparr>tables := (tables s)(t :=
                       fill_range (tables s t) entry_idx entries_needed (ENT_BITMAP ALLOCENT_BMP_FREE)),
                     free_frames := free_frames s + push_bit order 1\<rparr>;
               s = atpa_hint_set table_idx order s
           in Returned (drop_free_table table_idx t s))"

text \<open>The pointer read from an all-ones entry points to no extended entry.\<close>

definition free_slots :: "table_ptr \<Rightarrow> nat \<Rightarrow> nat \<Rightarrow> nat \<Rightarrow> pmm \<Rightarrow> pmm outcome" where
  "free_slots t entry_idx slot_idx order s =
     (let slots_needed = 2 ^ order in
      case tables s t entry_idx of
        ENT_BITMAP b \<Rightarrow>
          Returned (s\<lparr>tables := (tables s)(t := (tables s t)(entry_idx :=
                         ENT_BITMAP (free_to_bitmap_entry b slot_idx order)))\<rparr>)
      | ENT_EXT_UNUSABLE \<Rightarrow>
          if slot_idx + slots_needed > PAGES_PER_ALLOCTABLE_ENTRY then Panicked STATUS_INVALID_VALUE
          else Undefined
      | ENT_EXT e \<Rightarrow>
          if slot_idx + slots_needed > PAGES_PER_ALLOCTABLE_ENTRY then Panicked STATUS_INVALID_VALUE
          else if \<not> list_all (\<lambda>i. extentries s e (slot_idx + i) = EE_USED) [0..<slots_needed]
          then Panicked STATUS_INVALID_VALUE
          else Returned (s\<lparr>extentries := (extentries s)(e :=
                             fill_range (extentries s e) slot_idx slots_needed EE_FREE)\<rparr>))"

definition free_small :: "nat \<Rightarrow> table_ptr \<Rightarrow> nat \<Rightarrow> nat \<Rightarrow> nat \<Rightarrow> pmm \<Rightarrow> pmm outcome" where
  "free_small table_idx t entry_idx slot_idx order s =
     obind (free_slots t entry_idx slot_idx order s) (\<lambda>s.
       let s = atpa_hint_set table_idx order s;
           s = s\<lparr>free_frames := free_frames s + push_bit order 1\<rparr>
       in Returned (drop_free_table table_idx t s))"

text \<open>Reading the pointer array beyond its end is undefined, as is shifting by 64 or more.\<close>

definition do_free_contiguous_frame :: "nat \<Rightarrow> nat \<Rightarrow> pmm \<Rightarrow> pmm outcome" where
  "do_free_contiguous_frame pfn order s =
     (let table_idx = pfn div ALLOC_TABLE_COVERAGE_PAGES;
          entry_idx = (pfn mod ALLOC_TABLE_COVERAGE_PAGES) div ALLOCENT_COVERAGE_PAGES;
          slot_idx = pfn mod ALLOCENT_COVERAGE_PAGES
      in if order \<ge> 64 then Undefined
         else if order \<ge> 14 then free_huge table_idx order s
         else if table_idx \<ge> ALLOC_TABLE_PTR_ARRAY_SIZE then Undefined
         else case atpa s table_idx of
             ATPA_FREE \<Rightarrow> Panicked STATUS_CONFLICTING_STATE
           | ATPA_UNUSABLE \<Rightarrow> Panicked STATUS_CONFLICTING_STATE
           | ATPA_HUGE_ALLOC \<Rightarrow> Undefined
           | ATPA_PTR t _ \<Rightarrow>
               if t = WildTable then Undefined
               else if order \<ge> 5 then free_normal table_idx t entry_idx order s
               else free_small table_idx t entry_idx slot_idx order s)"

definition StPmm_AcquireContiguousFrame :: "nat \<Rightarrow> pmm \<Rightarrow> (pmm \<times> StStatus) outcome" where
  "StPmm_AcquireContiguousFrame pfn s =
     (if \<not> md_accessible s pfn then Undefined
      else Returned
        (s\<lparr>metadata := (metadata s)(pfn := (metadata s pfn)\<lparr>md_refcount := md_refcount (metadata s pfn) + 1\<rparr>)\<rparr>,
         STATUS_SUCCESS))"

text \<open>The owner's share of a release: the usage goes down, not below zero, and the reference is
  dropped.\<close>

definition discharge_owner :: "nat \<Rightarrow> StAllocationOwner \<Rightarrow> StAllocationOwner" where
  "discharge_owner order ow =
     (let allocated_count = push_bit order 1
      in StAllocationOwner_Release
           (if page_usage_count ow \<ge> allocated_count
            then ow\<lparr>page_usage_count := page_usage_count ow - allocated_count\<rparr>
            else ow\<lparr>page_usage_count := 0\<rparr>))"

definition release_owner :: "nat \<Rightarrow> pmm \<Rightarrow> pmm" where
  "release_owner pfn s =
     (case md_owner (metadata s pfn) of
        None \<Rightarrow> s
      | Some n \<Rightarrow>
          s\<lparr>owners := (owners s)(n := discharge_owner (unat (md_order (metadata s pfn))) (owners s n)),
            metadata := (metadata s)(pfn := (metadata s pfn)\<lparr>md_owner := None\<rparr>)\<rparr>)"

definition StPmm_FreeContiguousFrame :: "nat \<Rightarrow> pmm \<Rightarrow> pmm outcome" where
  "StPmm_FreeContiguousFrame pfn s =
     (if \<not> md_accessible s pfn then Undefined
      else let prev_refcount = md_refcount (metadata s pfn);
               s = s\<lparr>metadata := (metadata s)(pfn := (metadata s pfn)\<lparr>md_refcount := prev_refcount - 1\<rparr>)\<rparr>
           in if prev_refcount > 1 then Returned s
              else if prev_refcount = 0 then Panicked STATUS_CONFLICTING_STATE
              else obind
                (with_preemption_locked (\<lambda>s.
                   let s = release_owner pfn s in
                   obind (do_free_contiguous_frame pfn (unat (md_order (metadata s pfn))) s)
                     (\<lambda>s. Returned (s, ()))) s)
                (\<lambda>(s, _). Returned s))"

text \<open>One round of the compare-and-exchange loop of \<^verbatim>\<open>StPmm_LockAndGetAllocMetadata\<close>: \<open>None\<close> means that the
  lock is held and the loop goes round again. The locked reference is the frame number.\<close>

definition StPmm_GetAllocMetadata :: "nat \<Rightarrow> pmm \<Rightarrow> StStatus \<times> nat" where
  "StPmm_GetAllocMetadata pfn s = (STATUS_SUCCESS, pfn)"

definition StPmm_LockAndGetAllocMetadata :: "nat \<Rightarrow> pmm \<Rightarrow> (pmm \<times> StStatus \<times> nat) option" where
  "StPmm_LockAndGetAllocMetadata pfn s =
     (if md_lock (metadata s pfn) = 0
      then Some (s\<lparr>metadata := (metadata s)(pfn := (metadata s pfn)\<lparr>md_lock := 1\<rparr>)\<rparr>, STATUS_SUCCESS, pfn)
      else None)"

definition StPmm_UnlockAllocMetadata :: "nat \<Rightarrow> pmm \<Rightarrow> pmm \<times> StStatus" where
  "StPmm_UnlockAllocMetadata meta s =
     (if md_lock (metadata s meta) = 1
      then (s\<lparr>metadata := (metadata s)(meta := (metadata s meta)\<lparr>md_lock := 0\<rparr>)\<rparr>, STATUS_SUCCESS)
      else (s, STATUS_SUCCESS))"

definition StPmm_GetTotalFrameCount :: "pmm \<Rightarrow> uint64_t" where
  "StPmm_GetTotalFrameCount s = total_frames s"

definition StPmm_GetFreeFrameCount :: "pmm \<Rightarrow> uint64_t" where
  "StPmm_GetFreeFrameCount s = free_frames s"

end
