(* ===== verification/Pmm_Release.thy ===== *)
theory Pmm_Release
  imports Pmm_Free
begin

text \<open>
  What \<^verbatim>\<open>do_free_contiguous_frame\<close> does to the frame map: a block that is held and holds no management
  object becomes free, every other frame keeps its state and every other held block stays held.
\<close>

section \<open>What stays of the map\<close>

text \<open>A release keeps the shape of the map: a table stays in its slot unless the slot becomes free, and an
  entry stays a bitmap or keeps its extended entry.\<close>

fun same_kind :: "alloc_table_entry \<Rightarrow> alloc_table_entry \<Rightarrow> bool" where
  "same_kind (ENT_BITMAP b) (ENT_BITMAP b') = True"
| "same_kind ent ent' = (ent = ent')"

definition same_shape :: "pmm \<Rightarrow> pmm \<Rightarrow> bool" where
  "same_shape s s' \<longleftrightarrow> (\<forall>i < 4096. atpa s' i = ATPA_FREE \<or>
     (case atpa s i of
        ATPA_PTR t h \<Rightarrow> (\<exists>h'. atpa s' i = ATPA_PTR t h') \<and> (\<forall>e < 512. same_kind (tables s t e) (tables s' t e))
      | a \<Rightarrow> atpa s' i = a))"

lemma same_kind_refl [simp]: "same_kind ent ent" by (cases ent) auto

lemma same_kind_trans: "same_kind a b \<Longrightarrow> same_kind b c \<Longrightarrow> same_kind a c"
  by (cases a; cases b; cases c) auto

lemma same_kind_ext [simp]: "same_kind (ENT_EXT x) ent \<longleftrightarrow> ent = ENT_EXT x"
  by (cases ent) auto

lemma same_kind_bitmap [simp]: "same_kind (ENT_BITMAP b) ent \<longleftrightarrow> (\<exists>b'. ent = ENT_BITMAP b')"
  by (cases ent) auto

lemma same_shape_cong: "atpa s2 = atpa s1 \<Longrightarrow> tables s2 = tables s1 \<Longrightarrow> same_shape s s2 = same_shape s s1"
  by (simp only: same_shape_def)

lemma same_shape_free_frames [simp]: "same_shape s (s'\<lparr>free_frames := n\<rparr>) = same_shape s s'"
  by (rule same_shape_cong) simp_all

lemma room_below: "j + 2 ^ k \<le> n \<Longrightarrow> j < (n::nat)"
  by (meson le_less_trans less_add_same_cancel1 less_le_trans zero_less_numeral zero_less_power)

lemma same_shape_ptr:
  assumes "same_shape s s'" "i < 4096" "atpa s i = ATPA_PTR t h" "atpa s' i \<noteq> ATPA_FREE"
  obtains h' where "atpa s' i = ATPA_PTR t h'" "\<And>e. e < 512 \<Longrightarrow> same_kind (tables s t e) (tables s' t e)"
  using assms unfolding same_shape_def by fastforce

lemma held_frames_used:
  assumes "held s p order" "f \<in> block p order"
  shows "frame_state s f = Used"
proof -
  have full: "bit ALLOCENT_BMP_FULL_ALLOC q" if "q < 32" for q
    using that pages_of_encodes [OF encodes_full] by (auto simp: pages_of_def)
  consider "14 \<le> order" | "5 \<le> order" "order < 14" | "order < 5" by linarith
  then show ?thesis
  proof cases
    case 1
    then obtain i where i: "p = i * 16384" "i + 2 ^ (order - 14) \<le> 4096"
      "\<forall>k. i \<le> k \<longrightarrow> k < i + 2 ^ (order - 14) \<longrightarrow> atpa s k = ATPA_HUGE_ALLOC"
      using assms(1) by (auto simp: held_def held_huge_def)
    then have "i \<le> table_of f" "table_of f < i + 2 ^ (order - 14)" using assms(2) block_huge [OF 1] by auto
    then show ?thesis using i by (simp add: frame_state_def)
  next
    case 2
    then obtain i j t h where i: "p = i * 16384 + j * 32" "i < 4096" "j + 2 ^ (order - 5) \<le> 512" "atpa s i = ATPA_PTR t h"
      "\<forall>e. j \<le> e \<longrightarrow> e < j + 2 ^ (order - 5) \<longrightarrow> tables s t e = ENT_BITMAP ALLOCENT_BMP_FULL_ALLOC"
      using assms(1) by (auto simp: held_def held_normal_def)
    then have "table_of f = i" "j \<le> entry_of f" "entry_of f < j + 2 ^ (order - 5)"
      using assms(2) block_normal [OF 2(1) i(3)] by auto
    then show ?thesis using i full by (simp add: frame_state_def)
  next
    case 3
    then obtain i j k t h where i: "p = i * 16384 + j * 32 + k" "i < 4096" "j < 512" "k + 2 ^ order \<le> 32"
      "atpa s i = ATPA_PTR t h" "slots_held s (tables s t j) k order"
      using assms(1) by (auto simp: held_def held_small_def)
    then have "table_of f = i" "entry_of f = j" "k \<le> page_of f" "page_of f < k + 2 ^ order"
      using assms(2) block_small [OF i(3,4)] by auto
    then show ?thesis using i by (auto simp: frame_state_def slots_held_def split: alloc_table_entry.splits)
  qed
qed

lemma held_table:
  assumes "held s p order" "order < 14"
  shows "\<exists>t h. atpa s (table_of p) = ATPA_PTR t h"
proof (cases "5 \<le> order")
  case True
  then obtain i j t h where i: "p = i * 16384 + j * 32" "j + 2 ^ (order - 5) \<le> 512" "atpa s i = ATPA_PTR t h"
    using assms by (auto simp: held_def held_normal_def)
  then show ?thesis using frame_at_parts(1) [OF room_below [OF i(2)], of 0 i] by (auto simp: frame_at_def)
next
  case False
  then obtain i j k t h where i: "p = i * 16384 + j * 32 + k" "j < 512" "k + 2 ^ order \<le> 32" "atpa s i = ATPA_PTR t h"
    using assms by (auto simp: held_def held_small_def)
  then show ?thesis using frame_at_parts(1) [OF i(2) room_below [OF i(3)], of i] by (auto simp: frame_at_def)
qed

lemma used_bitmap_full:
  assumes "bmp_wf b" "\<And>p. p < 32 \<Longrightarrow> bit b p"
  shows "b = ALLOCENT_BMP_FULL_ALLOC"
proof -
  have "pages_of b = {..<32}" using assms(2) by (auto simp: pages_of_def)
  then show ?thesis using encodes_unique [OF _ encodes_full] wf_encodes [OF assms(1)] by simp
qed

text \<open>A block that is held stays so while its frames stay used.\<close>

lemma held_same_shape:
  assumes wf: "pmm_wf s'" and sh: "same_shape s s'" and h: "held s p order"
    and used: "\<And>f. f \<in> block p order \<Longrightarrow> frame_state s' f = Used"
  shows "held s' p order"
proof -
  consider "14 \<le> order" | "5 \<le> order" "order < 14" | "order < 5" by linarith
  then show ?thesis
  proof cases
    case 1
    then obtain i where i: "p = i * 16384" "i + 2 ^ (order - 14) \<le> 4096"
      "\<And>k. i \<le> k \<Longrightarrow> k < i + 2 ^ (order - 14) \<Longrightarrow> atpa s k = ATPA_HUGE_ALLOC"
      using h by (auto simp: held_def held_huge_def)
    have "atpa s' k = ATPA_HUGE_ALLOC" if k: "i \<le> k" "k < i + 2 ^ (order - 14)" for k
    proof -
      have "table_of (k * 16384) = k" by (simp add: table_of_def)
      moreover have "k * 16384 \<in> block p order" using k i(1) block_huge [OF 1, of "k * 16384" i] by (simp add: table_of_def)
      ultimately have "table_state s' (atpa s' k) (entry_of (k * 16384)) (page_of (k * 16384)) = Used"
        using used [of "k * 16384"] k i(2) by (simp add: frame_state_def)
      then have "atpa s' k \<noteq> ATPA_FREE" by auto
      then show ?thesis using sh i(3) [OF k] k i(2) unfolding same_shape_def by (auto dest!: spec [of _ k])
    qed
    then show ?thesis using 1 i by (auto simp: held_def held_huge_def)
  next
    case 2
    then obtain i j t hh where i: "p = i * 16384 + j * 32" "i < 4096" "j + 2 ^ (order - 5) \<le> 512" "atpa s i = ATPA_PTR t hh"
      "\<And>e. j \<le> e \<Longrightarrow> e < j + 2 ^ (order - 5) \<Longrightarrow> tables s t e = ENT_BITMAP ALLOCENT_BMP_FULL_ALLOC"
      using h by (auto simp: held_def held_normal_def)
    have u: "frame_state s' (frame_at i e q) = Used" if "j \<le> e" "e < j + 2 ^ (order - 5)" "q < 32" for e q
      using that i(1,3) by (intro used) (simp add: block_normal [OF 2(1) i(3)])
    have "atpa s' i \<noteq> ATPA_FREE"
      using u [of j 0] i(2) room_below [OF i(3)] by (auto simp: frame_state_def)
    then obtain h' where h': "atpa s' i = ATPA_PTR t h'" "\<And>e. e < 512 \<Longrightarrow> same_kind (tables s t e) (tables s' t e)"
      using same_shape_ptr [OF sh i(2,4)] by blast
    have "tables s' t e = ENT_BITMAP ALLOCENT_BMP_FULL_ALLOC" if e: "j \<le> e" "e < j + 2 ^ (order - 5)" for e
    proof -
      have e5: "e < 512" using e i(3) by simp
      then obtain b where b: "tables s' t e = ENT_BITMAP b" using h'(2) [of e] i(5) [OF e] by auto
      have "bmp_wf b" using wf_bitmap [OF wf, of t e b] b e5 live_tableI [OF h'(1) i(2)] by (simp add: live_entry_def)
      moreover have "bit b q" if "q < 32" for q
        using u [OF e that] that e5 h'(1) i(2) b by (simp add: frame_state_def split: if_splits)
      ultimately show ?thesis using b used_bitmap_full by blast
    qed
    then have "held_normal s' p order" unfolding held_normal_def using i(1-3) h'(1) by blast
    then show ?thesis using 2 by (simp add: held_def)
  next
    case 3
    then obtain i j k t hh where i: "p = i * 16384 + j * 32 + k" "i < 4096" "j < 512" "k + 2 ^ order \<le> 32"
      "atpa s i = ATPA_PTR t hh" "slots_held s (tables s t j) k order"
      using h by (auto simp: held_def held_small_def)
    have u: "frame_state s' (frame_at i j q) = Used" if "k \<le> q" "q < k + 2 ^ order" for q
      using that i(1,3,4) by (intro used) (simp add: block_small [OF i(3,4)])
    have "atpa s' i \<noteq> ATPA_FREE"
      using u [of k] i(2,3) room_below [OF i(4)] by (auto simp: frame_state_def)
    then obtain h' where h': "atpa s' i = ATPA_PTR t h'" "\<And>e. e < 512 \<Longrightarrow> same_kind (tables s t e) (tables s' t e)"
      using same_shape_ptr [OF sh i(2,5)] by blast
    have es: "entry_state s' (tables s' t j) q = Used" if "k \<le> q" "q < k + 2 ^ order" for q
      using u [OF that] that i(2-4) h'(1) by (simp add: frame_state_def)
    have "slots_held s' (tables s' t j) k order"
    proof (cases "tables s t j")
      case (ENT_BITMAP b)
      then show ?thesis using h'(2) [OF i(3)] i(6) es by (fastforce simp: slots_held_def split: if_splits)
    next
      case (ENT_EXT x)
      then have x: "tables s' t j = ENT_EXT x" using h'(2) [OF i(3)] by auto
      have "extentries s' x q = EE_USED" if "k \<le> q" "q < k + 2 ^ order" for q
        using es [OF that] x by (cases "extentries s' x q") simp_all
      then show ?thesis using x by (simp add: slots_held_def)
    qed (use i(6) in \<open>simp add: slots_held_def\<close>)
    then have "held_small s' p order" unfolding held_small_def using i(1-4) h'(1) by blast
    then show ?thesis using 3 by (simp add: held_def)
  qed
qed

section \<open>Releasing a block\<close>

definition released :: "nat \<Rightarrow> nat \<Rightarrow> pmm \<Rightarrow> pmm \<Rightarrow> bool" where
  "released order p s s' \<longleftrightarrow> pmm_wf s' \<and> same_shape s s' \<and>
     (\<forall>f. frame_state s' f = (if f \<in> block p order then Free else frame_state s f)) \<and>
     free_frames s' = free_frames s + push_bit order 1 \<and>
     metadata s' = metadata s \<and> owners s' = owners s \<and> same_config s s' \<and>
     get_alloctbl_pool_remaining s \<le> get_alloctbl_pool_remaining s' \<and>
     get_extentry_pool_remaining s \<le> get_extentry_pool_remaining s' \<and> mgmt_le s s'"

lemma released_held:
  assumes "released order p s s'" "held s q order'" "block q order' \<inter> block p order = {}"
  shows "held s' q order'"
proof (rule held_same_shape [OF _ _ assms(2)])
  show "frame_state s' f = Used" if "f \<in> block q order'" for f
    using that assms held_frames_used [OF assms(2) that] by (auto simp: released_def)
qed (use assms(1) in \<open>auto simp: released_def\<close>)

lemma released_counts:
  assumes "released order p s s'" "held s p order" "counts_ok s"
  shows "counts_ok s'"
proof (rule counts_add [OF assms(3)])
  show "block p order \<inter> free_set s = {}"
    using held_frames_used [OF assms(2)] by (auto simp: free_set_def)
qed (use assms(1) in \<open>auto simp: released_def free_set_def\<close>)

text \<open>Giving an empty table back.\<close>

lemma drop_free_table_released:
  assumes wf: "pmm_wf s" and i: "i < 4096" "atpa s i = ATPA_PTR t h"
  shows "pmm_wf (drop_free_table i t s)" "frame_state (drop_free_table i t s) = frame_state s"
    "same_rest s (drop_free_table i t s)" "same_shape s (drop_free_table i t s)"
    "get_alloctbl_pool_remaining s \<le> get_alloctbl_pool_remaining (drop_free_table i t s)"
    "get_extentry_pool_remaining s \<le> get_extentry_pool_remaining (drop_free_table i t s)"
    "mgmt_le s (drop_free_table i t s)"
proof -
  let ?s = "s\<lparr>atpa := (atpa s)(i := ATPA_FREE)\<rparr>"
  have fs: "frame_state (push_dynamic_alloc_table t s) = frame_state s" for s
    by (rule frame_state_cong) (simp_all add: push_dynamic_alloc_table_def)
  have "pmm_wf (drop_free_table i t s) \<and> frame_state (drop_free_table i t s) = frame_state s"
  proof (cases "alloc_table_is_all_free t s")
    case True
    then have fr: "\<And>e. e < 512 \<Longrightarrow> tables s t e = ENT_BITMAP ALLOCENT_BMP_FREE"
      by (auto simp: alloc_table_is_all_free_def list_all_iff pmm_consts)
    have st: "frame_state ?s = frame_state s" by (rule drop_table_frame_state [OF i(2) fr])
    have wf': "pmm_wf ?s" by (rule drop_table_wf [OF wf i(2) fr])
    have lt: "live_table s t" by (rule live_tableI [OF i(2,1)])
    have "\<not> live_table ?s t"
      using wf_table_inj [OF wf _ i(1) _ i(2)] by (auto simp: live_table_def)
    moreover have "t \<notin> set (dynamic_alloctbl_freelist ?s)" "table_slot_ok ?s t"
      using wf lt st by (auto simp: pmm_wf_def tables_wf_def table_slot_ok_def split: table_ptr.splits)
    ultimately have "pmm_wf (push_dynamic_alloc_table t ?s)" by (rule push_table_wf [OF wf'])
    then show ?thesis using True wf' st by (simp add: drop_free_table_def Let_def fs)
  qed (simp add: drop_free_table_def wf)
  then show "pmm_wf (drop_free_table i t s)" "frame_state (drop_free_table i t s) = frame_state s" by auto
  show "same_rest s (drop_free_table i t s)"
    by (simp add: drop_free_table_def same_rest_def push_dynamic_alloc_table_def Let_def)
  show "same_shape s (drop_free_table i t s)"
    by (auto simp: drop_free_table_def same_shape_def push_dynamic_alloc_table_def Let_def split: atpa_entry.splits)
  show "get_alloctbl_pool_remaining s \<le> get_alloctbl_pool_remaining (drop_free_table i t s)"
    "get_extentry_pool_remaining s \<le> get_extentry_pool_remaining (drop_free_table i t s)"
    by (auto simp: drop_free_table_def push_dynamic_alloc_table_def Let_def
        get_alloctbl_pool_remaining_def get_extentry_pool_remaining_def)
  have "mgmt_le s ?s" by (rule mgmt_le_shrink) (auto split: if_splits)
  moreover have "mgmt_le s (push_dynamic_alloc_table t ?s)"
  proof -
    have "mgmt_frame (push_dynamic_alloc_table t ?s) f \<longleftrightarrow> mgmt_frame ?s f \<or> t = DynTable f" for f
      by (auto simp: mgmt_frame_def push_dynamic_alloc_table_def live_entry_def live_table_def)
    then show ?thesis
      using \<open>mgmt_le s ?s\<close> live_tableI [OF i(2,1)] by (auto simp: mgmt_le_def mgmt_frame_def)
  qed
  ultimately show "mgmt_le s (drop_free_table i t s)" by (simp add: drop_free_table_def Let_def)
qed

text \<open>The three ways to release.\<close>

definition client_block :: "pmm \<Rightarrow> nat \<Rightarrow> nat \<Rightarrow> bool" where
  "client_block s p order \<longleftrightarrow> held s p order \<and> (\<forall>f \<in> block p order. \<not> mgmt_frame s f)"

lemma mgmt_kept:
  assumes "pmm_wf s" "\<And>f. frame_state s' f = (if f \<in> B then Free else frame_state s f)"
    and "\<forall>f \<in> B. \<not> mgmt_frame s f" "mgmt_frame s f"
  shows "frame_state s' f = Used"
  using assms mgmt_frame_Used by auto

lemma free_huge_released:
  assumes wf: "pmm_wf s" and c: "client_block s (i * 16384) order" and o: "14 \<le> order"
  shows "\<exists>s'. free_huge i order s = Returned s' \<and> released order (i * 16384) s s'"
proof -
  let ?a = "fill_range (atpa s) i (2 ^ (order - 14)) ATPA_FREE"
  let ?s = "s\<lparr>atpa := ?a\<rparr>"
  let ?B = "block (i * 16384) order"
  have n: "i + 2 ^ (order - 14) \<le> 4096"
    and h: "\<And>k. i \<le> k \<Longrightarrow> k < i + 2 ^ (order - 14) \<Longrightarrow> atpa s k = ATPA_HUGE_ALLOC"
    using c o by (auto simp: client_block_def held_def held_huge_def)
  have fs: "frame_state ?s f = (if f \<in> ?B then Free else frame_state s f)" for f
    using n unfolding frame_state_atpa_update frame_state_def [of s] by (auto simp: block_huge [OF o] fill_range_def)
  have "pmm_wf ?s"
    by (rule wf_atpa_update [OF wf])
      (use mgmt_kept [OF wf fs] c in \<open>auto simp: fill_range_def client_block_def split: if_splits\<close>)
  moreover have "same_shape s ?s"
    by (auto simp: same_shape_def fill_range_def split: atpa_entry.splits)
  moreover have "mgmt_le s ?s" by (rule mgmt_le_shrink) (auto simp: fill_range_def split: if_splits)
  ultimately have "released order (i * 16384) s (?s\<lparr>free_frames := free_frames s + push_bit order 1\<rparr>)"
    using fs by (simp add: released_def same_config_def mgmt_le_def)
  then show ?thesis using n h by (simp add: free_huge_def Let_def list_all_iff pmm_consts)
qed

text \<open>The steps after the entries have been cleared are the same for both other cases.\<close>

lemma released_finish:
  assumes i: "i < 4096" "atpa s1 i = ATPA_PTR t h"
    and s1: "pmm_wf s1" "same_shape s s1" "\<And>f. frame_state s1 f = (if f \<in> block p order then Free else frame_state s f)"
      "same_rest s (s1\<lparr>free_frames := free_frames s\<rparr>)" "free_frames s1 = free_frames s + push_bit order 1"
      "get_alloctbl_pool_remaining s1 = get_alloctbl_pool_remaining s"
      "get_extentry_pool_remaining s1 = get_extentry_pool_remaining s" "mgmt_le s s1"
  shows "released order p s (drop_free_table i t (atpa_hint_set i order s1))"
proof -
  let ?h = "atpa_hint_set i order s1"
  have a: "atpa ?h i = ATPA_PTR t (ATPA_ORDER_BMP_SET h order)" using i(2) by (simp add: atpa_hint_set_def)
  note d = drop_free_table_released [OF hint_set_wf [OF s1(1)] i(1) a]
  have "same_shape s1 ?h" using i(2) by (auto simp: same_shape_def atpa_hint_set_def split: atpa_entry.splits)
  moreover have "same_shape a c" if "same_shape a b" "same_shape b c" for a b c
    using that unfolding same_shape_def by (fastforce split: atpa_entry.splits intro: same_kind_trans)
  ultimately have "same_shape s (drop_free_table i t ?h)" using s1(2) d(4) by meson
  moreover have "mgmt_le s1 ?h" using i(2) by (auto simp: atpa_hint_set_def intro: mgmt_le_hint split: atpa_entry.splits)
  then have "mgmt_le s (drop_free_table i t ?h)" using s1(8) d(7) mgmt_le_trans by blast
  moreover have "same_rest s1 ?h" "get_alloctbl_pool_remaining ?h = get_alloctbl_pool_remaining s1"
    "get_extentry_pool_remaining ?h = get_extentry_pool_remaining s1"
    using i(2) by (auto simp: atpa_hint_set_def same_rest_def)
  ultimately show ?thesis using d s1 by (auto simp: released_def same_rest_def same_config_def)
qed

lemma free_normal_released:
  assumes wf: "pmm_wf s" and i: "i < 4096" "atpa s i = ATPA_PTR t h" and o: "5 \<le> order" "order < 14"
    and c: "client_block s (i * 16384 + j * 32) order" and j: "j < 512"
  shows "\<exists>s'. free_normal i t j order s = Returned s' \<and> released order (i * 16384 + j * 32) s s'"
proof -
  obtain i' j' t' h' where "i * 16384 + j * 32 = i' * 16384 + j' * 32" "i' < 4096" and n': "j' + 2 ^ (order - 5) \<le> 512"
    and f': "atpa s i' = ATPA_PTR t' h'"
      "\<And>e. j' \<le> e \<Longrightarrow> e < j' + 2 ^ (order - 5) \<Longrightarrow> tables s t' e = ENT_BITMAP ALLOCENT_BMP_FULL_ALLOC"
    using c o by (auto simp: client_block_def held_def held_normal_def)
  moreover have "j' < 512" by (rule room_below [OF n'])
  ultimately have e: "i' = i" "j' = j"
    using frame_at_parts [OF j, of 0 i] frame_at_parts [of j' 0 i'] by (auto simp: frame_at_def)
  let ?g = "fill_range (tables s t) j (2 ^ (order - 5)) (ENT_BITMAP ALLOCENT_BMP_FREE)"
  let ?s = "s\<lparr>tables := (tables s)(t := ?g)\<rparr>"
  let ?B = "block (i * 16384 + j * 32) order"
  have n: "j + 2 ^ (order - 5) \<le> 512"
    and fl: "\<And>e. j \<le> e \<Longrightarrow> e < j + 2 ^ (order - 5) \<Longrightarrow> tables s t e = ENT_BITMAP ALLOCENT_BMP_FULL_ALLOC"
    using n' f' e i(2) by auto
  note B = block_normal [OF o(1) n, of _ i]
  have fs: "frame_state ?s f = (if f \<in> ?B then Free else frame_state s f)" for f
    unfolding frame_state_table_update [OF wf i]
    by (auto simp: B fill_range_def ALLOCENT_BMP_FREE_def frame_state_def [of s] i)
  have "pmm_wf ?s"
  proof (rule wf_table_update [OF wf live_tableI [OF i(2,1)]])
    show "bmp_wf b" if "e < 512" "?g e = ENT_BITMAP b" for e b
      using that encodes_wf [OF encodes_free] wf_bitmap [OF wf, of t e b] live_tableI [OF i(2,1)]
      by (auto simp: fill_range_def live_entry_def split: if_splits)
    show "tables s t e = ENT_EXT x" if "e < 512" "?g e = ENT_EXT x" for e x
      using that by (auto simp: fill_range_def split: if_splits)
  qed (use mgmt_kept [OF wf fs] c in \<open>simp add: client_block_def\<close>)
  moreover have "same_shape s ?s"
    using fl by (auto simp: same_shape_def fill_range_def split: atpa_entry.splits)
  moreover have "mgmt_le s ?s" by (rule mgmt_le_shrink) (auto simp: fill_range_def split: if_splits)
  ultimately have "released order (i * 16384 + j * 32) s
      (drop_free_table i t (atpa_hint_set i order (?s\<lparr>free_frames := free_frames s + push_bit order 1\<rparr>)))"
    using fs by (intro released_finish [OF i(1)]) (use i in \<open>simp_all add: same_rest_def mgmt_le_def\<close>)
  then show ?thesis using n fl by (simp add: free_normal_def Let_def list_all_iff pmm_consts)
qed


lemma free_slots_spec:
  assumes wf: "pmm_wf s" and i: "i < 4096" "atpa s i = ATPA_PTR t h" and o: "order < 5" and j: "j < 512"
    and k: "k + 2 ^ order \<le> 32" "slots_held s (tables s t j) k order"
    and m: "\<forall>f \<in> block (i * 16384 + j * 32 + k) order. \<not> mgmt_frame s f"
  shows "\<exists>s'. free_slots t j k order s = Returned s' \<and> pmm_wf s' \<and> same_shape s s' \<and> same_rest s s' \<and> atpa s' = atpa s \<and>
    (\<forall>f. frame_state s' f = (if f \<in> block (i * 16384 + j * 32 + k) order then Free else frame_state s f)) \<and>
    get_alloctbl_pool_remaining s' = get_alloctbl_pool_remaining s \<and>
    get_extentry_pool_remaining s' = get_extentry_pool_remaining s \<and> mgmt_le s s'"
proof (cases "tables s t j")
  case (ENT_BITMAP b)
  let ?b = "free_to_bitmap_entry b k order"
  let ?s = "s\<lparr>tables := (tables s)(t := (tables s t)(j := ENT_BITMAP ?b))\<rparr>"
  note B = block_small [OF j k(1), of _ i]
  have al: "2 ^ order dvd k" using k(2) ENT_BITMAP by (simp add: slots_held_def)
  have lt: "live_table s t" by (rule live_tableI [OF i(2,1)])
  then have "bmp_wf b" using wf_bitmap [OF wf] j ENT_BITMAP by (auto simp: live_entry_def)
  then have en: "encodes ?b (pages_of b - block_pages k order)"
    using o room_below [OF k(1)] by (intro free_encodes [OF wf_encodes]) auto
  have bits: "bit ?b p \<longleftrightarrow> bit b p \<and> \<not> (k \<le> p \<and> p < k + 2 ^ order)" if "p < 32" for p
    using that pages_of_encodes [OF en] block_pages_aligned [OF al that] by (auto simp: pages_of_def)
  have fs: "frame_state ?s f = (if f \<in> block (i * 16384 + j * 32 + k) order then Free else frame_state s f)" for f
    unfolding frame_state_table_update [OF wf i] by (auto simp: B bits frame_state_def [of s] i ENT_BITMAP)
  have "pmm_wf ?s"
  proof (rule wf_table_update [OF wf lt])
    show "bmp_wf b'" if "e < 512" "((tables s t)(j := ENT_BITMAP ?b)) e = ENT_BITMAP b'" for e b'
      using that encodes_wf [OF en] wf_bitmap [OF wf, of t e b'] lt
      by (auto simp: live_entry_def split: if_splits)
  qed (use mgmt_kept [OF wf fs] m in \<open>auto split: if_splits\<close>)
  moreover have "mgmt_le s ?s" by (rule mgmt_le_shrink) (auto split: if_splits)
  ultimately show ?thesis
    using fs ENT_BITMAP by (auto simp: free_slots_def same_shape_def same_rest_def split: atpa_entry.splits)
next
  case (ENT_EXT x)
  let ?s = "s\<lparr>extentries := (extentries s)(x := fill_range (extentries s x) k (2 ^ order) EE_FREE)\<rparr>"
  note B = block_small [OF j k(1), of _ i]
  have fs: "frame_state ?s f = (if f \<in> block (i * 16384 + j * 32 + k) order then Free else frame_state s f)" for f
    unfolding frame_state_ext_update [OF wf i j ENT_EXT] by (auto simp: B fill_range_def frame_state_def [of s] i ENT_EXT)
  have "pmm_wf ?s" by (rule wf_ext_update [OF wf]) (use mgmt_kept [OF wf fs] m in blast)
  moreover have "list_all (\<lambda>p. extentries s x (k + p) = EE_USED) [0..<2 ^ order]"
    using k(2) ENT_EXT by (simp add: slots_held_def list_all_iff)
  ultimately show ?thesis
    using fs ENT_EXT k(1)
    by (auto simp: free_slots_def Let_def pmm_consts same_shape_def same_rest_def mgmt_le_def split: atpa_entry.splits)
qed (use k in \<open>simp add: slots_held_def\<close>)

lemma free_small_released:
  assumes wf: "pmm_wf s" and i: "i < 4096" "atpa s i = ATPA_PTR t h" and o: "order < 5" and j: "j < 512" and k: "k < 32"
    and c: "client_block s (i * 16384 + j * 32 + k) order"
  shows "\<exists>s'. free_small i t j k order s = Returned s' \<and> released order (i * 16384 + j * 32 + k) s s'"
proof -
  obtain i' j' k' t' h' where e': "i * 16384 + j * 32 + k = i' * 16384 + j' * 32 + k'" "i' < 4096" "j' < 512"
    and n': "k' + 2 ^ order \<le> 32" and f': "atpa s i' = ATPA_PTR t' h'" "slots_held s (tables s t' j') k' order"
    using c o by (auto simp: client_block_def held_def held_small_def)
  have "i' = i" "j' = j" "k' = k"
    using frame_at_parts [OF j k, of i] frame_at_parts [OF e'(3) room_below [OF n'], of i'] e'(1) by (auto simp: frame_at_def)
  then have n: "k + 2 ^ order \<le> 32" "slots_held s (tables s t j) k order" using n' f' i(2) by auto
  obtain s1 where s1: "free_slots t j k order s = Returned s1" "pmm_wf s1" "same_shape s s1" "same_rest s s1" "atpa s1 = atpa s"
    "\<And>f. frame_state s1 f = (if f \<in> block (i * 16384 + j * 32 + k) order then Free else frame_state s f)"
    "get_alloctbl_pool_remaining s1 = get_alloctbl_pool_remaining s"
    "get_extentry_pool_remaining s1 = get_extentry_pool_remaining s" "mgmt_le s s1"
    using free_slots_spec [OF wf i o j n] c unfolding client_block_def by blast
  have sw: "(atpa_hint_set i order s1)\<lparr>free_frames := free_frames (atpa_hint_set i order s1) + n\<rparr> =
      atpa_hint_set i order (s1\<lparr>free_frames := free_frames s + n\<rparr>)" for n
    using s1(4,5) i(2) by (simp add: atpa_hint_set_def same_rest_def)
  have "released order (i * 16384 + j * 32 + k) s
      (drop_free_table i t (atpa_hint_set i order (s1\<lparr>free_frames := free_frames s + push_bit order 1\<rparr>)))"
    by (rule released_finish [OF i(1)]) (use s1 i in \<open>simp_all add: same_rest_def mgmt_le_def\<close>)
  then show ?thesis using s1(1) by (simp add: free_small_def Let_def sw)
qed

lemma do_free_released:
  assumes wf: "pmm_wf s" and c: "client_block s p order" and o: "order \<le> 26"
  shows "\<exists>s'. do_free_contiguous_frame p order s = Returned s' \<and> released order p s s'"
proof -
  have d: "p div 16384 = table_of p" "p mod 16384 div 32 = entry_of p" "p mod 32 = page_of p"
    by (simp_all add: table_of_def entry_of_def page_of_def)
  have p: "p = table_of p * 16384 + entry_of p * 32 + page_of p" using frame_parts [of p] by (simp add: frame_at_def)
  have u: "frame_state s p = Used" using c held_frames_used [of s p order p] by (simp add: client_block_def)
  then have i: "table_of p < 4096" by (intro frame_stateD [of s]) simp
  show ?thesis
  proof (cases "14 \<le> order")
    case True
    then obtain i where "p = i * 16384" using c by (auto simp: client_block_def held_def held_huge_def)
    then show ?thesis
      using free_huge_released [OF wf _ True, of "table_of p"] c True o
      by (simp add: do_free_contiguous_frame_def Let_def pmm_consts d table_of_def)
  next
    case False
    then obtain t h where t: "atpa s (table_of p) = ATPA_PTR t h"
      using held_table [of s p order] c by (auto simp: client_block_def not_le)
    have w: "t \<noteq> WildTable" by (rule wf_not_wild [OF wf live_tableI [OF t i]])
    show ?thesis
    proof (cases "5 \<le> order")
      case n: True
      then obtain i j where ij: "p = i * 16384 + j * 32" "j + 2 ^ (order - 5) \<le> 512"
        using c False by (auto simp: client_block_def held_def held_normal_def)
      then have "page_of p = 0" using frame_at_parts(3) [OF room_below [OF ij(2)], of 0 i] by (simp add: frame_at_def)
      then show ?thesis
        using free_normal_released [OF wf i t n _ _ entry_of_less, of p] c False w p i t n
        by (simp add: do_free_contiguous_frame_def Let_def pmm_consts d)
    next
      case s: False
      then show ?thesis
        using free_small_released [OF wf i t _ entry_of_less page_of_less, of order p p] c False w p i t
        by (simp add: do_free_contiguous_frame_def Let_def pmm_consts d)
    qed
  qed
qed

end
