(* ===== verification/Pmm_Alloc_Depth.thy ===== *)
theory Pmm_Alloc_Depth
  imports Pmm_Alloc
begin

text \<open>
  The recursion of \<^verbatim>\<open>StPmm_AllocateContiguousFrame\<close> through the pool top-up ends: the fuel of the model,
  three levels, is never used up, in any state.
\<close>

section \<open>The nesting depth\<close>

text \<open>Each level of nesting sets one of the two top-up flags, which are clear again when the level
  returns: the number of clear flags bounds the depth.\<close>

definition topup_flags :: "pmm \<Rightarrow> bool \<times> bool" where
  "topup_flags s = (is_topping_up_alloctbl_pool s, is_topping_up_extentry_pool s)"

definition clear_flags :: "pmm \<Rightarrow> nat" where
  "clear_flags s = (if is_topping_up_alloctbl_pool s then 0 else 1) + (if is_topping_up_extentry_pool s then 0 else 1)"

definition steady :: "pmm \<Rightarrow> (pmm \<times> 'a) outcome \<Rightarrow> bool" where
  "steady s m \<longleftrightarrow> m \<noteq> OutOfFuel \<and> (\<forall>s' x. m = Returned (s', x) \<longrightarrow> topup_flags s' = topup_flags s)"

lemma steady_Returned [simp]: "steady s (Returned (s', x)) \<longleftrightarrow> topup_flags s' = topup_flags s"
  by (auto simp: steady_def)

lemma steady_stops [simp]: "steady s (Panicked st)" "steady s Undefined"
  by (auto simp: steady_def)

lemma steady_obind:
  assumes "steady s m" "\<And>s' x. m = Returned (s', x) \<Longrightarrow> topup_flags s' = topup_flags s \<Longrightarrow> steady s (f (s', x))"
  shows "steady s (obind m f)"
  using assms by (cases m) (auto simp: steady_def)

lemma steady_cong: "topup_flags s = topup_flags s' \<Longrightarrow> steady s m = steady s' m"
  by (simp add: steady_def)

lemma topup_flags_fields [simp]:
  "topup_flags (s\<lparr>atpa := a\<rparr>) = topup_flags s" "topup_flags (s\<lparr>tables := b\<rparr>) = topup_flags s"
  "topup_flags (s\<lparr>extentries := c\<rparr>) = topup_flags s" "topup_flags (s\<lparr>free_frames := d\<rparr>) = topup_flags s"
  "topup_flags (s\<lparr>metadata := e\<rparr>) = topup_flags s" "topup_flags (s\<lparr>owners := g\<rparr>) = topup_flags s"
  "topup_flags (s\<lparr>preemption_depth := h\<rparr>) = topup_flags s"
  by (simp_all add: topup_flags_def)

lemma push_fold_flags:
  "topup_flags (fold (\<lambda>i. push_dynamic_extentry (DynExt p i)) xs s) = topup_flags s"
  by (induction xs arbitrary: s) (auto simp: push_dynamic_extentry_def topup_flags_def)

lemma hint_clr_flags [simp]: "topup_flags (atpa_hint_clr i ord s) = topup_flags s"
  by (simp add: atpa_hint_clr_def split: atpa_entry.split)

definition nests :: "nat \<Rightarrow> allocator \<Rightarrow> bool" where
  "nests k alloc \<longleftrightarrow> (\<forall>s pfn count flags. clear_flags s < k \<longrightarrow> steady s (alloc s pfn count flags))"

lemma topup_steady:
  assumes a: "nests k alloc" "clear_flags s \<le> k"
  shows "steady s (topup_alloc_table_pool alloc s)" "steady s (topup_extentry_pool alloc s)"
proof -
  show "steady s (topup_alloc_table_pool alloc s)"
  proof (cases "\<not> allocation_available s \<or> is_topping_up_alloctbl_pool s")
    case False
    let ?s = "s\<lparr>is_topping_up_alloctbl_pool := True\<rparr>"
    have "steady ?s (alloc ?s INVALID_PFN 1 AF_DEFAULT)"
      using a False unfolding nests_def by (auto simp: clear_flags_def split: if_splits)
    then show ?thesis
      using False
      by (cases "alloc ?s INVALID_PFN 1 AF_DEFAULT")
        (auto simp: topup_alloc_table_pool_def steady_def topup_flags_def push_dynamic_alloc_table_def
           split: if_splits)
  qed (auto simp: topup_alloc_table_pool_def)
  show "steady s (topup_extentry_pool alloc s)"
  proof (cases "\<not> allocation_available s \<or> is_topping_up_extentry_pool s")
    case False
    let ?s = "s\<lparr>is_topping_up_extentry_pool := True\<rparr>"
    have "steady ?s (alloc ?s INVALID_PFN 1 AF_DEFAULT)"
      using a False unfolding nests_def by (auto simp: clear_flags_def split: if_splits)
    then show ?thesis
      using False push_fold_flags
      by (cases "alloc ?s INVALID_PFN 1 AF_DEFAULT")
        (auto simp: topup_extentry_pool_def steady_def topup_flags_def split: if_splits)
  qed (auto simp: topup_extentry_pool_def)
qed

lemma clear_flags_cong: "topup_flags s' = topup_flags s \<Longrightarrow> clear_flags s' = clear_flags s"
  by (simp add: topup_flags_def clear_flags_def)

lemma maybe_topup_steady:
  assumes a: "nests k alloc" "clear_flags s \<le> k"
  shows "steady s (obind (maybe_topup_management_pools alloc s) (\<lambda>s. Returned (s, ())))"
proof (cases "allocation_available s")
  case True
  define m1 where "m1 = (if \<not> is_topping_up_alloctbl_pool s \<and>
            get_alloctbl_pool_remaining s \<le> ALLOC_TABLE_POOL_LOW_WATERMARK
         then obind (topup_alloc_table_pool alloc s) (\<lambda>(s, _). Returned s) else Returned s)"
  have m1: "m1 \<noteq> OutOfFuel \<and> (\<forall>s'. m1 = Returned s' \<longrightarrow> topup_flags s' = topup_flags s)"
    using topup_steady(1) [OF a] unfolding m1_def by (cases "topup_alloc_table_pool alloc s") (auto simp: steady_def)
  show ?thesis
  proof (cases m1)
    case (Returned s1)
    then have f: "topup_flags s1 = topup_flags s" using m1 by simp
    have "steady s (topup_extentry_pool alloc s1)"
      using topup_steady(2) [OF a(1), of s1] a(2) clear_flags_cong [OF f] steady_cong [OF f] by metis
    then show ?thesis
      using True f unfolding maybe_topup_management_pools_def m1_def [symmetric] Returned
      by (cases "topup_extentry_pool alloc s1") (auto simp: steady_def)
  qed (use m1 True in \<open>auto simp: maybe_topup_management_pools_def m1_def [symmetric]\<close>)
qed (simp add: maybe_topup_management_pools_def)

lemma take_alloc_table_steady: "steady s (take_alloc_table s)"
  by (auto simp: take_alloc_table_def pop_dynamic_alloc_table_def topup_flags_def split: list.split)

lemma get_or_create_table_steady:
  assumes a: "nests k alloc" "clear_flags s \<le> k"
  shows "steady s (get_or_create_table alloc i s)"
proof -
  have new: "steady s (obind (maybe_topup_management_pools alloc s) (\<lambda>s.
          obind (if get_alloctbl_pool_remaining s = 0 \<and> \<not> is_topping_up_alloctbl_pool s \<and> allocation_available s
             then topup_alloc_table_pool alloc s else Returned (s, STATUS_SUCCESS)) (\<lambda>(s, status).
          if \<not> CHECK_SUCCESS status then Returned (s, Inl status)
          else obind (take_alloc_table s) (\<lambda>(s, new_table). f s new_table))))"
    if "\<And>s n. steady s (f s n)" for f :: "pmm \<Rightarrow> table_ptr option \<Rightarrow> (pmm \<times> (StStatus + table_ptr)) outcome"
  proof (cases "maybe_topup_management_pools alloc s")
    case (Returned s1)
    then have f1: "topup_flags s1 = topup_flags s" using maybe_topup_steady [OF a] by simp
    have "steady s1 (topup_alloc_table_pool alloc s1)"
      using topup_steady(1) [OF a(1), of s1] a(2) clear_flags_cong [OF f1] by simp
    then have "steady s1 (if get_alloctbl_pool_remaining s1 = 0 \<and> \<not> is_topping_up_alloctbl_pool s1 \<and> allocation_available s1
             then topup_alloc_table_pool alloc s1 else Returned (s1, STATUS_SUCCESS))" (is "steady _ ?m") by simp
    then have "steady s ?m" using steady_cong [OF f1] by blast
    then have "steady s (obind ?m (\<lambda>(s, status).
          if \<not> CHECK_SUCCESS status then Returned (s, Inl status)
          else obind (take_alloc_table s) (\<lambda>(s, new_table). f s new_table)))"
    proof (rule steady_obind)
      fix s2 st assume f2: "topup_flags s2 = topup_flags s"
      have "steady s (obind (take_alloc_table s2) (\<lambda>(s, n). f s n))"
      proof (rule steady_obind)
        show "steady s (take_alloc_table s2)" using take_alloc_table_steady steady_cong [OF f2] by blast
        fix s3 n assume f3: "topup_flags s3 = topup_flags s"
        show "steady s (case (s3, n) of (s, n) \<Rightarrow> f s n)" using that steady_cong [OF f3] by auto
      qed
      then show "steady s (case (s2, st) of (s, status) \<Rightarrow>
          if \<not> CHECK_SUCCESS status then Returned (s, Inl status)
          else obind (take_alloc_table s) (\<lambda>(s, new_table). f s new_table))" using f2 by simp
    qed
    then show ?thesis using Returned by simp
  qed (use maybe_topup_steady [OF a] in \<open>auto simp: steady_def\<close>)
  show ?thesis
    unfolding get_or_create_table_def Let_def
    by (cases "atpa s i") (auto simp del: CHECK_SUCCESS_iff intro!: new split: option.split)
qed

lemma finish_allocation_steady: "steady s (finish_allocation p owner order pfn s)"
  by (auto simp: finish_allocation_def create_metadata_def Let_def split: option.split)

lemma finish_steady: "topup_flags s' = topup_flags s \<Longrightarrow> steady s (finish_allocation p owner order pfn s')"
  using finish_allocation_steady steady_cong by blast

lemma allocate_normal_steady:
  assumes "nests k alloc" "clear_flags s \<le> k"
  shows "steady s (allocate_normal_loop alloc owner order start jump pfn is s)"
  using assms(2)
proof (induction "is" arbitrary: s)
  case (Cons i "is")
  have h: "steady s (allocate_normal_loop alloc owner order start jump pfn is (atpa_hint_clr i order s))"
    using Cons.IH [of "atpa_hint_clr i order s"] Cons.prems
    by (simp add: clear_flags_cong [of "atpa_hint_clr i order s" s] steady_cong [of "atpa_hint_clr i order s" s])
  have "steady s (obind (get_or_create_table alloc i s) (\<lambda>(s, r). case r of
              Inl status \<Rightarrow> Returned (s, status, pfn)
            | Inr t \<Rightarrow> if t = WildTable then Undefined
                else finish_allocation p owner order pfn (claim_entries t (nat start) n s)))" for p n
    by (rule steady_obind [OF get_or_create_table_steady [OF assms(1) Cons.prems]])
      (auto simp: claim_entries_def intro!: finish_steady split: sum.split)
  then show ?case
    using h Cons.IH [OF Cons.prems]
    by (auto simp: Let_def claim_entries_def intro!: finish_steady split: atpa_entry.split option.split)
qed simp

lemma allocate_small_steady:
  assumes "nests k alloc" "clear_flags s \<le> k"
  shows "steady s (allocate_small_loop alloc owner order align_order start jump pfn is s)"
  using assms(2)
proof (induction "is" arbitrary: s)
  case (Cons i "is")
  have h: "steady s (allocate_small_loop alloc owner order align_order start jump pfn is (atpa_hint_clr i order s))"
    using Cons.IH [of "atpa_hint_clr i order s"] Cons.prems
    by (simp add: clear_flags_cong [of "atpa_hint_clr i order s" s] steady_cong [of "atpa_hint_clr i order s" s])
  have cl: "claim_slots t j index order s = Inr s' \<Longrightarrow> topup_flags s' = topup_flags s" for t j index s'
    by (auto simp: claim_slots_def split: alloc_table_entry.splits if_splits)
  have g: "atpa s i = ATPA_FREE \<Longrightarrow> steady s (allocate_small_loop alloc owner order align_order start jump pfn (i # is) s)"
    by (simp, rule steady_obind [OF get_or_create_table_steady [OF assms(1) Cons.prems]])
      (auto intro!: finish_steady split: sum.split option.split alloc_table_entry.split)
  show ?case
    using h g Cons.IH [OF Cons.prems]
    by (cases "atpa s i") (auto intro!: finish_steady dest!: cl split: option.split sum.split)
qed simp

lemma allocate_huge_steady: "steady s (allocate_huge owner order start jump pfn s)"
  by (auto simp: allocate_huge_def Let_def intro!: finish_steady split: option.split)

lemma allocate_body_steady:
  assumes "nests k alloc" "clear_flags s \<le> k"
  shows "steady s (allocate_body alloc s pfn count owner flags)"
proof -
  have l: "steady s (allocate_locked alloc owner order a b l pfn s)" if "clear_flags s \<le> k" for order a b l s
    using allocate_huge_steady allocate_normal_steady [OF assms(1) that] allocate_small_steady [OF assms(1) that]
    by (auto simp: allocate_locked_def Let_def split: sum.split)
  have "steady s (with_preemption_locked (allocate_locked alloc owner order a b l pfn) s)" for order a b l
  proof -
    let ?s = "s\<lparr>preemption_depth := preemption_depth s + 1\<rparr>"
    have "steady ?s (allocate_locked alloc owner order a b l pfn ?s)"
      using assms(2) clear_flags_cong [of ?s s] by (intro l) simp
    then show ?thesis
      by (cases "allocate_locked alloc owner order a b l pfn ?s")
        (auto simp: with_preemption_locked_def steady_def StThread_LockPreemption_def StThread_UnlockPreemption_def
           split: if_splits)
  qed
  then show ?thesis by (auto simp: allocate_body_def Let_def split: sum.split)
qed

lemma allocate_fuel_nests:
  "clear_flags s < fuel \<Longrightarrow> steady s (allocate_fuel fuel s pfn count owner flags)"
proof (induction fuel arbitrary: s pfn count owner flags)
  case (Suc fuel)
  have "nests fuel (\<lambda>s pfn count flags. allocate_fuel fuel s pfn count None flags)"
    using Suc.IH by (simp add: nests_def)
  then show ?case using allocate_body_steady Suc.prems by simp
qed simp

text \<open>C0: \<^verbatim>\<open>StPmm_AllocateContiguousFrame\<close> does not recurse without end through the top-up of its
  pools: from any state and for any request, three levels of nesting are enough.\<close>

theorem pmm_allocate_terminates:
  "StPmm_AllocateContiguousFrame pfn count owner alloc_flags s \<noteq> OutOfFuel"
proof -
  have "clear_flags s < 3" by (simp add: clear_flags_def)
  then show ?thesis
    using allocate_fuel_nests [of s 3] by (auto simp: StPmm_AllocateContiguousFrame_def ALLOCATE_NESTING_def steady_def)
qed
end
