(* ===== verification/Pmm_Alloc_Props.thy ===== *)
theory Pmm_Alloc_Props
  imports Pmm_Alloc_Safe Pmm_Alloc_Depth
begin

text \<open>
  Where \<^verbatim>\<open>StPmm_AllocateContiguousFrame\<close> places a block (address limit and alignment), and
  what it does at the edges: an exhausted search, an alignment beyond one entry, the limits at
  1 MiB and 16 MiB, and the top-up of the pool of tables in the middle of an allocation.
\<close>

section \<open>Placement\<close>

lemma normal_start_fits:
  assumes "n \<le> 512" "0 < jump"
  shows "normal_table_search_start start n jump \<le> 512 - int n"
proof -
  have "(int (512 - n) div int jump) * int jump \<le> int (512 - n)"
    by (metis mult.commute of_nat_le_iff of_nat_mult times_div_less_eq_dividend zdiv_int)
  then show ?thesis using assms by (auto simp: normal_table_search_start_def pmm_consts of_nat_diff)
qed

lemma round_start_less: "0 < jump \<Longrightarrow> round_start limit jump \<le> limit - 1"
  unfolding round_start_def
  by (metis minus_mod_eq_div_mult diff_left_mono diff_zero of_nat_0_less_iff pos_mod_sign)

lemma table_search_start_less:
  "table_search_start b order (table_align_jump a) = Inr start \<Longrightarrow> start < 512"
  using round_start_less [of "table_align_jump a" 512]
  by (auto simp: table_search_start_def Let_def pmm_consts ALLOC_TABLE_ENTRY_INDEX_LIMIT_1M_def
      ALLOC_TABLE_ENTRY_INDEX_LIMIT_16M_def ALIGN_DIV_def table_align_jump_def split: if_splits)

lemma sites_below:
  assumes q: "q \<in> alloc_sites order align_order b (int L)" and o: "order \<le> align_order" "order \<le> 20"
    and L: "0 < L" "L \<le> 4096" "order < 14 \<or> 2 ^ (order - 14) dvd L"
  shows "q + 2 ^ order \<le> L * 16384"
proof -
  let ?aj = "atpa_align_jump align_order"
  have il: "i < L" if "i \<in> set (for_down (round_start (int L) ?aj) ?aj)" for i
    using for_down_atpa(1) [OF _ _ that] L by simp
  have fits: "i * 16384 + 16384 \<le> L * 16384" if "i \<in> set (for_down (round_start (int L) ?aj) ?aj)" for i
    using il [OF that] by simp
  show ?thesis
  proof (cases "14 \<le> order")
    case True
    then obtain i where i: "q = i * 16384" "i \<in> set (for_down (round_start (int L) ?aj) ?aj)"
      using q by (auto simp: alloc_sites_def Let_def)
    have aj: "?aj = 2 ^ (align_order - 13)" using True o by (simp add: atpa_align_jump_def)
    have "2 ^ (order - 14) dvd ?aj" unfolding aj by (rule le_imp_power_dvd) (use o in simp)
    then have d: "2 ^ (order - 14) dvd i" using for_down_atpa(2) [OF _ _ i(2)] L dvd_trans by force
    have dL: "2 ^ (order - 14) dvd L"
      using L(3) True by simp
    have "i + 2 ^ (order - 14) \<le> L"
    proof -
      have "2 ^ (order - 14) dvd L - i" using d dL by (simp add: dvd_diff_nat)
      then have "2 ^ (order - 14) \<le> L - i" using il [OF i(2)] by (intro dvd_imp_le) auto
      then show ?thesis using il [OF i(2)] by linarith
    qed
    moreover have "(2::nat) ^ order = 16384 * 2 ^ (order - 14)"
    proof -
      have "(2::nat) ^ order = 2 ^ (14 + (order - 14))" using True by simp
      then show ?thesis by (simp only: power_add) simp
    qed
    ultimately have "i * 16384 + 2 ^ order \<le> L * 16384" by linarith
    then show ?thesis using i by simp
  next
    case h: False
    show ?thesis
    proof (cases "5 \<le> order")
      case True
      let ?n = "2 ^ (order - 5) :: nat"
      have n: "?n \<le> 512" using h power_increasing [of "order - 5" 9 "2::nat"] by simp
      obtain start i j where q: "q = i * 16384 + j * 32" "i \<in> set (for_down (round_start (int L) ?aj) ?aj)"
        "0 \<le> normal_table_search_start start ?n (table_align_jump align_order)"
        "j = nat (normal_table_search_start start ?n (table_align_jump align_order)) \<or>
         j \<in> set (for_down (normal_table_search_start start ?n (table_align_jump align_order)) (table_align_jump align_order))"
        using q True h by (auto simp: alloc_sites_def Let_def split: sum.splits)
      have "int j \<le> 512 - int ?n"
        using q(3,4) normal_start_fits [OF n, of "table_align_jump align_order" start]
        by (auto simp: for_down_mem table_align_jump_def)
      then have "j + ?n \<le> 512" by linarith
      moreover have "(2::nat) ^ order = 32 * ?n"
      proof -
        have "(2::nat) ^ order = 2 ^ (5 + (order - 5))" using True by simp
        then show ?thesis by (simp only: power_add) simp
      qed
      ultimately show ?thesis using fits [OF q(2)] q(1) by simp
    next
      case False
      then obtain start i j k where q: "q = i * 16384 + j * 32 + k" "i \<in> set (for_down (round_start (int L) ?aj) ?aj)"
        "table_search_start b (int order) (table_align_jump align_order) = Inr start"
        "j \<in> insert (nat start) (set (for_down (int (nat start)) (table_align_jump align_order)))" "k + 2 ^ order \<le> 32"
        using q h by (auto simp: alloc_sites_def Let_def split: sum.splits)
      have "j < 512" using q(4) table_search_start_less [OF q(3)] by (auto simp: for_down_mem split: if_splits)
      then show ?thesis using fits [OF q(2)] q(1,5) by simp
    qed
  qed
qed

lemma for_down_dvd:
  assumes "j \<in> set (for_down start jump)" "int jump dvd start"
  shows "jump dvd j"
proof -
  have "int jump dvd start - int j" using assms(1) by (simp add: for_down_mem)
  then have "int jump dvd int j" using assms(2) by (metis dvd_diff_right_iff)
  then show ?thesis by (simp only: int_dvd_int_iff)
qed

lemma table_base_aligned:
  assumes "0 < L" "L \<le> 4096" "i \<in> set (for_down (round_start L (atpa_align_jump a)) (atpa_align_jump a))"
  shows "2 ^ a dvd i * 16384"
proof (cases "a \<le> 14")
  case True
  then have "2 ^ a dvd (2::nat) ^ 14" by (rule le_imp_power_dvd)
  then show ?thesis by (simp add: dvd_mult)
next
  case False
  then have "2 ^ (a - 13) dvd i" using for_down_atpa(2) [OF assms] by (simp add: atpa_align_jump_def)
  then have "2 ^ (a - 13) * 2 ^ 13 dvd i * 16384" by (intro mult_dvd_mono) simp_all
  moreover have "(2::nat) ^ (a - 13) * 2 ^ 13 = 2 ^ a" using False by (simp only: power_add [symmetric]) simp
  ultimately show ?thesis by (simp only:)
qed

lemma sites_aligned:
  assumes q: "q \<in> alloc_sites order a b L" and o: "5 \<le> order" "order \<le> a" and L: "0 < L" "L \<le> 4096"
    and b: "b \<noteq> AF_PMM_BELOW_1M" "b \<noteq> AF_PMM_BELOW_16M"
  shows "2 ^ a dvd q"
proof (cases "14 \<le> order")
  case True
  then show ?thesis using q table_base_aligned [OF L] by (auto simp: alloc_sites_def Let_def)
next
  case False
  let ?tj = "table_align_jump a"
  let ?s = "normal_table_search_start (round_start 512 ?tj) (2 ^ (order - 5)) ?tj"
  have tj: "?tj = 2 ^ (a - 5)" using o by (auto simp: table_align_jump_def)
  have sd: "int ?tj dvd ?s" by (simp add: normal_table_search_start_def round_start_def)
  obtain i j where q: "q = i * 16384 + j * 32" "i \<in> set (for_down (round_start L (atpa_align_jump a)) (atpa_align_jump a))"
    "0 \<le> ?s" "j \<in> insert (nat ?s) (set (for_down ?s ?tj))"
    using q False o b by (auto simp: alloc_sites_def Let_def table_search_start_def pmm_consts)
  have "?tj dvd nat ?s" using sd q(3) by (metis int_dvd_int_iff int_nat_eq)
  then have "2 ^ (a - 5) dvd j" using q(4) for_down_dvd [OF _ sd] tj by auto
  then have "2 ^ (a - 5) * 2 ^ 5 dvd j * 32" by (intro mult_dvd_mono) simp_all
  moreover have "(2::nat) ^ (a - 5) * 2 ^ 5 = 2 ^ a" using o by (simp only: power_add [symmetric]) simp
  ultimately have "2 ^ a dvd j * 32" by (simp only:)
  then show ?thesis unfolding q(1) by (rule dvd_add [OF table_base_aligned [OF L q(2)]])
qed

section \<open>Example states\<close>

text \<open>A machine with one free table at \<open>i\<close>, all pools full and \<open>used\<close> early tables taken.\<close>

definition one_table :: "nat \<Rightarrow> nat \<Rightarrow> pmm" where
  "one_table i used = \<lparr>atpa = (\<lambda>_. ATPA_UNUSABLE)(i := ATPA_FREE), tables = (\<lambda>_ _. ENT_EXT_UNUSABLE),
     extentries = (\<lambda>_ _. EE_UNUSABLE), early_alloctbl_pool_used_count = used, early_extentry_pool_used_count = 0,
     dynamic_alloctbl_freelist = [], dynamic_alloctbl_free_count = 0, dynamic_extentry_freelist = [],
     dynamic_extentry_free_count = 0, is_topping_up_alloctbl_pool = False, is_topping_up_extentry_pool = False,
     total_frames = 16384, free_frames = 16384, allocation_available = True, remarking_unavailable = True,
     metadata_available = True,
     metadata = (\<lambda>_. \<lparr>md_order = 0, md_flags = 0, md_owner = None, md_refcount = 0, md_lock = 0\<rparr>),
     md_mapped = (\<lambda>_. True), owners = (\<lambda>_. StAllocationOwner_Create), preemption_depth = 0\<rparr>"

lemma one_table_frames:
  assumes "i < 4096"
  shows "frame_state (one_table i used) f = (if table_of f = i then Free else Unusable)"
  using assms by (simp add: frame_state_def one_table_def)

lemma one_table_counts:
  assumes "i < 4096"
  shows "counts_ok (one_table i used)"
proof -
  have "free_set (one_table i used) = block (i * 16384) 14"
    using assms block_huge [of 14 _ i] by (auto simp: free_set_def one_table_frames)
  then show ?thesis by (simp add: counts_ok_def one_table_def)
qed

lemma one_table_ready:
  assumes "used < 120"
  shows "alloc_ready (one_table i used)" "preemption_depth (one_table i used) \<noteq> 0xFFFFFFFF"
proof -
  have "\<not> live_table (one_table i used) t" for t
    by (auto simp: live_table_def one_table_def split: if_splits)
  then have "pmm_wf (one_table i used)"
    using assms by (simp add: pmm_wf_def tables_wf_def exts_wf_def bitmaps_wf_def live_entry_def)
      (auto simp: one_table_def split: if_splits)
  moreover have "ample (one_table i used)"
    using assms by (simp add: ample_def get_alloctbl_pool_remaining_def get_extentry_pool_remaining_def pmm_consts one_table_def)
  ultimately show "alloc_ready (one_table i used)"
    by (simp add: alloc_ready_def) (simp add: one_table_def md_ok_def md_accessible_def)
  show "preemption_depth (one_table i used) \<noteq> 0xFFFFFFFF" by (simp add: one_table_def)
qed

lemma get_order_small: "get_order 1 = 0" "get_order 3 = 2" "get_order 100 = 7" by code_simp+

lemma for_down_first: "0 \<le> start \<Longrightarrow> 0 < step \<Longrightarrow> for_down start step = nat start # for_down (start - int step) step"
  by (subst for_down.simps) simp

lemma get_order_one [simp]: "get_order (Suc 0) = 0" by (simp add: get_order_def)

lemma table_align_jump_pos: "0 < table_align_jump a" by (simp add: table_align_jump_def)

text \<open>The call nested in a top-up.\<close>

abbreviation nested_allocator :: allocator where
  "nested_allocator \<equiv> \<lambda>s pfn count flags. allocate_fuel 2 s pfn count None flags"

lemma allocate_eq_small:
  assumes "allocation_available s" "get_order count = int order" "order < 5"
    and "request_align_order alloc_flags (int order) = int a" "a \<le> 26"
    and "atpa_search_limit (alloc_flags AND AF_PMM_BELOW_MASK) (int order) = Inr L"
    and "table_search_start (alloc_flags AND AF_PMM_BELOW_MASK) (int order) (table_align_jump a) = Inr start" "0 \<le> start"
  shows "StPmm_AllocateContiguousFrame pfn count None alloc_flags s =
    with_preemption_locked
      (allocate_small_loop nested_allocator None order a (nat start) (table_align_jump a) pfn
        (for_down (round_start L (atpa_align_jump a)) (atpa_align_jump a))) s"
proof -
  have "start < 512" by (rule table_search_start_less [OF assms(7)])
  then have "allocate_locked nested_allocator None order a (alloc_flags AND AF_PMM_BELOW_MASK) L pfn =
    allocate_small_loop nested_allocator None order a (nat start) (table_align_jump a) pfn
        (for_down (round_start L (atpa_align_jump a)) (atpa_align_jump a))"
    using assms(3,7,8) by (intro ext) (simp add: allocate_locked_def Let_def pmm_consts)
  then show ?thesis
    unfolding allocate_eq_body allocate_body_def Let_def assms(2) assms(4) assms(6)
    using assms(1,3,5) by (simp add: PMM_MAX_ORDER_def)
qed

lemma for_down_tables:
  assumes "a \<le> 13"
  shows "for_down (round_start 4096 (atpa_align_jump a)) (atpa_align_jump a) = 4095 # for_down 4094 1"
  using assms for_down_first [of 4095 1] by (simp add: atpa_align_jump_def round_start_def)

lemma table_search_start_none:
  "table_search_start AF_PMM_BELOW_NONE order jump = Inr (round_start 512 jump)"
  by (simp add: table_search_start_def af_defs pmm_consts)

lemma round_start_nonneg: "0 < limit \<Longrightarrow> 0 \<le> round_start limit jump"
  by (simp add: round_start_def pos_imp_zdiv_nonneg_iff div_int_pos_iff)

lemma find_free_empty:
  assumes "a \<le> 5"
  shows "find_free_frame_idx_bitmap_entry ALLOCENT_BMP_FREE (int a) = Some 0"
proof -
  have "find_free_frame_idx_bitmap_entry ALLOCENT_BMP_FREE (int a) \<noteq> None"
    unfolding find_free_None [OF encodes_free assms] by (auto simp: occupied_def intro!: exI [of _ 0])
  then obtain index where f: "find_free_frame_idx_bitmap_entry ALLOCENT_BMP_FREE (int a) = Some index" by blast
  note found = find_free_Some [OF encodes_free assms f]
  have "index div 2 ^ a = 0"
    using found(4) [of 0] by (cases "index div 2 ^ a") (auto simp: occupied_def)
  then show ?thesis using f found(2) by (metis dvd_div_eq_0_iff)
qed

lemma first_free_small:
  assumes s: "alloc_ready s" and i: "i < 4096" "atpa s i = ATPA_FREE" and a: "order \<le> a" "a \<le> 5" "order < 5" and st: "start < 512"
  shows "alloc_post owner order pfn {i * 16384 + start * 32} {} s
    (allocate_small_loop alloc owner order a start jump pfn (i # is) s)"
proof -
  obtain s' t where c: "get_or_create_table alloc i s = Returned (s', Inr t)" "pmm_wf s'" "unchanged s s'"
    "atpa s' i = ATPA_PTR t ATPA_ORDER_BMP_MASK" "tables s' t = (\<lambda>_. ENT_BITMAP ALLOCENT_BMP_FREE)" "t \<noteq> WildTable"
    by (rule ready_create_table [OF s i])
  have ent: "tables s' t start = ENT_BITMAP ALLOCENT_BMP_FREE" using c(5) by simp
  note f = find_free_empty [OF a(2)]
  have "claims order (i * 16384 + start * 32 + 0) s' (s'\<lparr>tables := (tables s')(t := (tables s' t)(start :=
              ENT_BITMAP (allocate_from_bitmap_entry ALLOCENT_BMP_FREE 0 order)))\<rparr>)"
    by (rule claim_bitmap_claims [OF c(2) i(1) c(4) st ent a(2,1,3) f])
  then have "alloc_post owner order pfn {i * 16384 + start * 32} {} s
        (finish_allocation (i * 16384 + start * 32) owner order pfn
          (s'\<lparr>tables := (tables s')(t := (tables s' t)(start :=
              ENT_BITMAP (allocate_from_bitmap_entry ALLOCENT_BMP_FREE 0 order)))\<rparr>))"
    using s by (intro finish_allocation_post [OF c(3)]) (auto simp: alloc_ready_def)
  then show ?thesis using i c f by (simp add: pmm_consts)
qed

lemma ready_depth: "alloc_ready (s\<lparr>preemption_depth := d\<rparr>) = alloc_ready s"
  by (simp add: alloc_ready_def ample_def md_ok_def md_accessible_def)

lemma get_order_small_range: "0 < count \<Longrightarrow> count \<le> 16 \<Longrightarrow> 0 \<le> get_order count \<and> get_order count < 5"
proof -
  have "list_all (\<lambda>c. 0 \<le> get_order c \<and> get_order c < 5) [1..<17]" by code_simp
  then show "0 < count \<Longrightarrow> count \<le> 16 \<Longrightarrow> 0 \<le> get_order count \<and> get_order count < 5" by (auto simp: list_all_iff)
qed

lemmas eval_alloc = allocate_body_def AF_DEFAULT_def af_defs request_align_order_def
   atpa_search_limit_def pmm_consts with_preemption_locked_def StThread_LockPreemption_def StThread_UnlockPreemption_def
   allocate_locked_def atpa_align_jump_def table_align_jump_def round_start_def table_search_start_def for_down_first [of 4095 "Suc 0", simplified]
   get_or_create_table_def maybe_topup_management_pools_def get_alloctbl_pool_remaining_def get_extentry_pool_remaining_def
   take_alloc_table_def finish_allocation_def create_metadata_def md_accessible_def find_free_empty [of 0, simplified]
   topup_alloc_table_pool_def push_dynamic_alloc_table_def

lemma alloc_bit0: "bit (allocate_from_bitmap_entry ALLOCENT_BMP_FREE 0 0) 0" by code_simp

section \<open>Properties\<close>

text \<open>C1: In a well-formed state whose management pools are above their watermarks, an allocation
  returns. It succeeds with a block all of whose frames were free, which become used while every
  other frame keeps its state, the frame counter goes down by the size of the block, and the metadata of the block
  and the usage of its owner are recorded; or it leaves the frame map, the counter, the metadata and
  the owners as they were and does not write the result. Both ways the state stays well-formed,
  the counter stays the number of free frames, and the lock on preemption is released.\<close>

theorem pmm_allocate_safe:
  assumes "alloc_ready s" "counts_ok s" "preemption_depth s \<noteq> 0xFFFFFFFF"
    and "5 \<le> get_order count \<or> request_align_order alloc_flags (get_order count) \<le> 5"
  shows "\<exists>s' st q. StPmm_AllocateContiguousFrame pfn count owner alloc_flags s = Returned (s', st, q) \<and>
    pmm_wf s' \<and> counts_ok s' \<and> md_ok s' \<and>
    (st = STATUS_SUCCESS \<and> allocated owner (nat (get_order count)) q s s' \<or>
     q = pfn \<and> unchanged s s' \<and> (st = STATUS_SUCCESS \<longrightarrow> get_order count < 5))"
proof -
  have "md_ok s" using assms(1) by (simp add: alloc_ready_def)
  then obtain s' st q where r: "StPmm_AllocateContiguousFrame pfn count owner alloc_flags s = Returned (s', st, q)"
    "pmm_wf s'" "md_ok s'" "counts_ok s'"
    "st = STATUS_SUCCESS \<and> q \<in> request_sites count alloc_flags \<and> allocated owner (nat (get_order count)) q s s' \<or>
     st \<in> (if 0 \<le> get_order count \<and> get_order count < 5 then UNIV else UNIV - {STATUS_SUCCESS}) \<and>
     q = pfn \<and> unchanged s s'"
    by (rule alloc_postE [OF allocate_body_post [OF assms(1,3,4)]]) (simp add: allocate_eq_body assms(2))
  show ?thesis
    by (intro exI [of _ s'] exI [of _ st] exI [of _ q]) (use r in \<open>auto split: if_splits\<close>)
qed
theorem pmm_allocate_safe_witness:
  "alloc_ready (one_table 4095 0) \<and> counts_ok (one_table 4095 0) \<and>
   (\<exists>s' st q. StPmm_AllocateContiguousFrame 0 3 (Some 1) AF_DEFAULT (one_table 4095 0) = Returned (s', st, q) \<and>
    pmm_wf s' \<and> counts_ok s' \<and> md_ok s' \<and>
    (st = STATUS_SUCCESS \<and> allocated (Some 1) (nat (get_order 3)) q (one_table 4095 0) s' \<or>
     q = 0 \<and> unchanged (one_table 4095 0) s' \<and> (st = STATUS_SUCCESS \<longrightarrow> get_order 3 < 5)))"
proof -
  have "request_align_order AF_DEFAULT (get_order 3) \<le> 5" by code_simp
  then show ?thesis
    using pmm_allocate_safe [of "one_table 4095 0" 3 AF_DEFAULT 0 "Some 1"] one_table_ready [of 0 4095] one_table_counts [of 4095 0]
    by simp
qed


text \<open>C0: A request for up to 16 frames when no frame is free reports \<^verbatim>\<open>STATUS_SUCCESS\<close> although it
  allocates nothing and does not write \<^verbatim>\<open>*pfn\<close>: the search falls through to the label \<^verbatim>\<open>success\<close>.\<close>

theorem pmm_small_exhausted_succeeds:
  assumes "alloc_ready s" "preemption_depth s \<noteq> 0xFFFFFFFF" "free_set s = {}" "0 < count" "count \<le> 16"
    and "alloc_flags AND AF_PMM_BELOW_MASK = AF_PMM_BELOW_NONE" "request_align_order alloc_flags (get_order count) \<le> 5"
  shows "\<exists>s'. StPmm_AllocateContiguousFrame pfn count None alloc_flags s = Returned (s', STATUS_SUCCESS, pfn) \<and>
    unchanged s s'"
proof -
  have av: "allocation_available s" and md: "md_ok s" using assms(1) by (auto simp: alloc_ready_def)
  define order where "order = nat (get_order count)"
  define a where "a = nat (request_align_order alloc_flags (get_order count))"
  have o: "get_order count = int order" "order < 5" using get_order_small_range [OF assms(4,5)] by (auto simp: order_def)
  have a: "request_align_order alloc_flags (int order) = int a" "order \<le> a" "a \<le> 5"
    using assms(7) o by (auto simp: a_def request_align_order_def Let_def)
  let ?start = "round_start 512 (table_align_jump a)"
  let ?is = "for_down (round_start 4096 (atpa_align_jump a)) (atpa_align_jump a)"
  have e: "StPmm_AllocateContiguousFrame pfn count None alloc_flags s =
    with_preemption_locked (allocate_small_loop nested_allocator None order a (nat ?start) (table_align_jump a) pfn ?is) s"
    by (rule allocate_eq_small)
      (use av o a assms(6) in \<open>simp_all add: atpa_search_limit_def table_search_start_none round_start_nonneg pmm_consts\<close>)
  have "alloc_post None order pfn UNIV {STATUS_SUCCESS} s (StPmm_AllocateContiguousFrame pfn count None alloc_flags s)"
    unfolding e
  proof (rule with_preemption_post [OF assms(2)], rule allocate_small_post)
    show "nat ?start < 512" using round_start_less [OF table_align_jump_pos, of 512 a] by simp
    show "i < 4096" if "i \<in> set ?is" for i using for_down_atpa(1) [OF _ _ that] by simp
  qed (use assms(1) a o(2) in \<open>auto simp: ready_depth\<close>)
  then show ?thesis
  proof (rule alloc_postE [OF _ md])
    fix s' st q
    assume r: "StPmm_AllocateContiguousFrame pfn count None alloc_flags s = Returned (s', st, q)"
      "st = STATUS_SUCCESS \<and> q \<in> UNIV \<and> allocated None order q s s' \<or> st \<in> {STATUS_SUCCESS} \<and> q = pfn \<and> unchanged s s'"
    have "\<not> allocated None order q s s'" using assms(3) block_base unfolding allocated_def by blast
    then show ?thesis using r by auto
  qed
qed


theorem pmm_small_exhausted_succeeds_witness:
  "free_set (one_table 4096 0) = {} \<and>
   (\<exists>s'. StPmm_AllocateContiguousFrame 77 3 None AF_DEFAULT (one_table 4096 0) = Returned (s', STATUS_SUCCESS, 77) \<and>
    unchanged (one_table 4096 0) s')"
proof -
  have "free_set (one_table 4096 0) = {}" by (auto simp: free_set_def frame_state_def one_table_def)
  moreover have "AF_DEFAULT AND AF_PMM_BELOW_MASK = AF_PMM_BELOW_NONE" "request_align_order AF_DEFAULT (get_order 3) \<le> 5"
    by code_simp+
  ultimately show ?thesis
    using pmm_small_exhausted_succeeds [of "one_table 4096 0" 3 AF_DEFAULT 77] one_table_ready [of 0 4096] by simp
qed

text \<open>C32: A request for one frame at an alignment of 64 to 8192 frames stops the machine with a panic
  when the search first meets a table that is all free: no block of such an alignment exists within
  the 32 frames of one entry.\<close>

theorem pmm_small_overaligned_panics:
  assumes "alloc_ready s" "preemption_depth s \<noteq> 0xFFFFFFFF" "atpa s 4095 = ATPA_FREE"
    and "alloc_flags AND AF_PMM_BELOW_MASK = AF_PMM_BELOW_NONE"
    and "request_align_order alloc_flags 0 = int a" "6 \<le> a" "a \<le> 13"
  shows "StPmm_AllocateContiguousFrame pfn 1 None alloc_flags s = Panicked STATUS_UNEXPECTED_RESULT"
proof -
  let ?s = "s\<lparr>preemption_depth := preemption_depth s + 1\<rparr>"
  have r: "alloc_ready ?s" using assms(1) by (simp add: alloc_ready_def ample_def md_ok_def md_accessible_def)
  have a: "atpa ?s 4095 = ATPA_FREE" using assms(3) by simp
  have av: "allocation_available s" using assms(1) by (simp add: alloc_ready_def)
  have L: "atpa_search_limit AF_PMM_BELOW_NONE 0 = Inr 4096" by (simp add: atpa_search_limit_def pmm_consts)
  obtain s' t where c: "get_or_create_table nested_allocator 4095 ?s = Returned (s', Inr t)"
    "tables s' t = (\<lambda>_. ENT_BITMAP ALLOCENT_BMP_FREE)" "t \<noteq> WildTable"
    by (rule ready_create_table [OF r _ a, of nested_allocator]) auto
  have f: "find_free_frame_idx_bitmap_entry b (int a) = None" for b
    using assms(6) by (simp add: find_free_frame_idx_bitmap_entry_def)
  have "StPmm_AllocateContiguousFrame pfn 1 None alloc_flags s =
    with_preemption_locked
      (allocate_small_loop nested_allocator None 0 a (nat (round_start 512 (table_align_jump a))) (table_align_jump a) pfn
        (for_down (round_start 4096 (atpa_align_jump a)) (atpa_align_jump a))) s"
    by (rule allocate_eq_small) (use av assms in \<open>simp_all add: get_order_small L table_search_start_none round_start_nonneg\<close>)
  then show ?thesis
    using assms(2,3) c by (simp add: for_down_tables [OF assms(7)] with_preemption_locked_def
        StThread_LockPreemption_def f)
qed


theorem pmm_small_overaligned_panics_witness:
  "StPmm_AllocateContiguousFrame 0 1 None 0x150 (one_table 4095 0) = Panicked STATUS_UNEXPECTED_RESULT"
proof -
  have "0x150 AND AF_PMM_BELOW_MASK = AF_PMM_BELOW_NONE" "request_align_order 0x150 0 = int 9" by code_simp+
  moreover have "atpa (one_table 4095 0) 4095 = ATPA_FREE" by (simp add: one_table_def)
  ultimately show ?thesis
    using pmm_small_overaligned_panics [of "one_table 4095 0" "0x150" 9 0] one_table_ready [of 0 4095] by simp
qed

text \<open>C33: With the first table free, a frame requested below 1 MiB is frame 256 and one requested below
  16 MiB is frame 4096, the first frames at and not below the limit: the entry search starts at
  the limit's own index.\<close>

theorem pmm_low_limit_off_by_one:
  assumes "alloc_ready s" "preemption_depth s \<noteq> 0xFFFFFFFF" "atpa s 0 = ATPA_FREE"
  shows "(\<exists>s'. StPmm_AllocateContiguousFrame pfn 1 None AF_PMM_BELOW_1M s = Returned (s', STATUS_SUCCESS, 256) \<and>
           allocated None 0 256 s s') \<and>
    (\<exists>s'. StPmm_AllocateContiguousFrame pfn 1 None AF_PMM_BELOW_16M s = Returned (s', STATUS_SUCCESS, 4096) \<and>
           allocated None 0 4096 s s')"
proof -
  have av: "allocation_available s" and md: "md_ok s" using assms(1) by (auto simp: alloc_ready_def)
  have one: "\<exists>s'. StPmm_AllocateContiguousFrame pfn 1 None b s = Returned (s', STATUS_SUCCESS, nat start * 32) \<and>
      allocated None 0 (nat start * 32) s s'"
    if b: "request_align_order b 0 = 0" "atpa_search_limit (b AND AF_PMM_BELOW_MASK) 0 = Inr 1"
      "table_search_start (b AND AF_PMM_BELOW_MASK) 0 1 = Inr start" "0 \<le> start" "start < 512" for b start
  proof -
    have "StPmm_AllocateContiguousFrame pfn 1 None b s =
      with_preemption_locked (allocate_small_loop nested_allocator None 0 0 (nat start) (table_align_jump 0) pfn
          (for_down (round_start 1 (atpa_align_jump 0)) (atpa_align_jump 0))) s"
      by (rule allocate_eq_small) (use av b in \<open>simp_all add: get_order_small table_align_jump_def\<close>)
    also have "for_down (round_start 1 (atpa_align_jump 0)) (atpa_align_jump 0) = [0]"
      by (simp add: atpa_align_jump_def round_start_def for_down.simps)
    finally have e: "StPmm_AllocateContiguousFrame pfn 1 None b s =
      with_preemption_locked (allocate_small_loop nested_allocator None 0 0 (nat start) (table_align_jump 0) pfn [0]) s" .
    have "alloc_post None 0 pfn {0 * 16384 + nat start * 32} {} s (StPmm_AllocateContiguousFrame pfn 1 None b s)"
      unfolding e
      by (rule with_preemption_post [OF assms(2)], rule first_free_small)
        (use assms(1,3) b in \<open>auto simp: ready_depth\<close>)
    then show ?thesis by (rule alloc_postE [OF _ md]) auto
  qed
  have "request_align_order AF_PMM_BELOW_1M 0 = 0" "request_align_order AF_PMM_BELOW_16M 0 = 0" by code_simp+
  then show ?thesis
    using one [of AF_PMM_BELOW_1M 8] one [of AF_PMM_BELOW_16M 128]
    by (simp add: af_defs atpa_search_limit_def table_search_start_def pmm_consts ALIGN_DIV_def ATPA_INDEX_LIMIT_1M_def
        ATPA_INDEX_LIMIT_16M_def ALLOC_TABLE_ENTRY_INDEX_LIMIT_1M_def ALLOC_TABLE_ENTRY_INDEX_LIMIT_16M_def round_start_def)
qed

theorem pmm_low_limit_off_by_one_witness:
  "(\<exists>s'. StPmm_AllocateContiguousFrame 0 1 None AF_PMM_BELOW_1M (one_table 0 0) = Returned (s', STATUS_SUCCESS, 256) \<and>
           allocated None 0 256 (one_table 0 0) s') \<and>
    (\<exists>s'. StPmm_AllocateContiguousFrame 0 1 None AF_PMM_BELOW_16M (one_table 0 0) = Returned (s', STATUS_SUCCESS, 4096) \<and>
           allocated None 0 4096 (one_table 0 0) s')"
  using pmm_low_limit_off_by_one [of "one_table 0 0" 0] one_table_ready [of 0 0] by (simp add: one_table_def)

end
