(* ===== verification/Block_Client.thy ===== *)
theory Block_Client
  imports Prelude
begin

text \<open>
  The interface between an allocator of blocks and its clients. A client takes blocks, may see
  requests refused, and gives back blocks it has; the allocator promises that a block it hands out is
  disjoint from every block in a client's hands and that it leaves the other blocks alone. The
  laws are those of the locale \<open>block_allocator\<close>; its lemmas say what every run of clients can rely on.
\<close>

section \<open>Runs of clients\<close>

text \<open>The states and the sets of blocks in the hands of clients that can be reached from \<open>s0\<close>, where
  \<open>take s b s'\<close> says that a request serves \<open>b\<close>, \<open>refuse s s'\<close> that it serves none, and \<open>give s b s'\<close>
  that the release of \<open>b\<close> returns.\<close>

inductive client_run ::
  "('s \<Rightarrow> 'b \<Rightarrow> 's \<Rightarrow> bool) \<Rightarrow> ('s \<Rightarrow> 's \<Rightarrow> bool) \<Rightarrow> ('s \<Rightarrow> 'b \<Rightarrow> 's \<Rightarrow> bool) \<Rightarrow> 's \<Rightarrow> 's \<Rightarrow> 'b set \<Rightarrow> bool"
  for take refuse give s0 where
  run_start: "client_run take refuse give s0 s0 {}"
| run_take: "client_run take refuse give s0 s L \<Longrightarrow> take s b s' \<Longrightarrow> client_run take refuse give s0 s' (insert b L)"
| run_refuse: "client_run take refuse give s0 s L \<Longrightarrow> refuse s s' \<Longrightarrow> client_run take refuse give s0 s' L"
| run_give: "client_run take refuse give s0 s L \<Longrightarrow> b \<in> L \<Longrightarrow> give s b s' \<Longrightarrow>
    client_run take refuse give s0 s' (L - {b})"

section \<open>The contract of an allocator\<close>

locale block_allocator =
  fixes inv :: "'s \<Rightarrow> bool"
    and owns :: "'s \<Rightarrow> 'b \<Rightarrow> bool"
    and cells :: "'b \<Rightarrow> nat set"
    and take :: "'s \<Rightarrow> 'b \<Rightarrow> 's \<Rightarrow> bool"
    and refuse :: "'s \<Rightarrow> 's \<Rightarrow> bool"
    and give :: "'s \<Rightarrow> 'b \<Rightarrow> 's \<Rightarrow> bool"
  assumes cells_nonempty: "cells b \<noteq> {}"
    and take_inv: "inv s \<Longrightarrow> take s b s' \<Longrightarrow> inv s'"
    and take_owns: "inv s \<Longrightarrow> take s b s' \<Longrightarrow> owns s' b"
    and take_keeps: "inv s \<Longrightarrow> take s b s' \<Longrightarrow> owns s c \<Longrightarrow> owns s' c"
    and take_disjoint: "inv s \<Longrightarrow> take s b s' \<Longrightarrow> owns s c \<Longrightarrow> cells c \<inter> cells b = {}"
    and refuse_inv: "inv s \<Longrightarrow> refuse s s' \<Longrightarrow> inv s'"
    and refuse_keeps: "inv s \<Longrightarrow> refuse s s' \<Longrightarrow> owns s c \<Longrightarrow> owns s' c"
    and give_returns: "inv s \<Longrightarrow> owns s b \<Longrightarrow> \<exists>s'. give s b s'"
    and give_inv: "inv s \<Longrightarrow> owns s b \<Longrightarrow> give s b s' \<Longrightarrow> inv s'"
    and give_keeps: "inv s \<Longrightarrow> owns s b \<Longrightarrow> give s b s' \<Longrightarrow> owns s c \<Longrightarrow> cells c \<inter> cells b = {} \<Longrightarrow> owns s' c"
begin

lemma run_invariant:
  assumes "client_run take refuse give s0 s L" "inv s0"
  shows "inv s \<and> (\<forall>b\<in>L. owns s b) \<and> (\<forall>b\<in>L. \<forall>c\<in>L. b \<noteq> c \<longrightarrow> cells b \<inter> cells c = {})"
  using assms
proof (induction rule: client_run.induct)
  case (run_take s L b s')
  then have s: "inv s" "\<forall>b\<in>L. owns s b" by auto
  have "cells c \<inter> cells b = {}" if "c \<in> L" for c
    using take_disjoint [OF s(1) run_take.hyps(2)] s(2) that by blast
  moreover have "owns s' b" "inv s'" using take_owns take_inv s(1) run_take.hyps(2) by blast+
  moreover have "owns s' c" if "c \<in> L" for c using take_keeps [OF s(1) run_take.hyps(2)] s(2) that by blast
  ultimately show ?case using run_take.IH [OF run_take.prems] by (simp add: Int_commute)
next
  case (run_refuse s L s')
  then show ?case using refuse_inv refuse_keeps by blast
next
  case (run_give s L b s')
  then have s: "inv s" "owns s b" by auto
  have "owns s' c" if "c \<in> L - {b}" for c
    using give_keeps [OF s run_give.hyps(3)] run_give.IH [OF run_give.prems] run_give.hyps(2) that by blast
  moreover have "inv s'" by (rule give_inv [OF s run_give.hyps(3)])
  ultimately show ?case using run_give.IH [OF run_give.prems] by blast
qed simp

lemma run_can_give:
  assumes "client_run take refuse give s0 s L" "inv s0" "b \<in> L"
  shows "\<exists>s'. give s b s'"
  using run_invariant [OF assms(1,2)] give_returns assms(3) by blast

lemma run_take_fresh:
  assumes "client_run take refuse give s0 s L" "inv s0" "take s b s'"
  shows "b \<notin> L"
  using run_invariant [OF assms(1,2)] take_disjoint [OF _ assms(3)] cells_nonempty by fastforce

end

end
