(* ===== verification/Pmm_Free_Props.thy ===== *)
theory Pmm_Free_Props
  imports Pmm_Release Pmm_Alloc_Props Block_Client
begin

text \<open>
  The life of a block in the hands of its clients: allocation, sharing by reference count and release
  through the metadata. The allocator meets the contract of \<open>block_allocator\<close>.
\<close>

section \<open>Release through the metadata\<close>

text \<open>A block in the hands of one client: it is held, holds no management object, and its metadata
  records its order and one reference.\<close>

definition client_owns :: "pmm \<Rightarrow> nat \<times> nat \<Rightarrow> bool" where
  "client_owns s b \<longleftrightarrow> (case b of (p, order) \<Rightarrow> client_block s p order \<and> order \<le> 26 \<and>
     unat (md_order (metadata s p)) = order \<and> md_refcount (metadata s p) = 1)"

lemma held_map_cong:
  "atpa s' = atpa s \<Longrightarrow> tables s' = tables s \<Longrightarrow> extentries s' = extentries s \<Longrightarrow>
   dynamic_alloctbl_freelist s' = dynamic_alloctbl_freelist s \<Longrightarrow>
   dynamic_extentry_freelist s' = dynamic_extentry_freelist s \<Longrightarrow> client_block s' p order = client_block s p order"
  unfolding client_block_def by (simp add: held_cong [of s' s] mgmt_frame_cong [of s' s])

text \<open>The state after the reference count has reached zero and the owner has been discharged.\<close>

definition unreferenced :: "nat \<Rightarrow> pmm \<Rightarrow> pmm" where
  "unreferenced p s =
     s\<lparr>metadata := (metadata s)(p := (metadata s p)\<lparr>md_refcount := 0, md_owner := None\<rparr>),
       owners := (case md_owner (metadata s p) of None \<Rightarrow> owners s
         | Some n \<Rightarrow> (owners s)(n := discharge_owner (unat (md_order (metadata s p))) (owners s n)))\<rparr>"

lemma no_owner: "md_owner m = None \<Longrightarrow> m\<lparr>md_refcount := r, md_owner := None\<rparr> = m\<lparr>md_refcount := r\<rparr>"
  by (cases m) simp

lemma released_depth:
  "released order p (s\<lparr>preemption_depth := d\<rparr>) s' \<Longrightarrow>
   released order p s (s'\<lparr>preemption_depth := preemption_depth s\<rparr>)"
proof -
  have "same_shape (s\<lparr>preemption_depth := d\<rparr>) s' = same_shape s s'" "same_shape s (s'\<lparr>preemption_depth := d'\<rparr>) = same_shape s s'" for d'
    by (simp_all add: same_shape_def cong: atpa_entry.case_cong)
  then show "released order p (s\<lparr>preemption_depth := d\<rparr>) s' \<Longrightarrow> ?thesis"
    by (simp add: released_def same_config_def mgmt_le_def)
qed

lemma free_released:
  assumes wf: "pmm_wf s" and c: "client_owns s (p, order)" and acc: "md_accessible s p"
    and d: "preemption_depth s \<noteq> 0xFFFFFFFF"
  shows "\<exists>s'. StPmm_FreeContiguousFrame p s = Returned s' \<and> released order p (unreferenced p s) s'"
proof -
  let ?m = "metadata s p"
  let ?s0 = "s\<lparr>metadata := (metadata s)(p := ?m\<lparr>md_refcount := 0\<rparr>)\<rparr>"
  let ?d = "preemption_depth s + 1"
  have l: "StThread_LockPreemption (preemption_depth s) = Returned ?d"
    using d by (simp add: StThread_LockPreemption_def)
  have o: "order \<le> 26" "unat (md_order ?m) = order" "md_refcount ?m = 1" "client_block s p order"
    using c by (auto simp: client_owns_def)
  have u: "release_owner p (?s0\<lparr>preemption_depth := ?d\<rparr>) = (unreferenced p s)\<lparr>preemption_depth := ?d\<rparr>"
  proof (cases "md_owner ?m")
    case None
    then show ?thesis by (simp add: release_owner_def unreferenced_def no_owner [OF None])
  qed (simp add: release_owner_def unreferenced_def)
  let ?u = "(unreferenced p s)\<lparr>preemption_depth := ?d\<rparr>"
  have "pmm_wf ?u" using wf by (simp add: unreferenced_def split: option.split)
  moreover have "client_block ?u p order" using o(4) by (subst held_map_cong [of _ s]) (simp_all add: unreferenced_def)
  ultimately obtain s1 where s1: "do_free_contiguous_frame p order ?u = Returned s1" "released order p ?u s1"
    using do_free_released [OF _ _ o(1)] by blast
  have "unat (md_order (metadata ?u p)) = order" using o(2) by (simp add: unreferenced_def)
  moreover have "preemption_depth s1 = ?d" using s1(2) by (simp add: released_def same_config_def)
  ultimately have "StPmm_FreeContiguousFrame p s = Returned (s1\<lparr>preemption_depth := preemption_depth s\<rparr>)"
    using acc o(3) s1(1) u
    by (simp add: StPmm_FreeContiguousFrame_def with_preemption_locked_def l lock_unlock [OF l] Let_def)
  moreover have "released order p (unreferenced p s) (s1\<lparr>preemption_depth := preemption_depth s\<rparr>)"
    using released_depth [OF s1(2)] by (simp add: unreferenced_def)
  ultimately show ?thesis by blast
qed


lemma client_owns_accessible:
  assumes "md_ok s" "metadata_available s" "client_owns s (p, order)"
  shows "md_accessible s p"
  using assms held_frames_used [of s p order p] by (simp add: md_ok_def client_owns_def client_block_def)

lemma unreferenced_same [simp]:
  "frame_state (unreferenced p s) = frame_state s" "held (unreferenced p s) = held s"
  "mgmt_frame (unreferenced p s) = mgmt_frame s" "free_frames (unreferenced p s) = free_frames s"
  "pmm_wf (unreferenced p s) = pmm_wf s" "counts_ok (unreferenced p s) = counts_ok s"
  by (auto simp: unreferenced_def counts_ok_def free_set_def intro!: held_cong split: option.split)

lemma released_facts:
  assumes r: "released order p (unreferenced p s) s'" and h: "held s p order"
  shows "pmm_wf s'" "counts_ok s \<Longrightarrow> counts_ok s'" "md_ok s \<Longrightarrow> md_ok s'"
    "\<And>f. frame_state s' f = (if f \<in> block p order then Free else frame_state s f)"
    "\<And>q o'. held s q o' \<Longrightarrow> block q o' \<inter> block p order = {} \<Longrightarrow> held s' q o'"
    "same_config s s'" "mgmt_le s s'"
    "metadata s' = (metadata s)(p := (metadata s p)\<lparr>md_refcount := 0, md_owner := None\<rparr>)"
    "free_frames s' = free_frames s + push_bit order 1"
    "owners s' = owners (unreferenced p s)"
proof -
  show fs: "frame_state s' f = (if f \<in> block p order then Free else frame_state s f)" for f
    using r by (simp add: released_def)
  show cfg: "same_config s s'" using r by (simp add: released_def same_config_def unreferenced_def)
  show "pmm_wf s'" using r by (simp add: released_def)
  show "counts_ok s'" if "counts_ok s" using released_counts [OF r] h that by simp
  show "md_ok s'" if "md_ok s"
    using that fs held_frames_used [OF h] cfg unfolding md_ok_def same_config_def md_accessible_def
    by (metis frame_state.distinct(3))
  show "held s' q o'" if "held s q o'" "block q o' \<inter> block p order = {}" for q o'
    using released_held [OF r] that by simp
qed (use r in \<open>auto simp: released_def unreferenced_def mgmt_le_def\<close>)

lemma blocks_disjoint_base: "block q order' \<inter> block p order = {} \<Longrightarrow> q \<noteq> p"
  by (metis IntI block_base empty_iff)

lemma released_keeps_owned:
  assumes r: "released order p (unreferenced p s) s'" and h: "held s p order"
    and c: "client_owns s b" "block (fst b) (snd b) \<inter> block p order = {}"
  shows "client_owns s' b"
proof -
  obtain q o' where b: "b = (q, o')" by fastforce
  have "q \<noteq> p" using blocks_disjoint_base c(2) b by auto
  then show ?thesis
    using released_facts(5) [OF r h, of q o'] released_facts(7,8) [OF r h] c b
    by (simp add: client_owns_def client_block_def mgmt_le_def) blast
qed

section \<open>An allocated block is in the hands of its client\<close>

lemma frame_below: "frame_state s f \<noteq> Unusable \<Longrightarrow> f < 67108864"
  using frame_stateD [of s f] by (simp add: table_of_def)

lemma allocated_was_free: "allocated owner order q s s' \<Longrightarrow> frame_state s q = Free"
  using block_base [of q order] by (fastforce simp: allocated_def free_set_def simp del: block_base)

lemma allocated_order:
  assumes "allocated owner order q s s'"
  shows "order \<le> 26"
proof -
  have "block q order \<subseteq> {..<67108864}"
    using assms frame_below [of s] by (auto simp: allocated_def free_set_def)
  then have "(2::nat) ^ order \<le> 2 ^ 26" using card_mono [of "{..<67108864::nat}" "block q order"] by simp
  then show ?thesis by (rule power_le_imp_le_exp [rotated]) simp
qed

lemma allocated_owns:
  assumes wf: "pmm_wf s" and al: "allocated owner order q s s'" and md: "metadata_available s"
  shows "client_owns s' (q, order)"
proof -
  have o: "order \<le> 26" by (rule allocated_order [OF al])
  have "\<not> mgmt_frame s f" if "f \<in> block q order" for f
    using al that mgmt_frame_Used [OF wf, of f] by (auto simp: allocated_def free_set_def)
  moreover have "unat (of_nat order :: uint32_t) = order"
    using o by (simp add: unat_of_nat take_bit_nat_eq_self)
  ultimately show ?thesis
    using al md o by (auto simp: client_owns_def client_block_def allocated_def mgmt_le_def new_metadata_def)
qed

lemma allocated_keeps_owned:
  assumes al: "allocated owner order q s s'" and c: "client_owns s b"
  shows "client_owns s' b" "block (fst b) (snd b) \<inter> block q order = {}"
proof -
  obtain p o' where b: "b = (p, o')" by fastforce
  have u: "frame_state s f = Used" if "f \<in> block p o'" for f
    using held_frames_used [OF _ that] c b by (simp add: client_owns_def client_block_def)
  then show d: "block (fst b) (snd b) \<inter> block q order = {}"
    using al b by (auto simp: allocated_def free_set_def)
  then have "p \<noteq> q" using blocks_disjoint_base b by auto
  then show "client_owns s' b"
    using al c b by (auto simp: client_owns_def client_block_def allocated_def mgmt_le_def keeps_held_def)
qed

lemma unchanged_keeps_owned: "unchanged s s' \<Longrightarrow> client_owns s b \<Longrightarrow> client_owns s' b"
  by (auto simp: client_owns_def client_block_def unchanged_def keeps_held_def mgmt_le_def same_rest_def split: prod.splits)

section \<open>The allocator as a provider of blocks\<close>

definition pmm_inv :: "pmm \<Rightarrow> bool" where
  "pmm_inv s \<longleftrightarrow> pmm_wf s \<and> counts_ok s \<and> md_ok s \<and> allocation_available s \<and> metadata_available s \<and>
     preemption_depth s \<noteq> 0xFFFFFFFF"

text \<open>A request of a client that sets \<^verbatim>\<open>*pfn\<close> to an invalid frame number before the call, made while the
  pools are above their watermarks.\<close>

definition pmm_request :: "pmm \<Rightarrow> nat \<Rightarrow> pmm \<times> StStatus \<times> nat \<Rightarrow> bool" where
  "pmm_request s order r \<longleftrightarrow> ample s \<and> (\<exists>count owner alloc_flags. order = nat (get_order count) \<and>
     (5 \<le> get_order count \<or> request_align_order alloc_flags (get_order count) \<le> 5) \<and>
     StPmm_AllocateContiguousFrame INVALID_PFN count owner alloc_flags s = Returned r)"

definition pmm_take :: "pmm \<Rightarrow> nat \<times> nat \<Rightarrow> pmm \<Rightarrow> bool" where
  "pmm_take s b s' \<longleftrightarrow> pmm_request s (snd b) (s', STATUS_SUCCESS, fst b) \<and> fst b \<noteq> INVALID_PFN"

definition pmm_refuse :: "pmm \<Rightarrow> pmm \<Rightarrow> bool" where
  "pmm_refuse s s' \<longleftrightarrow> (\<exists>order st q. pmm_request s order (s', st, q) \<and> (st \<noteq> STATUS_SUCCESS \<or> q = INVALID_PFN))"

definition pmm_give :: "pmm \<Rightarrow> nat \<times> nat \<Rightarrow> pmm \<Rightarrow> bool" where
  "pmm_give s b s' \<longleftrightarrow> StPmm_FreeContiguousFrame (fst b) s = Returned s'"

lemma pmm_request_cases:
  assumes "pmm_inv s" "pmm_request s order (s', st, q)"
  obtains (served) owner where "st = STATUS_SUCCESS" "q \<noteq> INVALID_PFN" "allocated owner order q s s'" "pmm_inv s'"
  | (refused) "q = INVALID_PFN" "unchanged s s'" "pmm_inv s'"
proof -
  have s: "alloc_ready s" "md_ok s" "counts_ok s" "preemption_depth s \<noteq> 0xFFFFFFFF" "ample s"
    using assms by (auto simp: pmm_inv_def pmm_request_def alloc_ready_def)
  obtain count owner alloc_flags where c: "order = nat (get_order count)"
    "5 \<le> get_order count \<or> request_align_order alloc_flags (get_order count) \<le> 5"
    "StPmm_AllocateContiguousFrame INVALID_PFN count owner alloc_flags s = Returned (s', st, q)"
    using assms(2) by (auto simp: pmm_request_def)
  have "pmm_wf s' \<and> md_ok s' \<and> counts_ok s' \<and>
    (st = STATUS_SUCCESS \<and> allocated owner order q s s' \<or> q = INVALID_PFN \<and> unchanged s s')"
    using allocate_body_post [OF s(1,4) c(2), where owner = owner and pfn = INVALID_PFN and alloc = nested_allocator,
        folded allocate_eq_body, unfolded c(3)]
    by (rule alloc_postE [OF _ s(2)]) (use s(3) in \<open>auto simp: c(1)\<close>)
  then have r: "pmm_wf s'" "md_ok s'" "counts_ok s'"
    "st = STATUS_SUCCESS \<and> allocated owner order q s s' \<or> q = INVALID_PFN \<and> unchanged s s'" by blast+
  have "pmm_inv s'" if "same_config s s'" using that r(1-3) assms(1) by (simp add: pmm_inv_def same_config_def)
  moreover have "q \<noteq> INVALID_PFN" if "allocated owner order q s s'"
    using frame_below [of s q] allocated_was_free [OF that] by (auto simp: INVALID_PFN_def)
  moreover have "allocated owner order q s s' \<Longrightarrow> same_config s s'" "unchanged s s' \<Longrightarrow> same_config s s'"
    by (simp_all add: allocated_def unchanged_def same_rest_def same_config_def)
  ultimately show thesis using r(4) served refused by blast
qed

lemma pmm_give_released:
  assumes "pmm_inv s" "client_owns s (p, order)"
  shows "\<exists>s'. StPmm_FreeContiguousFrame p s = Returned s' \<and> released order p (unreferenced p s) s' \<and> pmm_inv s'"
proof -
  have s: "pmm_wf s" "md_ok s" "metadata_available s" "preemption_depth s \<noteq> 0xFFFFFFFF" "held s p order"
    using assms by (auto simp: pmm_inv_def client_owns_def client_block_def)
  obtain s' where s': "StPmm_FreeContiguousFrame p s = Returned s'" "released order p (unreferenced p s) s'"
    using free_released [OF s(1) assms(2) client_owns_accessible [OF s(2,3) assms(2)] s(4)] by blast
  have "pmm_inv s'"
    using released_facts(1-3,6) [OF s'(2) s(5)] assms(1) by (simp add: pmm_inv_def same_config_def)
  then show ?thesis using s' by blast
qed

lemma pmm_take_allocated:
  "pmm_inv s \<Longrightarrow> pmm_take s b s' \<Longrightarrow> pmm_inv s' \<and> (\<exists>owner. allocated owner (snd b) (fst b) s s')"
  unfolding pmm_take_def using pmm_request_cases [of s "snd b" s' STATUS_SUCCESS "fst b"] by blast

lemma pmm_refuse_unchanged: "pmm_inv s \<Longrightarrow> pmm_refuse s s' \<Longrightarrow> pmm_inv s' \<and> unchanged s s'"
  unfolding pmm_refuse_def using pmm_request_cases [of s _ s'] by blast

interpretation frames: block_allocator pmm_inv client_owns "\<lambda>b. block (fst b) (snd b)" pmm_take pmm_refuse pmm_give
proof unfold_locales
  show "block (fst b) (snd b) \<noteq> {}" for b using block_base by blast
  show "pmm_inv s'" if "pmm_inv s" "pmm_take s b s'" for s b s'
    using pmm_take_allocated [OF that] by simp
  show "client_owns s' b" if "pmm_inv s" "pmm_take s b s'" for s b s'
    using pmm_take_allocated [OF that] allocated_owns [of s _ "snd b" "fst b" s'] that(1) by (auto simp: pmm_inv_def)
  show "client_owns s' c" if "pmm_inv s" "pmm_take s b s'" "client_owns s c" for s b s' c
    using pmm_take_allocated [OF that(1,2)] allocated_keeps_owned(1) that(3) by blast
  show "block (fst c) (snd c) \<inter> block (fst b) (snd b) = {}"
    if "pmm_inv s" "pmm_take s b s'" "client_owns s c" for s b s' c
    using pmm_take_allocated [OF that(1,2)] allocated_keeps_owned(2) that(3) by blast
  show "pmm_inv s'" if "pmm_inv s" "pmm_refuse s s'" for s s'
    using pmm_refuse_unchanged [OF that] by simp
  show "client_owns s' c" if "pmm_inv s" "pmm_refuse s s'" "client_owns s c" for s s' c
    using pmm_refuse_unchanged [OF that(1,2)] unchanged_keeps_owned that(3) by blast
  show "\<exists>s'. pmm_give s b s'" if "pmm_inv s" "client_owns s b" for s b
    using that pmm_give_released [of s "fst b" "snd b"] unfolding pmm_give_def prod.collapse by blast
  show "pmm_inv s'" if "pmm_inv s" "client_owns s b" "pmm_give s b s'" for s b s'
    using pmm_give_released [of s "fst b" "snd b"] that unfolding pmm_give_def prod.collapse by fastforce
  show "client_owns s' c" if "pmm_inv s" "client_owns s b" "pmm_give s b s'" "client_owns s c"
    "block (fst c) (snd c) \<inter> block (fst b) (snd b) = {}" for s b s' c
  proof -
    have "held s (fst b) (snd b)" using that(2) by (auto simp: client_owns_def client_block_def)
    moreover have "released (snd b) (fst b) (unreferenced (fst b) s) s'"
      using pmm_give_released [of s "fst b" "snd b"] that(1-3) unfolding pmm_give_def prod.collapse by fastforce
    ultimately show ?thesis using released_keeps_owned that(4,5) by blast
  qed
qed


lemma no_overflow_commute: "x \<le> x + k \<Longrightarrow> k \<le> x + (k :: 64 word)"
  by (metis add.commute olen_add_eqv)

lemma usage_roundtrip:
  assumes "page_usage_count ow \<le> page_usage_count ow + push_bit order 1"
  shows "page_usage_count (discharge_owner order (charge_owner order ow)) = page_usage_count ow"
proof -
  have "page_usage_count (charge_owner order ow) = page_usage_count ow + push_bit order 1"
    by (simp add: charge_owner_def Let_def StAllocationOwner_Acquire_def)
  moreover have "page_usage_count (StAllocationOwner_Release ow) = page_usage_count ow" for ow
    by (simp add: StAllocationOwner_Release_def split: prod.split)
  ultimately show ?thesis using no_overflow_commute [OF assms] by (simp add: discharge_owner_def Let_def)
qed

section \<open>Example\<close>

definition last_entry :: nat where "last_entry = 4095 * 16384 + 511 * 32"

lemma alloc_one:
  assumes s: "alloc_ready s" "preemption_depth s \<noteq> 0xFFFFFFFF" and a: "atpa s 4095 = ATPA_FREE"
  shows "\<exists>s'. StPmm_AllocateContiguousFrame pfn 1 None AF_DEFAULT s = Returned (s', STATUS_SUCCESS, last_entry) \<and>
    pmm_wf s' \<and> md_ok s' \<and> (counts_ok s \<longrightarrow> counts_ok s') \<and> allocated None 0 last_entry s s'"
proof -
  have av: "allocation_available s" and md: "md_ok s" using s by (auto simp: alloc_ready_def)
  have "StPmm_AllocateContiguousFrame pfn 1 None AF_DEFAULT s =
    with_preemption_locked (allocate_small_loop nested_allocator None 0 0 511 1 pfn (4095 # for_down 4094 1)) s"
    using allocate_eq_small [of s 1 0 AF_DEFAULT 0 4096 511 pfn] for_down_tables [of 0] av
    by (simp add: get_order_small AF_DEFAULT_def af_defs request_align_order_def table_align_jump_def atpa_align_jump_def
        atpa_search_limit_def table_search_start_def round_start_def pmm_consts)
  then have "alloc_post None 0 pfn {4095 * 16384 + 511 * 32} {} s (StPmm_AllocateContiguousFrame pfn 1 None AF_DEFAULT s)"
    using s a by (simp only:) (rule with_preemption_post [OF s(2)], rule first_free_small, simp_all add: ready_depth)
  then show ?thesis unfolding last_entry_def by (rule alloc_postE [OF _ md]) auto
qed

lemma one_table_inv: "pmm_inv (one_table 4095 0)" "ample (one_table 4095 0)"
  using one_table_ready [of 0 4095] one_table_counts [of 4095 0]
  by (auto simp: pmm_inv_def alloc_ready_def) (simp add: one_table_def)

lemma one_table_alloc:
  "\<exists>s'. StPmm_AllocateContiguousFrame INVALID_PFN 1 None AF_DEFAULT (one_table 4095 0) = Returned (s', STATUS_SUCCESS, last_entry)"
  using alloc_one [of "one_table 4095 0" INVALID_PFN] one_table_ready [of 0 4095] by (auto simp: one_table_def)

lemma one_table_request: "\<exists>s'. pmm_take (one_table 4095 0) (last_entry, 0) s'"
proof -
  obtain s' where
    s': "StPmm_AllocateContiguousFrame INVALID_PFN 1 None AF_DEFAULT (one_table 4095 0) = Returned (s', STATUS_SUCCESS, last_entry)"
    using one_table_alloc by blast
  have "0 = nat (get_order 1)" "request_align_order AF_DEFAULT (get_order 1) \<le> 5" by code_simp+
  then have "pmm_request (one_table 4095 0) 0 (s', STATUS_SUCCESS, last_entry)"
    unfolding pmm_request_def using one_table_inv(2) s' by blast
  moreover have "last_entry \<noteq> INVALID_PFN" by (simp add: last_entry_def INVALID_PFN_def)
  ultimately show ?thesis by (auto simp: pmm_take_def)
qed

section \<open>Properties\<close>



text \<open>C3: Releasing a block with one reference frees exactly its frames: they become free, every other frame
  keeps its state, the counter goes up by the size of the block, the owner is discharged, every other held
  block stays held, and a second release of the block panics.\<close>

theorem pmm_free_releases:
  assumes "pmm_inv s" "client_owns s (p, order)"
  shows "\<exists>s'. StPmm_FreeContiguousFrame p s = Returned s' \<and> pmm_wf s' \<and> counts_ok s' \<and> md_ok s' \<and>
    (\<forall>f. frame_state s' f = (if f \<in> block p order then Free else frame_state s f)) \<and>
    free_frames s' = free_frames s + push_bit order 1 \<and>
    owners s' = (case md_owner (metadata s p) of None \<Rightarrow> owners s
                 | Some n \<Rightarrow> (owners s)(n := discharge_owner order (owners s n))) \<and>
    (\<forall>q order'. held s q order' \<and> block q order' \<inter> block p order = {} \<longrightarrow> held s' q order') \<and>
    StPmm_FreeContiguousFrame p s' = Panicked STATUS_CONFLICTING_STATE"
proof -
  have h: "held s p order" and o: "unat (md_order (metadata s p)) = order"
    using assms(2) by (auto simp: client_owns_def client_block_def)
  obtain s' where s': "StPmm_FreeContiguousFrame p s = Returned s'" "released order p (unreferenced p s) s'" "pmm_inv s'"
    using pmm_give_released [OF assms] by blast
  note f = released_facts [OF s'(2) h]
  have "md_accessible s p"
    using assms by (intro client_owns_accessible) (auto simp: pmm_inv_def)
  then have "md_accessible s' p" using f(6) by (simp add: md_accessible_def same_config_def)
  then have "StPmm_FreeContiguousFrame p s' = Panicked STATUS_CONFLICTING_STATE"
    using f(8) by (simp add: StPmm_FreeContiguousFrame_def)
  moreover have "owners s' = (case md_owner (metadata s p) of None \<Rightarrow> owners s
                 | Some n \<Rightarrow> (owners s)(n := discharge_owner order (owners s n)))"
    unfolding f(10) o [symmetric] by (simp add: unreferenced_def)
  ultimately show ?thesis using s' f(4,5,9) by (intro exI [of _ s']) (simp add: pmm_inv_def)
qed

theorem pmm_free_releases_witness:
  "\<exists>s s'. pmm_take (one_table 4095 0) (last_entry, 0) s \<and> StPmm_FreeContiguousFrame last_entry s = Returned s' \<and>
     frame_state s' last_entry = Free \<and> StPmm_FreeContiguousFrame last_entry s' = Panicked STATUS_CONFLICTING_STATE"
proof -
  obtain s where t: "pmm_take (one_table 4095 0) (last_entry, 0) s" using one_table_request by blast
  have "pmm_inv s" "client_owns s (last_entry, 0)"
    by (rule frames.take_inv frames.take_owns, rule one_table_inv, rule t)+
  then show ?thesis using pmm_free_releases [of s last_entry 0] t by (auto simp: block_def)
qed



text \<open>C38: Taking a reference on a block and dropping it gives the state back, so a block with several
  references is not released before the last; dropping a reference that does not exist panics.\<close>

theorem pmm_reference_roundtrip:
  assumes "md_accessible s p" "0 < md_refcount (metadata s p)" "md_refcount (metadata s p) \<noteq> 0xFFFFFFFF"
  shows "obind (StPmm_AcquireContiguousFrame p s) (\<lambda>(s', st). StPmm_FreeContiguousFrame p s') = Returned s"
proof -
  let ?r = "md_refcount (metadata s p)"
  have "1 < ?r + 1" using assms(2,3) by (unat_arith; simp)
  then show ?thesis
    using assms(1) by (simp add: StPmm_AcquireContiguousFrame_def StPmm_FreeContiguousFrame_def md_accessible_def Let_def)
qed

theorem pmm_reference_roundtrip_witness:
  "obind (StPmm_AcquireContiguousFrame 5 ((one_table 4095 0)\<lparr>metadata := (\<lambda>_. new_metadata None 0)\<rparr>))
     (\<lambda>(s', st). StPmm_FreeContiguousFrame 5 s') = Returned ((one_table 4095 0)\<lparr>metadata := (\<lambda>_. new_metadata None 0)\<rparr>)"
  by (rule pmm_reference_roundtrip) (simp_all add: one_table_def md_accessible_def new_metadata_def)

end
