(* ===== verification/Pmm_Mark.thy ===== *)
theory Pmm_Mark
  imports Pmm_Alloc
begin

text \<open>
  The building of the frame map: initialisation and the marking of usable and unusable ranges
  (\<^verbatim>\<open>strata/mm/pmm.c\<close>).
\<close>

section \<open>Initialisation\<close>

definition StPmm_Init :: "pmm \<Rightarrow> pmm \<times> StStatus" where
  "StPmm_Init s =
     (s\<lparr>atpa := fill_range (atpa s) 0 ALLOC_TABLE_PTR_ARRAY_SIZE ATPA_UNUSABLE,
        total_frames := 0, free_frames := 0,
        early_alloctbl_pool_used_count := 0, early_extentry_pool_used_count := 0,
        dynamic_alloctbl_freelist := [], dynamic_alloctbl_free_count := 0,
        dynamic_extentry_freelist := [], dynamic_extentry_free_count := 0,
        is_topping_up_alloctbl_pool := False, is_topping_up_extentry_pool := False\<rparr>,
      STATUS_SUCCESS)"

definition pmm_allocator :: allocator where
  "pmm_allocator s pfn count alloc_flags = StPmm_AllocateContiguousFrame pfn count None alloc_flags s"

section \<open>Marking\<close>

text \<open>The innermost loop of both marking functions, on the slots of one extended entry. It gives the
  frame it stopped at.\<close>

function mark_slots :: "ee_state \<Rightarrow> extentry_ptr \<Rightarrow> nat \<Rightarrow> nat \<Rightarrow> nat \<Rightarrow> pmm \<Rightarrow> nat \<times> pmm" where
  "mark_slots v e entry_idx limit base s =
     (if base \<le> limit \<and> (base mod ALLOC_TABLE_COVERAGE_PAGES) div ALLOCENT_COVERAGE_PAGES = entry_idx
      then mark_slots v e entry_idx limit (base + 1)
             (s\<lparr>extentries := (extentries s)(e :=
                 (extentries s e)(base mod ALLOCENT_COVERAGE_PAGES := v))\<rparr>)
      else (base, s))"
  by pat_completeness auto
termination by (relation "measure (\<lambda>(_, _, _, limit, base, _). Suc limit - base)") auto

declare mark_slots.simps [simp del]

lemma mark_slots_mono: "base \<le> fst (mark_slots v e entry_idx limit base s)"
proof (induction v e entry_idx limit base s rule: mark_slots.induct)
  case (1 v e entry_idx limit base s)
  then show ?case by (subst mark_slots.simps) auto
qed

lemma mark_slots_step:
  assumes "mark_slots v e (base mod ALLOC_TABLE_COVERAGE_PAGES div ALLOCENT_COVERAGE_PAGES)
             limit base s = (base', s')"
    and "base \<le> limit"
  shows "base < base'" "Suc limit - base' < Suc limit - base"
proof -
  obtain s'' where "mark_slots v e (base mod ALLOC_TABLE_COVERAGE_PAGES div ALLOCENT_COVERAGE_PAGES)
          limit (base + 1) s'' = (base', s')"
    using assms by (subst (asm) mark_slots.simps) simp
  then show "base < base'" by (metis fst_conv mark_slots_mono Suc_eq_plus1 Suc_le_eq)
  then show "Suc limit - base' < Suc limit - base" using assms(2) by simp
qed

text \<open>The loop on the entries of one table, for the value \<open>ent\<close> of a whole entry and \<open>v\<close> of a
  slot. It gives the status of an early return or the frame it stopped at.\<close>

function mark_entries ::
  "alloc_table_entry \<Rightarrow> ee_state \<Rightarrow> table_ptr \<Rightarrow> nat \<Rightarrow> nat \<Rightarrow> nat \<Rightarrow> pmm
     \<Rightarrow> (pmm \<times> (StStatus + nat)) outcome" where
  "mark_entries ent v t table_idx limit base s =
     (if base \<le> limit \<and> base div ALLOC_TABLE_COVERAGE_PAGES = table_idx then
        let entry_idx = (base mod ALLOC_TABLE_COVERAGE_PAGES) div ALLOCENT_COVERAGE_PAGES in
        if base mod ALLOCENT_COVERAGE_PAGES = 0 \<and> limit \<ge> base + ALLOCENT_COVERAGE_PAGES - 1 then
          if t = WildTable then Undefined
          else mark_entries ent v t table_idx limit (base + ALLOCENT_COVERAGE_PAGES)
                 (s\<lparr>tables := (tables s)(t := (tables s t)(entry_idx := ent))\<rparr>)
        else
          obind (get_or_create_extentry pmm_allocator t entry_idx s) (\<lambda>(s, r).
            case r of
              Inl status \<Rightarrow> Returned (s, Inl status)
            | Inr e \<Rightarrow>
                (case mark_slots v e entry_idx limit base s of
                   (base', s) \<Rightarrow> mark_entries ent v t table_idx limit base' s))
      else Returned (s, Inr base))"
  by pat_completeness auto
termination
  by (relation "measure (\<lambda>(_, _, _, _, limit, base, _). Suc limit - base)")
    (auto simp: pmm_consts dest!: sym [of "(_, _)" "mark_slots _ _ _ _ _ _"]
       dest: mark_slots_step(2) [unfolded pmm_consts, simplified])

declare mark_entries.simps [simp del]

lemma mark_entries_mono:
  "mark_entries ent v t table_idx limit base s = Returned (s', Inr base') \<Longrightarrow> base \<le> base'"
proof (induction ent v t table_idx limit base s rule: mark_entries.induct)
  case (1 ent v t table_idx limit base s)
  let ?e = "base mod ALLOC_TABLE_COVERAGE_PAGES div ALLOCENT_COVERAGE_PAGES"
  show ?case
  proof (cases "base \<le> limit \<and> base div ALLOC_TABLE_COVERAGE_PAGES = table_idx")
    case c: True
    show ?thesis
    proof (cases "base mod ALLOCENT_COVERAGE_PAGES = 0 \<and> limit \<ge> base + ALLOCENT_COVERAGE_PAGES - 1")
      case True
      then show ?thesis
        using 1(3) [unfolded mark_entries.simps [of ent v t table_idx limit base s]] 1(1) [OF c refl True] c
        by (auto split: if_splits)
    next
      case False
      then obtain s1 e where e: "get_or_create_extentry pmm_allocator t ?e s = Returned (s1, Inr e)"
        "(case mark_slots v e ?e limit base s1 of
            (base', s) \<Rightarrow> mark_entries ent v t table_idx limit base' s) = Returned (s', Inr base')"
        using 1(3) [unfolded mark_entries.simps [of ent v t table_idx limit base s]] c
        by (auto simp: Let_def split: sum.splits)
      obtain b2 s2 where b2: "mark_slots v e ?e limit base s1 = (b2, s2)" by fastforce
      have "b2 \<le> base'"
        using e b2 1(2) [OF c refl False] by simp
      then show ?thesis using mark_slots_step(1) [OF b2] c by simp
    qed
  next
    case False
    then show ?thesis
      using 1(3) [unfolded mark_entries.simps [of ent v t table_idx limit base s]] by (simp split: if_splits)
  qed
qed

lemma mark_entries_step:
  assumes "mark_entries ent v t (base div ALLOC_TABLE_COVERAGE_PAGES) limit base s =
             Returned (s', Inr base')" "base \<le> limit"
  shows "base < base'" "Suc limit - base' < Suc limit - base"
proof -
  let ?e = "base mod ALLOC_TABLE_COVERAGE_PAGES div ALLOCENT_COVERAGE_PAGES"
  let ?T = "base div ALLOC_TABLE_COVERAGE_PAGES"
  show "base < base'"
  proof (cases "base mod ALLOCENT_COVERAGE_PAGES = 0 \<and> limit \<ge> base + ALLOCENT_COVERAGE_PAGES - 1")
    case True
    then have "base + ALLOCENT_COVERAGE_PAGES \<le> base'"
      using assms(1) [unfolded mark_entries.simps [of ent v t ?T limit base s]] assms(2)
      by (auto split: if_splits dest: mark_entries_mono)
    then show ?thesis by (simp add: pmm_consts)
  next
    case False
    then obtain s1 e where e: "get_or_create_extentry pmm_allocator t ?e s = Returned (s1, Inr e)"
      "(case mark_slots v e ?e limit base s1 of
          (base', s) \<Rightarrow> mark_entries ent v t ?T limit base' s) = Returned (s', Inr base')"
      using assms(1) [unfolded mark_entries.simps [of ent v t ?T limit base s]] assms(2)
      by (auto simp: Let_def split: sum.splits)
    obtain b2 s2 where b2: "mark_slots v e ?e limit base s1 = (b2, s2)" by fastforce
    then have "b2 \<le> base'" using e by (auto dest: mark_entries_mono)
    then show ?thesis using mark_slots_step(1) [OF b2 assms(2)] by simp
  qed
  then show "Suc limit - base' < Suc limit - base" using assms(2) by simp
qed

text \<open>
  The outer loop of \<^verbatim>\<open>StPmm_MarkUsableContiguousFrame\<close> remembers the last table it looked up:
  \<open>cached\<close> is \<^verbatim>\<open>table_idx\<close> with \<^verbatim>\<open>table\<close>, \<open>None\<close> for their initial values -1 and NULL.
\<close>

function mark_usable_loop ::
  "(nat \<times> table_ptr) option \<Rightarrow> nat \<Rightarrow> nat \<Rightarrow> pmm \<Rightarrow> (pmm \<times> StStatus) outcome" where
  "mark_usable_loop cached limit base s =
     (if base \<le> limit \<and> base < ATPA_COVERAGE_PAGES then
        if base mod ALLOC_TABLE_COVERAGE_PAGES = 0 \<and>
           limit \<ge> base + ALLOC_TABLE_COVERAGE_PAGES - 1 then
          mark_usable_loop cached limit (base + ALLOC_TABLE_COVERAGE_PAGES)
            (s\<lparr>atpa := (atpa s)(base div ALLOC_TABLE_COVERAGE_PAGES := ATPA_FREE)\<rparr>)
        else
          let table_idx = base div ALLOC_TABLE_COVERAGE_PAGES in
          obind
            (case cached of
               Some (idx, t) \<Rightarrow>
                 if idx \<noteq> table_idx then get_or_create_table pmm_allocator table_idx s
                 else Returned (s, Inr t)
             | None \<Rightarrow> get_or_create_table pmm_allocator table_idx s) (\<lambda>(s, r).
          case r of
            Inl status \<Rightarrow> Returned (s, status)
          | Inr t \<Rightarrow>
              obind (mark_entries (ENT_BITMAP ALLOCENT_BMP_FREE) EE_FREE t table_idx limit base s)
                (\<lambda>(s, r). case r of
                    Inl status \<Rightarrow> Returned (s, status)
                  | Inr base' \<Rightarrow> mark_usable_loop (Some (table_idx, t)) limit base' s))
      else Returned (s, STATUS_SUCCESS))"
  by pat_completeness auto
termination
  by (relation "measure (\<lambda>(_, limit, base, _). Suc limit - base)")
    (auto simp: pmm_consts dest: mark_entries_step(2) [unfolded pmm_consts, simplified])

declare mark_usable_loop.simps [simp del]

definition StPmm_MarkUsableContiguousFrame :: "nat \<Rightarrow> nat \<Rightarrow> pmm \<Rightarrow> (pmm \<times> StStatus) outcome" where
  "StPmm_MarkUsableContiguousFrame base limit s =
     (if remarking_unavailable s then Returned (s, STATUS_CONFLICTING_STATE)
      else mark_usable_loop None limit base s)"

function mark_unusable_loop :: "nat \<Rightarrow> nat \<Rightarrow> pmm \<Rightarrow> (pmm \<times> StStatus) outcome" where
  "mark_unusable_loop limit base s =
     (if base \<le> limit \<and> base < ATPA_COVERAGE_PAGES then
        let table_idx = base div ALLOC_TABLE_COVERAGE_PAGES in
        if base mod ALLOC_TABLE_COVERAGE_PAGES = 0 \<and>
           limit \<ge> base + ALLOC_TABLE_COVERAGE_PAGES - 1 then
          mark_unusable_loop limit (base + ALLOC_TABLE_COVERAGE_PAGES)
            (s\<lparr>atpa := (atpa s)(base div ALLOC_TABLE_COVERAGE_PAGES := ATPA_UNUSABLE)\<rparr>)
        else
          obind (get_or_create_table pmm_allocator table_idx s) (\<lambda>(s, r).
          case r of
            Inl status \<Rightarrow> Returned (s, status)
          | Inr t \<Rightarrow>
              obind (mark_entries ENT_EXT_UNUSABLE EE_UNUSABLE t table_idx limit base s)
                (\<lambda>(s, r). case r of
                    Inl status \<Rightarrow> Returned (s, status)
                  | Inr base' \<Rightarrow> mark_unusable_loop limit base' s))
      else Returned (s, STATUS_SUCCESS))"
  by pat_completeness auto
termination
  by (relation "measure (\<lambda>(limit, base, _). Suc limit - base)")
    (auto simp: pmm_consts dest: mark_entries_step(2) [unfolded pmm_consts, simplified])

declare mark_unusable_loop.simps [simp del]

definition StPmm_MarkUnusableContiguousFrame :: "nat \<Rightarrow> nat \<Rightarrow> pmm \<Rightarrow> (pmm \<times> StStatus) outcome" where
  "StPmm_MarkUnusableContiguousFrame base limit s =
     (if remarking_unavailable s then Returned (s, STATUS_CONFLICTING_STATE)
      else mark_unusable_loop limit base s)"

end
