(* ===== verification/Pmm_Mark_Safe.thy ===== *)
theory Pmm_Mark_Safe
  imports Pmm_Mark
begin

text \<open>
  What the marking of usable and unusable ranges does to the frame map while it is being built: no frame is
  used yet and the pools are not topped up.
\<close>

section \<open>The map while it is built\<close>

definition fresh :: "pmm \<Rightarrow> bool" where
  "fresh s \<longleftrightarrow> pmm_wf s \<and> \<not> allocation_available s \<and> (\<forall>f. frame_state s f \<noteq> Used)"

text \<open>The frames from \<open>a\<close> to below \<open>b\<close> have become \<open>w\<close>.\<close>

definition marked :: "frame_state \<Rightarrow> nat \<Rightarrow> nat \<Rightarrow> pmm \<Rightarrow> pmm \<Rightarrow> bool" where
  "marked w a b s s' \<longleftrightarrow> fresh s' \<and> same_rest s s' \<and>
     (\<forall>f. frame_state s' f = (if a \<le> f \<and> f < b \<and> f < 67108864 then w else frame_state s f))"

lemma same_rest_refl [simp]: "same_rest s s" by (simp add: same_rest_def)

lemma same_rest_trans: "same_rest s s1 \<Longrightarrow> same_rest s1 s2 \<Longrightarrow> same_rest s s2" by (simp add: same_rest_def)

lemma marked_refl: "fresh s \<Longrightarrow> marked w a a s s" by (auto simp: marked_def)

lemma marked_fresh: "marked w a b s s' \<Longrightarrow> fresh s'" by (simp add: marked_def)

lemma marked_trans:
  assumes "marked w a b s s1" "marked w b c s1 s2" "a \<le> b" "b \<le> c"
  shows "marked w a c s s2"
  using assms same_rest_trans [of s s1 s2] by (auto simp: marked_def)

lemma fresh_no_mgmt: "fresh s \<Longrightarrow> \<not> mgmt_frame s f"
  using mgmt_frame_Used [of s f] by (auto simp: fresh_def)

lemma fresh_quiet: "fresh s \<Longrightarrow> quiet s" by (simp add: fresh_def quiet_def)

lemma markedI:
  assumes "fresh s" "pmm_wf s'" "same_rest s s'" "w \<noteq> Used"
    and "\<And>f. frame_state s' f = (if a \<le> f \<and> f < b \<and> f < 67108864 then w else frame_state s f)"
  shows "marked w a b s s'"
  using assms by (auto simp: marked_def fresh_def same_rest_def)

lemma frame_limit: "table_of f < 4096 \<longleftrightarrow> f < 67108864"
  by (simp add: table_of_def div_less_iff_less_mult)

lemma fresh_entry:
  assumes fr: "fresh s" and i: "i < 4096" "atpa s i = ATPA_PTR t h" and e: "e < 512"
  shows "tables s t e = ENT_BITMAP ALLOCENT_BMP_FREE \<or> tables s t e = ENT_EXT_UNUSABLE \<or> (\<exists>x. tables s t e = ENT_EXT x)"
proof (cases "tables s t e")
  case (ENT_BITMAP b)
  have wf: "pmm_wf s" using fr by (simp add: fresh_def)
  have "bmp_wf b" using wf_bitmap [OF wf, of t e b] ENT_BITMAP e live_tableI [OF i(2,1)] by (simp add: live_entry_def)
  moreover have "\<not> bit b p" if "p < 32" for p
  proof -
    have "frame_state s (frame_at i e p) \<noteq> Used" using fr by (simp add: fresh_def)
    then show ?thesis using i e that ENT_BITMAP by (simp add: frame_state_def split: if_splits)
  qed
  then have "pages_of b = {}" by (auto simp: pages_of_def)
  ultimately show ?thesis using ENT_BITMAP encodes_unique [OF _ encodes_free] wf_encodes by metis
qed auto

lemma fresh_slot:
  assumes "fresh s" "i < 4096"
  shows "atpa s i \<noteq> ATPA_HUGE_ALLOC"
proof
  assume "atpa s i = ATPA_HUGE_ALLOC"
  then have "frame_state s (frame_at i 0 0) = Used" using assms(2) by (simp add: frame_state_def)
  then show False using assms(1) by (simp add: fresh_def)
qed

section \<open>Slots\<close>

lemma frame_between:
  assumes "j < 512"
  shows "frame_at i j 0 \<le> f \<and> f < frame_at i j 32 \<longleftrightarrow> table_of f = i \<and> entry_of f = j"
proof
  assume a: "frame_at i j 0 \<le> f \<and> f < frame_at i j 32"
  then have "f - frame_at i j 0 < 32" "f = frame_at i j (f - frame_at i j 0)" by (auto simp: frame_at_def)
  then show "table_of f = i \<and> entry_of f = j" using frame_at_parts [OF assms] by metis
next
  assume "table_of f = i \<and> entry_of f = j"
  then obtain p where "f = frame_at i j p" "p < 32" using frame_parts [of f] page_of_less [of f] by metis
  then show "frame_at i j 0 \<le> f \<and> f < frame_at i j 32" by (auto simp: frame_at_def)
qed

lemma mark_slots_marked:
  assumes "fresh s" "i < 4096" "atpa s i = ATPA_PTR t h" "j < 512" "tables s t j = ENT_EXT e" "v \<noteq> EE_USED"
    and "frame_at i j 0 \<le> base" "base \<le> frame_at i j 32" "mark_slots v e j limit base s = (base', s')"
  shows "marked (slot_state v) base base' s s' \<and> atpa s' = atpa s \<and> tables s' = tables s \<and>
    base' = (if base \<le> limit then min (limit + 1) (frame_at i j 32) else base)"
  using assms
proof (induction v e j limit base s rule: mark_slots.induct)
  case (1 v e j limit base s)
  have wf: "pmm_wf s" using 1(2) by (simp add: fresh_def)
  let ?c = "base \<le> limit \<and> (base mod 16384) div 32 = j"
  show ?case
  proof (cases "base \<le> limit \<and> base < frame_at i j 32")
    case True
    then have p: "table_of base = i" "entry_of base = j" using frame_between [OF 1(5), of i base] 1(8) by auto
    let ?s = "s\<lparr>extentries := (extentries s)(e := (extentries s e)(base mod 32 := v))\<rparr>"
    have w: "slot_state v \<noteq> Used" using 1(7) by (cases v) auto
    have fs: "frame_state ?s f = (if base \<le> f \<and> f < base + 1 \<and> f < 67108864 then slot_state v else frame_state s f)" for f
      unfolding frame_state_ext_update [OF wf 1(3-6)]
      using p 1(3) frame_eq_iff [of f base] frame_limit [of base]
      by (auto simp: frame_state_def [of s] 1(4,6) page_of_def)
    have "pmm_wf ?s" by (rule wf_ext_update [OF wf]) (use fresh_no_mgmt [OF 1(2)] in blast)
    then have m: "marked (slot_state v) base (base + 1) s ?s"
      by (rule markedI [OF 1(2) _ _ w fs]) (simp add: same_rest_def)
    have "mark_slots v e j limit (base + 1) ?s = (base', s')"
      using 1(10) True p unfolding mark_slots.simps [of v e j limit base s] by (simp add: entry_of_def pmm_consts)
    moreover have "frame_at i j 0 \<le> base + 1" "base + 1 \<le> frame_at i j 32" using True 1(8) by auto
    ultimately have ih: "marked (slot_state v) (base + 1) base' ?s s' \<and> atpa s' = atpa ?s \<and> tables s' = tables ?s \<and>
        base' = (if base + 1 \<le> limit then min (limit + 1) (frame_at i j 32) else base + 1)"
      using True p 1(3-7) marked_fresh [OF m] by (intro 1(1) [unfolded pmm_consts]) (simp_all add: entry_of_def)
    then have "base + 1 \<le> base'" using True by auto
    then have "marked (slot_state v) base base' s s'" using ih by (intro marked_trans [OF m]) (elim conjE, assumption, simp)
    then show ?thesis using ih True by auto
  next
    case False
    have "\<not> ?c"
    proof (cases "base \<le> limit")
      case True
      then have "base = frame_at i j 32" using False 1(9) by simp
      moreover have "frame_at i j 32 = (if j = 511 then frame_at (i + 1) 0 0 else frame_at i (j + 1) 0)"
        by (simp add: frame_at_def)
      ultimately have "entry_of base \<noteq> j" using 1(5) by (auto split: if_splits)
      then show ?thesis by (auto simp: entry_of_def)
    qed simp
    then show ?thesis
      using 1(2,9,10) False unfolding mark_slots.simps [of v e j limit base s]
      by (auto simp: pmm_consts intro: marked_refl)
  qed
qed


section \<open>Entries\<close>

text \<open>The value of a whole entry and that of a slot, for the state both mean.\<close>

definition mark_value :: "alloc_table_entry \<Rightarrow> ee_state \<Rightarrow> frame_state \<Rightarrow> bool" where
  "mark_value ent v w \<longleftrightarrow> ent = ENT_BITMAP ALLOCENT_BMP_FREE \<and> v = EE_FREE \<and> w = Free \<or>
     ent = ENT_EXT_UNUSABLE \<and> v = EE_UNUSABLE \<and> w = Unusable"

lemma mark_valueD:
  assumes "mark_value ent v w"
  shows "slot_state v = w" "v \<noteq> EE_USED" "w \<noteq> Used" "entry_state s ent p = w" "ent \<noteq> ENT_EXT x"
    "ent = ENT_BITMAP b \<Longrightarrow> bmp_wf b"
  using assms encodes_wf [OF encodes_free] by (auto simp: mark_value_def ALLOCENT_BMP_FREE_def)

lemma mark_entry_marked:
  assumes fr: "fresh s" and i: "i < 4096" "atpa s i = ATPA_PTR t h" and j: "j < 512" and v: "mark_value ent v w"
  shows "marked w (frame_at i j 0) (frame_at i j 32) s (s\<lparr>tables := (tables s)(t := (tables s t)(j := ent))\<rparr>)"
proof -
  let ?s = "s\<lparr>tables := (tables s)(t := (tables s t)(j := ent))\<rparr>"
  have wf: "pmm_wf s" using fr by (simp add: fresh_def)
  have lt: "live_table s t" by (rule live_tableI [OF i(2,1)])
  have fs: "frame_state ?s f = (if frame_at i j 0 \<le> f \<and> f < frame_at i j 32 \<and> f < 67108864 then w else frame_state s f)" for f
  proof -
    have "frame_at i j 0 \<le> f \<and> f < frame_at i j 32 \<and> f < 67108864 \<longleftrightarrow> table_of f = i \<and> entry_of f = j"
      using frame_between [OF j, of i f] frame_limit [of f] i(1) by auto
    then show ?thesis
      unfolding frame_state_table_update [OF wf i] by (auto simp: frame_state_def [of s] i mark_valueD(4) [OF v])
  qed
  have "pmm_wf ?s"
  proof (rule wf_table_update [OF wf lt])
    show "bmp_wf b" if "e < 512" "((tables s t)(j := ent)) e = ENT_BITMAP b" for e b
      using that mark_valueD(6) [OF v] wf_bitmap [OF wf, of t e b] lt by (auto simp: live_entry_def split: if_splits)
    show "tables s t e = ENT_EXT x" if "e < 512" "((tables s t)(j := ent)) e = ENT_EXT x" for e x
      using that mark_valueD(5) [OF v] by (auto split: if_splits)
  qed (use fresh_no_mgmt [OF fr] in blast)
  then show ?thesis by (rule markedI [OF fr _ _ mark_valueD(3) [OF v] fs]) (simp add: same_rest_def)
qed

lemma fresh_extentry:
  assumes fr: "fresh s" and i: "i < 4096" "atpa s i = ATPA_PTR t h" and j: "j < 512"
  shows "get_or_create_extentry alloc t j s = Returned (s, Inl STATUS_INSUFFICIENT_MEMORY) \<or>
    (\<exists>s' x. get_or_create_extentry alloc t j s = Returned (s', Inr x) \<and> marked w a a s s' \<and>
       atpa s' = atpa s \<and> tables s' t j = ENT_EXT x)"
proof -
  have wf: "pmm_wf s" using fr by (simp add: fresh_def)
  have nw: "t \<noteq> WildTable" by (rule wf_not_wild [OF wf live_tableI [OF i(2,1)]])
  consider x where "tables s t j = ENT_EXT x"
    | "tables s t j = ENT_BITMAP ALLOCENT_BMP_FREE \<or> tables s t j = ENT_EXT_UNUSABLE"
    using fresh_entry [OF fr i j] by blast
  then show ?thesis
  proof cases
    case 1
    then show ?thesis using j nw marked_refl [OF fr] by (simp add: get_or_create_extentry_def pmm_consts)
  next
    case 2
    show ?thesis
    proof (rule get_or_create_extentry_spec [OF wf fresh_quiet [OF fr] i j 2, of alloc])
      fix s' x
      assume *: "get_or_create_extentry alloc t j s = Returned (s', Inr x)" "pmm_wf s'"
        "frame_state s' = frame_state s" "same_rest s s'" "atpa s' = atpa s" "tables s' = (tables s)(t := (tables s t)(j := ENT_EXT x))"
      have "marked w a a s s'" using * fr by (auto simp: marked_def fresh_def same_rest_def)
      then show ?thesis using * by auto
    qed blast
  qed
qed

lemma fresh_table:
  assumes fr: "fresh s" and i: "i < 4096"
  shows "get_or_create_table alloc i s = Returned (s, Inl STATUS_INSUFFICIENT_MEMORY) \<or>
    (\<exists>s' t h. get_or_create_table alloc i s = Returned (s', Inr t) \<and> marked w a a s s' \<and> atpa s' i = ATPA_PTR t h)"
proof -
  have wf: "pmm_wf s" using fr by (simp add: fresh_def)
  consider t h where "atpa s i = ATPA_PTR t h" | "atpa s i = ATPA_FREE \<or> atpa s i = ATPA_UNUSABLE"
    using fresh_slot [OF fr i] by (cases "atpa s i") auto
  then show ?thesis
  proof cases
    case 1
    then show ?thesis using i marked_refl [OF fr] by (simp add: get_or_create_table_def pmm_consts)
  next
    case 2
    show ?thesis
    proof (rule get_or_create_table_spec [OF wf fresh_quiet [OF fr] i 2, of alloc])
      fix s' t
      assume *: "get_or_create_table alloc i s = Returned (s', Inr t)" "pmm_wf s'"
        "frame_state s' = frame_state s" "same_rest s s'" "atpa s' = (atpa s)(i := ATPA_PTR t ATPA_ORDER_BMP_MASK)"
      have "marked w a a s s'" using * fr by (auto simp: marked_def fresh_def same_rest_def)
      then show ?thesis using * by auto
    qed blast
  qed
qed

text \<open>A loop from \<open>base\<close> to \<open>stop\<close> that may end early for want of management objects.\<close>

definition mark_result :: "frame_state \<Rightarrow> nat \<Rightarrow> nat \<Rightarrow> pmm \<Rightarrow> pmm \<Rightarrow> bool \<Rightarrow> bool" where
  "mark_result w base stop s s' fin \<longleftrightarrow> (\<exists>m. base \<le> m \<and> m \<le> stop \<and> (fin \<longrightarrow> m = stop) \<and> marked w base m s s')"

lemma mark_result_step:
  assumes "marked w a b s s1" "mark_result w b stop s1 s2 fin" "a \<le> b"
  shows "mark_result w a stop s s2 fin"
proof -
  obtain m where m: "b \<le> m" "m \<le> stop" "fin \<longrightarrow> m = stop" "marked w b m s1 s2"
    using assms(2) unfolding mark_result_def by blast
  then have "marked w a m s s2" using marked_trans [OF assms(1)] assms(3) by blast
  then show ?thesis using m assms(3) unfolding mark_result_def by (intro exI [of _ m]) simp
qed

lemma mark_result_fail: "fresh s \<Longrightarrow> a \<le> stop \<Longrightarrow> mark_result w a stop s s False"
  using marked_refl unfolding mark_result_def by blast


lemma mark_entries_marked:
  assumes "fresh s" "i < 4096" "atpa s i = ATPA_PTR t h" "mark_value ent v w"
    and "i * 16384 \<le> base" "base \<le> (i + 1) * 16384" "base \<le> limit + 1"
  shows "\<exists>s' r. mark_entries ent v t i limit base s = Returned (s', r) \<and>
    mark_result w base (min (limit + 1) ((i + 1) * 16384)) s s' (isl r = False) \<and>
    (r = Inl STATUS_INSUFFICIENT_MEMORY \<or> r = Inr (min (limit + 1) ((i + 1) * 16384)))"
  using assms
proof (induction ent v t i limit base s rule: mark_entries.induct)
  case (1 ent v t i limit base s)
  let ?stop = "min (limit + 1) ((i + 1) * 16384)"
  let ?j = "entry_of base"
  have wf: "pmm_wf s" using 1(3) by (simp add: fresh_def)
  have nw: "t \<noteq> WildTable" by (rule wf_not_wild [OF wf live_tableI [OF 1(5,4)]])
  have j: "base mod ALLOC_TABLE_COVERAGE_PAGES div ALLOCENT_COVERAGE_PAGES = ?j" by (simp add: entry_of_def pmm_consts)
  show ?case
  proof (cases "base \<le> limit \<and> base div ALLOC_TABLE_COVERAGE_PAGES = i")
    case c: True
    then have ti: "table_of base = i" by (simp add: table_of_def pmm_consts)
    have bp: "base = frame_at i ?j (page_of base)" using frame_parts [of base] ti by simp
    have nx: "frame_at i ?j 32 \<le> (i + 1) * 16384" using less_Suc_eq_le [of ?j 511] by (simp add: frame_at_def)
    have "base < frame_at i ?j 32" "frame_at i ?j 0 \<le> base"
      using frame_between [OF entry_of_less, of i base base] ti by auto
    show ?thesis
    proof (cases "base mod ALLOCENT_COVERAGE_PAGES = 0 \<and> limit \<ge> base + ALLOCENT_COVERAGE_PAGES - 1")
      case True
      then have b0: "base = frame_at i ?j 0" using bp by (simp add: page_of_def pmm_consts)
      let ?s = "s\<lparr>tables := (tables s)(t := (tables s t)(?j := ent))\<rparr>"
      have m: "marked w base (frame_at i ?j 32) s ?s"
        using mark_entry_marked [OF 1(3-5) entry_of_less 1(6), of base] b0 by simp
      have e: "mark_entries ent v t i limit base s = mark_entries ent v t i limit (frame_at i ?j 32) ?s"
        using c True nw b0 unfolding mark_entries.simps [of ent v t i limit base s]
        by (simp add: Let_def j) (simp add: pmm_consts frame_at_def)
      have "frame_at i ?j 32 = base + ALLOCENT_COVERAGE_PAGES" using b0 by (simp add: frame_at_def pmm_consts)
      then have "\<exists>s' r. mark_entries ent v t i limit (frame_at i ?j 32) ?s = Returned (s', r) \<and>
          mark_result w (frame_at i ?j 32) ?stop ?s s' (isl r = False) \<and>
          (r = Inl STATUS_INSUFFICIENT_MEMORY \<or> r = Inr ?stop)"
        using 1(1) [OF c refl True nw] c True 1(4-8) marked_fresh [OF m] nx
        by (simp add: j) (simp add: pmm_consts)
      then show ?thesis unfolding e using mark_result_step [OF m _ less_imp_le [OF \<open>base < frame_at i ?j 32\<close>]] by blast
    next
      case False
      consider (none) "get_or_create_extentry pmm_allocator t ?j s = Returned (s, Inl STATUS_INSUFFICIENT_MEMORY)"
        | (some) s1 x where "get_or_create_extentry pmm_allocator t ?j s = Returned (s1, Inr x)" "marked w base base s s1"
          "atpa s1 = atpa s" "tables s1 t ?j = ENT_EXT x"
        using fresh_extentry [OF 1(3-5) entry_of_less] by metis
      then show ?thesis
      proof cases
        case none
        then have "mark_entries ent v t i limit base s = Returned (s, Inl STATUS_INSUFFICIENT_MEMORY)"
          using c False unfolding mark_entries.simps [of ent v t i limit base s] by (auto simp: Let_def j)
        then show ?thesis using mark_result_fail [OF 1(3)] 1(8,9) by simp
      next
        case some
        obtain b2 s2 where sl: "mark_slots v x ?j limit base s1 = (b2, s2)" by fastforce
        have s1: "fresh s1" "atpa s1 i = ATPA_PTR t h" using marked_fresh [OF some(2)] some(3) 1(5) by auto
        have m: "marked (slot_state v) base b2 s1 s2 \<and> atpa s2 = atpa s1 \<and> tables s2 = tables s1 \<and>
            b2 = min (limit + 1) (frame_at i ?j 32)"
          using mark_slots_marked [OF s1(1) 1(4) s1(2) entry_of_less some(4) mark_valueD(2) [OF 1(6)] _ _ sl]
            \<open>base < frame_at i ?j 32\<close> \<open>frame_at i ?j 0 \<le> base\<close> c by auto
        then have m': "marked w base b2 s s2" using marked_trans [OF some(2)] mark_valueD(1) [OF 1(6)] c \<open>base < frame_at i ?j 32\<close> by auto
        have "base < b2" using m c \<open>base < frame_at i ?j 32\<close> by auto
        have e: "mark_entries ent v t i limit base s = mark_entries ent v t i limit b2 s2"
          using c False some(1) sl unfolding mark_entries.simps [of ent v t i limit base s] by (auto simp: Let_def j)
        have "\<exists>s' r. mark_entries ent v t i limit b2 s2 = Returned (s', r) \<and>
          mark_result w b2 ?stop s2 s' (isl r = False) \<and> (r = Inl STATUS_INSUFFICIENT_MEMORY \<or> r = Inr ?stop)"
          by (rule 1(2) [OF c refl False some(1) [folded j] refl refl sl [folded j, symmetric]])
            (use marked_fresh [OF m'] m s1 1(4,6,7) nx \<open>base < b2\<close> in auto)
        then show ?thesis unfolding e using mark_result_step [OF m' _ less_imp_le [OF \<open>base < b2\<close>]] by blast
      qed
    qed
  next
    case False
    then have "base = ?stop"
      using 1(7-9) by (auto simp: pmm_consts min_def)
    moreover have "mark_entries ent v t i limit base s = Returned (s, Inr base)"
      by (simp only: mark_entries.simps [of ent v t i limit base s] False if_False)
    ultimately show ?thesis using marked_refl [OF 1(3)] unfolding mark_result_def by auto
  qed
qed


section \<open>Ranges\<close>

lemma mark_table_marked:
  assumes fr: "fresh s" and i: "i < 4096" and a: "a = ATPA_FREE \<and> w = Free \<or> a = ATPA_UNUSABLE \<and> w = Unusable"
  shows "marked w (i * 16384) ((i + 1) * 16384) s (s\<lparr>atpa := (atpa s)(i := a)\<rparr>)"
proof -
  let ?s = "s\<lparr>atpa := (atpa s)(i := a)\<rparr>"
  have wf: "pmm_wf s" using fr by (simp add: fresh_def)
  have "i * 16384 \<le> f \<and> f < (i + 1) * 16384 \<longleftrightarrow> table_of f = i" for f
    by (auto simp: table_of_def less_eq_div_iff_mult_less_eq div_less_iff_less_mult le_antisym)
  then have iff: "i * 16384 \<le> f \<and> f < (i + 1) * 16384 \<and> f < 67108864 \<longleftrightarrow> table_of f = i" for f
    using frame_limit [of f] i by blast
  have fs: "frame_state ?s f = (if i * 16384 \<le> f \<and> f < (i + 1) * 16384 \<and> f < 67108864 then w else frame_state s f)" for f
    unfolding iff frame_state_atpa_update frame_state_def [of s] using i a by auto
  have "pmm_wf ?s"
    by (rule wf_atpa_update [OF wf]) (use fresh_no_mgmt [OF fr] a in \<open>auto split: if_splits\<close>)
  then show ?thesis using a by (intro markedI [OF fr _ _ _ fs]) (auto simp: same_rest_def)
qed

lemma mark_stop: "mark_result w a b s s' True \<Longrightarrow> marked w a b s s'"
  by (auto simp: mark_result_def)

lemma mark_usable_loop_marked:
  assumes "fresh s" "base \<le> limit + 1"
    and "\<And>idx t. cached = Some (idx, t) \<Longrightarrow> base \<le> limit \<Longrightarrow> (idx + 1) * 16384 \<le> base"
  shows "\<exists>s' st. mark_usable_loop cached limit base s = Returned (s', st) \<and>
    mark_result Free base (limit + 1) s s' False \<and>
    (st = STATUS_INSUFFICIENT_MEMORY \<or> st = STATUS_SUCCESS \<and> marked Free base (limit + 1) s s')"
  using assms
proof (induction cached limit base s rule: mark_usable_loop.induct)
  case (1 cached limit base s)
  note fr = 1(3) and le = 1(4) and ca = 1(5)
  let ?i = "base div 16384"
  show ?case
  proof (cases "base \<le> limit \<and> base < ATPA_COVERAGE_PAGES")
    case c: True
    then have i: "?i < 4096" by (simp add: pmm_consts div_less_iff_less_mult)
    show ?thesis
    proof (cases "base mod ALLOC_TABLE_COVERAGE_PAGES = 0 \<and> limit \<ge> base + ALLOC_TABLE_COVERAGE_PAGES - 1")
      case True
      let ?s = "s\<lparr>atpa := (atpa s)(?i := ATPA_FREE)\<rparr>"
      have b: "base = ?i * 16384" using True by (auto simp: pmm_consts)
      have m: "marked Free base (base + 16384) s ?s"
        using mark_table_marked [OF fr i, of ATPA_FREE Free] b by (simp add: algebra_simps)
      have b': "base + ALLOC_TABLE_COVERAGE_PAGES = base + 16384" "base div ALLOC_TABLE_COVERAGE_PAGES = ?i"
        by (simp_all add: pmm_consts)
      have e: "mark_usable_loop cached limit base s = mark_usable_loop cached limit (base + 16384) ?s"
        using c True unfolding mark_usable_loop.simps [of cached limit base s] by (simp add: pmm_consts)
      have "\<exists>s' st. mark_usable_loop cached limit (base + 16384) ?s = Returned (s', st) \<and>
          mark_result Free (base + 16384) (limit + 1) ?s s' False \<and>
          (st = STATUS_INSUFFICIENT_MEMORY \<or> st = STATUS_SUCCESS \<and> marked Free (base + 16384) (limit + 1) ?s s')"
        by (rule 1(1) [OF c True, unfolded b'])
          (use marked_fresh [OF m] True ca c in \<open>fastforce simp: pmm_consts\<close>)+
      then show ?thesis
        unfolding e using mark_result_step [OF m] marked_trans [OF m] True by (auto simp: pmm_consts)
    next
      case False
      let ?g = "get_or_create_table pmm_allocator ?i s"
      have g: "(case cached of Some (idx, t) \<Rightarrow> if idx \<noteq> ?i then ?g else Returned (s, Inr t) | None \<Rightarrow> ?g) = ?g"
        using ca c by (auto split: option.split prod.split)
      have i': "base div ALLOC_TABLE_COVERAGE_PAGES = ?i" by (simp add: pmm_consts)
      let ?k = "\<lambda>(s, r). case r of Inl status \<Rightarrow> Returned (s, status)
          | Inr t \<Rightarrow> obind (mark_entries (ENT_BITMAP ALLOCENT_BMP_FREE) EE_FREE t ?i limit base s)
                (\<lambda>(s, r). case r of Inl status \<Rightarrow> Returned (s, status)
                  | Inr base' \<Rightarrow> mark_usable_loop (Some (?i, t)) limit base' s)"
      have e: "mark_usable_loop cached limit base s = obind ?g ?k"
        by (simp only: mark_usable_loop.simps [of cached limit base s] c False if_True if_False Let_def i' g simp_thms)
      consider (none) "?g = Returned (s, Inl STATUS_INSUFFICIENT_MEMORY)"
        | (some) s1 t h where "?g = Returned (s1, Inr t)" "marked Free base base s s1" "atpa s1 ?i = ATPA_PTR t h"
        using fresh_table [OF fr i] by metis
      then show ?thesis
      proof cases
        case none
        then show ?thesis using mark_result_fail [OF fr le] by (simp add: e)
      next
        case some
        let ?stop = "min (limit + 1) ((?i + 1) * 16384)"
        have v: "mark_value (ENT_BITMAP ALLOCENT_BMP_FREE) EE_FREE Free" by (simp add: mark_value_def)
        have "?i * 16384 \<le> base" "base < (?i + 1) * 16384" by (simp, simp add: dividend_less_times_div mult.commute)
        then obtain s2 r where r: "mark_entries (ENT_BITMAP ALLOCENT_BMP_FREE) EE_FREE t ?i limit base s1 = Returned (s2, r)"
          "mark_result Free base ?stop s1 s2 (isl r = False)" "r = Inl STATUS_INSUFFICIENT_MEMORY \<or> r = Inr ?stop"
          using mark_entries_marked [OF marked_fresh [OF some(2)] i some(3) v _ _ le] by auto
        have r2: "mark_result Free base ?stop s s2 (isl r = False)"
          by (rule mark_result_step [OF some(2) r(2)]) simp
        show ?thesis
        proof (cases "r = Inl STATUS_INSUFFICIENT_MEMORY")
          case True
          then show ?thesis using r2 r(1) some(1) by (auto simp: e mark_result_def)
        next
          case rr: False
          then have r3: "r = Inr ?stop" using r(3) by blast
          then have m: "marked Free base ?stop s s2" using r2 mark_stop by simp
          have st: "base \<le> ?stop" "?stop \<le> limit + 1" using \<open>base < (?i + 1) * 16384\<close> le by auto
          have e2: "mark_usable_loop cached limit base s = mark_usable_loop (Some (?i, t)) limit ?stop s2"
            using some(1) r(1) r3 by (simp add: e)
          have "\<exists>s' st. mark_usable_loop (Some (?i, t)) limit ?stop s2 = Returned (s', st) \<and>
              mark_result Free ?stop (limit + 1) s2 s' False \<and>
              (st = STATUS_INSUFFICIENT_MEMORY \<or> st = STATUS_SUCCESS \<and> marked Free ?stop (limit + 1) s2 s')"
            by (rule 1(2) [OF c False refl, unfolded i', OF trans [OF g some(1)] refl refl r(1) refl r3])
              (use marked_fresh [OF m] st in auto)
          then show ?thesis
            unfolding e2 using mark_result_step [OF m _ st(1)] marked_trans [OF m _ st] by blast
        qed
      qed
    qed
  next
    case False
    then have "mark_usable_loop cached limit base s = Returned (s, STATUS_SUCCESS)"
      by (simp only: mark_usable_loop.simps [of cached limit base s] False if_False)
    moreover have "marked Free base (limit + 1) s s"
      using False fr le by (auto simp: marked_def pmm_consts)
    ultimately show ?thesis using le by (auto simp: mark_result_def)
  qed
qed

lemma mark_unusable_loop_marked:
  assumes "fresh s" "base \<le> limit + 1"
  shows "\<exists>s' st. mark_unusable_loop limit base s = Returned (s', st) \<and>
    mark_result Unusable base (limit + 1) s s' False \<and>
    (st = STATUS_INSUFFICIENT_MEMORY \<or> st = STATUS_SUCCESS \<and> marked Unusable base (limit + 1) s s')"
  using assms
proof (induction limit base s rule: mark_unusable_loop.induct)
  case (1 limit base s)
  note fr = 1(3) and le = 1(4)
  let ?i = "base div 16384"
  show ?case
  proof (cases "base \<le> limit \<and> base < ATPA_COVERAGE_PAGES")
    case c: True
    then have i: "?i < 4096" by (simp add: pmm_consts div_less_iff_less_mult)
    show ?thesis
    proof (cases "base mod ALLOC_TABLE_COVERAGE_PAGES = 0 \<and> limit \<ge> base + ALLOC_TABLE_COVERAGE_PAGES - 1")
      case True
      let ?s = "s\<lparr>atpa := (atpa s)(?i := ATPA_UNUSABLE)\<rparr>"
      have b: "base = ?i * 16384" using True by (auto simp: pmm_consts)
      have m: "marked Unusable base (base + 16384) s ?s"
        using mark_table_marked [OF fr i, of ATPA_UNUSABLE Unusable] b by (simp add: algebra_simps)
      have b': "base + ALLOC_TABLE_COVERAGE_PAGES = base + 16384" "base div ALLOC_TABLE_COVERAGE_PAGES = ?i"
        by (simp_all add: pmm_consts)
      have e: "mark_unusable_loop limit base s = mark_unusable_loop limit (base + 16384) ?s"
        using c True unfolding mark_unusable_loop.simps [of limit base s] by (simp add: pmm_consts)
      have "\<exists>s' st. mark_unusable_loop limit (base + 16384) ?s = Returned (s', st) \<and>
          mark_result Unusable (base + 16384) (limit + 1) ?s s' False \<and>
          (st = STATUS_INSUFFICIENT_MEMORY \<or> st = STATUS_SUCCESS \<and> marked Unusable (base + 16384) (limit + 1) ?s s')"
        by (rule 1(1) [OF c refl True, unfolded b'])
          (use marked_fresh [OF m] True c in \<open>fastforce simp: pmm_consts\<close>)+
      then show ?thesis
        unfolding e using mark_result_step [OF m] marked_trans [OF m] True by (auto simp: pmm_consts)
    next
      case False
      let ?g = "get_or_create_table pmm_allocator ?i s"
      have i': "base div ALLOC_TABLE_COVERAGE_PAGES = ?i" by (simp add: pmm_consts)
      let ?k = "\<lambda>(s, r). case r of Inl status \<Rightarrow> Returned (s, status)
          | Inr t \<Rightarrow> obind (mark_entries ENT_EXT_UNUSABLE EE_UNUSABLE t ?i limit base s)
                (\<lambda>(s, r). case r of Inl status \<Rightarrow> Returned (s, status)
                  | Inr base' \<Rightarrow> mark_unusable_loop limit base' s)"
      have e: "mark_unusable_loop limit base s = obind ?g ?k"
        by (simp only: mark_unusable_loop.simps [of limit base s] c False if_True if_False Let_def i' simp_thms)
      consider (none) "?g = Returned (s, Inl STATUS_INSUFFICIENT_MEMORY)"
        | (some) s1 t h where "?g = Returned (s1, Inr t)" "marked Unusable base base s s1" "atpa s1 ?i = ATPA_PTR t h"
        using fresh_table [OF fr i] by metis
      then show ?thesis
      proof cases
        case none
        then show ?thesis using mark_result_fail [OF fr le] by (simp add: e)
      next
        case some
        let ?stop = "min (limit + 1) ((?i + 1) * 16384)"
        have v: "mark_value ENT_EXT_UNUSABLE EE_UNUSABLE Unusable" by (simp add: mark_value_def)
        have "?i * 16384 \<le> base" "base < (?i + 1) * 16384" by (simp, simp add: dividend_less_times_div mult.commute)
        then obtain s2 r where r: "mark_entries ENT_EXT_UNUSABLE EE_UNUSABLE t ?i limit base s1 = Returned (s2, r)"
          "mark_result Unusable base ?stop s1 s2 (isl r = False)" "r = Inl STATUS_INSUFFICIENT_MEMORY \<or> r = Inr ?stop"
          using mark_entries_marked [OF marked_fresh [OF some(2)] i some(3) v _ _ le] by auto
        have r2: "mark_result Unusable base ?stop s s2 (isl r = False)"
          by (rule mark_result_step [OF some(2) r(2)]) simp
        show ?thesis
        proof (cases "r = Inl STATUS_INSUFFICIENT_MEMORY")
          case True
          then show ?thesis using r2 r(1) some(1) by (auto simp: e mark_result_def)
        next
          case rr: False
          then have r3: "r = Inr ?stop" using r(3) by blast
          then have m: "marked Unusable base ?stop s s2" using r2 mark_stop by simp
          have st: "base \<le> ?stop" "?stop \<le> limit + 1" using \<open>base < (?i + 1) * 16384\<close> le by auto
          have e2: "mark_unusable_loop limit base s = mark_unusable_loop limit ?stop s2"
            using some(1) r(1) r3 by (simp add: e)
          have "\<exists>s' st. mark_unusable_loop limit ?stop s2 = Returned (s', st) \<and>
              mark_result Unusable ?stop (limit + 1) s2 s' False \<and>
              (st = STATUS_INSUFFICIENT_MEMORY \<or> st = STATUS_SUCCESS \<and> marked Unusable ?stop (limit + 1) s2 s')"
            by (rule 1(2) [OF c refl False, unfolded i', OF some(1) refl refl r(1) refl r3])
              (use marked_fresh [OF m] st in auto)
          then show ?thesis
            unfolding e2 using mark_result_step [OF m _ st(1)] marked_trans [OF m _ st] by blast
        qed
      qed
    qed
  next
    case False
    then have "mark_unusable_loop limit base s = Returned (s, STATUS_SUCCESS)"
      by (simp only: mark_unusable_loop.simps [of limit base s] False if_False)
    moreover have "marked Unusable base (limit + 1) s s"
      using False fr le by (auto simp: marked_def pmm_consts)
    ultimately show ?thesis using le by (auto simp: mark_result_def)
  qed
qed

end
