(* ===== verification/Pmm_Mark_Props.thy ===== *)
theory Pmm_Mark_Props
  imports Pmm_Mark_Safe
begin

text \<open>The building of the frame map: initialisation and the marking of ranges.\<close>

section \<open>Properties\<close>

lemma StPmm_Init_fresh:
  assumes "\<not> allocation_available s"
  shows "fresh (fst (StPmm_Init s))" "frame_state (fst (StPmm_Init s)) f = Unusable"
proof -
  let ?s = "fst (StPmm_Init s)"
  have fs: "frame_state ?s f = Unusable" for f
    by (simp add: frame_state_def StPmm_Init_def fill_range_def pmm_consts)
  have "\<not> live_table ?s t" for t by (auto simp: live_table_def StPmm_Init_def fill_range_def pmm_consts)
  then have "pmm_wf ?s"
    by (simp add: pmm_wf_def tables_wf_def exts_wf_def bitmaps_wf_def live_entry_def)
      (auto simp: StPmm_Init_def fill_range_def pmm_consts)
  then show "fresh ?s" using assms fs by (simp add: fresh_def) (simp add: StPmm_Init_def)
  show "frame_state ?s f = Unusable" by (rule fs)
qed

text \<open>A state at boot: the statically initialised variables.\<close>

definition boot_state :: pmm where
  "boot_state = \<lparr>atpa = (\<lambda>_. ATPA_UNUSABLE), tables = (\<lambda>_ _. ENT_EXT_UNUSABLE),
     extentries = (\<lambda>_ _. EE_UNUSABLE), early_alloctbl_pool_used_count = 0, early_extentry_pool_used_count = 0,
     dynamic_alloctbl_freelist = [], dynamic_alloctbl_free_count = 0, dynamic_extentry_freelist = [],
     dynamic_extentry_free_count = 0, is_topping_up_alloctbl_pool = False, is_topping_up_extentry_pool = False,
     total_frames = 0, free_frames = 0, allocation_available = False, remarking_unavailable = False,
     metadata_available = False,
     metadata = (\<lambda>_. \<lparr>md_order = 0, md_flags = 0, md_owner = None, md_refcount = 0, md_lock = 0\<rparr>),
     md_mapped = (\<lambda>_. False), owners = (\<lambda>_. StAllocationOwner_Create), preemption_depth = 0\<rparr>"

lemma boot_state_closed: "\<not> allocation_available boot_state" by (simp add: boot_state_def)





end
