(* ===== verification/Pmm_Late.thy ===== *)
theory Pmm_Late
  imports Pmm_Mark_Props
begin

text \<open>
  \<^verbatim>\<open>StPmm_LateInit\<close> (\<^verbatim>\<open>strata/mm/pmm.c\<close>): it sizes the metadata area, finds room for it, counts the
  frames and maps the area. The platform's mapping function is an argument: it takes the first frame, the
  page of the metadata area and the number of pages, and may change the state by allocating page tables.
  A frame number that the code computes by subtraction is a 64-bit word.
\<close>

section \<open>The size of the metadata area\<close>

definition pair_unusable :: "pmm \<Rightarrow> table_ptr \<Rightarrow> nat \<Rightarrow> bool" where
  "pair_unusable s t j \<longleftrightarrow> tables s t j = ENT_EXT_UNUSABLE \<and> tables s t (j + 1) = ENT_EXT_UNUSABLE"

definition table_metadata_blocks :: "pmm \<Rightarrow> atpa_entry \<Rightarrow> nat" where
  "table_metadata_blocks s a =
     (case a of
        ATPA_FREE \<Rightarrow> ALLOC_TABLE_COVERAGE_PAGES div METADATA_BLOCK_COVERAGE_PAGES
      | ATPA_PTR t _ \<Rightarrow>
          length (filter (\<lambda>m. \<not> pair_unusable s t (2 * m)) [0..<ALLOC_TABLE_ENTRY_COUNT div 2])
      | _ \<Rightarrow> 0)"

definition required_metadata_blocks :: "pmm \<Rightarrow> nat" where
  "required_metadata_blocks s =
     sum_list (map (\<lambda>i. table_metadata_blocks s (atpa s i)) [0..<ALLOC_TABLE_PTR_ARRAY_SIZE])"

section \<open>Room for the metadata area\<close>

text \<open>The scan of one table from its last entry: the length of the free run and \<^verbatim>\<open>metadata_area_end\<close>.\<close>

fun scan_entries :: "pmm \<Rightarrow> table_ptr \<Rightarrow> nat \<Rightarrow> nat \<Rightarrow> nat list \<Rightarrow> nat \<Rightarrow> uint64_t \<Rightarrow> nat \<times> uint64_t" where
  "scan_entries s t i required [] free_cont_frames area_end = (free_cont_frames, area_end)"
| "scan_entries s t i required (j # js) free_cont_frames area_end =
     (if tables s t j \<noteq> ENT_BITMAP ALLOCENT_BMP_FREE then scan_entries s t i required js 0 area_end
      else
        let area_end =
              (if free_cont_frames = 0
               then of_nat (i * ALLOC_TABLE_COVERAGE_PAGES + j * ALLOCENT_COVERAGE_PAGES) - 1 else area_end);
            free_cont_frames = free_cont_frames + ALLOCENT_COVERAGE_PAGES
        in if free_cont_frames \<ge> required then (free_cont_frames, area_end)
           else scan_entries s t i required js free_cont_frames area_end)"

fun find_metadata_area :: "pmm \<Rightarrow> nat \<Rightarrow> nat list \<Rightarrow> uint64_t \<times> uint64_t \<Rightarrow> uint64_t \<times> uint64_t" where
  "find_metadata_area s required [] area = area"
| "find_metadata_area s required (i # is) (area_begin, area_end) =
     (case atpa s i of
        ATPA_FREE \<Rightarrow>
          (of_nat (i * ALLOC_TABLE_COVERAGE_PAGES), of_nat (i * ALLOC_TABLE_COVERAGE_PAGES + required))
      | ATPA_PTR t _ \<Rightarrow>
          (case scan_entries s t i required (rev [0..<ALLOC_TABLE_ENTRY_COUNT]) 0 area_end of
             (free_cont_frames, area_end) \<Rightarrow>
               if free_cont_frames \<ge> required then (area_end + 1 - of_nat required, area_end)
               else find_metadata_area s required is (area_begin, area_end))
      | _ \<Rightarrow> find_metadata_area s required is (area_begin, area_end))"

section \<open>Counting frames\<close>

definition entry_frames :: "pmm \<Rightarrow> alloc_table_entry \<Rightarrow> nat" where
  "entry_frames s ent =
     (case ent of
        ENT_EXT_UNUSABLE \<Rightarrow> 0
      | ENT_BITMAP _ \<Rightarrow> ALLOCENT_COVERAGE_PAGES
      | ENT_EXT x \<Rightarrow> length (filter (\<lambda>k. extentries s x k \<noteq> EE_UNUSABLE) [0..<PAGES_PER_ALLOCTABLE_ENTRY]))"

definition table_frames :: "pmm \<Rightarrow> atpa_entry \<Rightarrow> nat" where
  "table_frames s a =
     (case a of
        ATPA_FREE \<Rightarrow> ALLOC_TABLE_COVERAGE_PAGES
      | ATPA_PTR t _ \<Rightarrow> sum_list (map (\<lambda>j. entry_frames s (tables s t j)) [0..<ALLOC_TABLE_ENTRY_COUNT])
      | _ \<Rightarrow> 0)"

definition count_frames :: "pmm \<Rightarrow> pmm" where
  "count_frames s =
     (let n = sum_list (map (\<lambda>i. table_frames s (atpa s i)) [0..<ALLOC_TABLE_PTR_ARRAY_SIZE])
      in s\<lparr>total_frames := total_frames s + of_nat n, free_frames := free_frames s + of_nat n\<rparr>)"

section \<open>Mapping the metadata area\<close>

type_synonym map_global = "uint64_t \<Rightarrow> nat \<Rightarrow> nat \<Rightarrow> pmm \<Rightarrow> (pmm \<times> StStatus) outcome"

text \<open>Pages \<open>page\<close> to \<open>page + count - 1\<close> of the metadata area can be accessed once they are mapped.\<close>

definition map_metadata :: "map_global \<Rightarrow> uint64_t \<Rightarrow> nat \<Rightarrow> nat \<Rightarrow> pmm \<Rightarrow> (pmm \<times> StStatus) outcome" where
  "map_metadata map_global area_begin page count s =
     obind (map_global area_begin page count s) (\<lambda>(s, status).
       if \<not> CHECK_SUCCESS status then Returned (s, status)
       else Returned (s\<lparr>md_mapped := fill_range (md_mapped s) page count True\<rparr>, status))"

text \<open>The pages of one table, in batches; \<open>m\<close> is \<^verbatim>\<open>j / 2\<close>.\<close>

definition batch_count :: "pmm \<Rightarrow> table_ptr \<Rightarrow> nat \<Rightarrow> nat" where
  "batch_count s t m =
     length (takeWhile (\<lambda>k. \<not> pair_unusable s t (2 * k)) [m..<ALLOC_TABLE_ENTRY_COUNT div 2])"

lemma batch_count_step:
  assumes "m < ALLOC_TABLE_ENTRY_COUNT div 2" "\<not> pair_unusable s t (2 * m)"
  shows "ALLOC_TABLE_ENTRY_COUNT div 2 - (m + batch_count s t m) < ALLOC_TABLE_ENTRY_COUNT div 2 - m"
proof -
  have "0 < batch_count s t m" using assms by (simp add: batch_count_def upt_conv_Cons)
  then show ?thesis using assms(1) by linarith
qed

function map_table_metadata ::
  "map_global \<Rightarrow> nat \<Rightarrow> table_ptr \<Rightarrow> nat \<Rightarrow> uint64_t \<Rightarrow> pmm \<Rightarrow> (pmm \<times> (StStatus + uint64_t)) outcome" where
  "map_table_metadata map_global i t m area_begin s =
     (if m < ALLOC_TABLE_ENTRY_COUNT div 2 then
        if pair_unusable s t (2 * m) then map_table_metadata map_global i t (m + 1) area_begin s
        else
          obind (map_metadata map_global area_begin
                   (i * ALLOC_TABLE_COVERAGE_PAGES div METADATA_BLOCK_COVERAGE_PAGES + m) (batch_count s t m) s)
            (\<lambda>(s', status).
               if \<not> CHECK_SUCCESS status then Returned (s', Inl status)
               else map_table_metadata map_global i t (m + batch_count s t m)
                      (area_begin + of_nat (batch_count s t m)) s')
      else Returned (s, Inr area_begin))"
  by pat_completeness auto
termination
  by (relation "measure (\<lambda>(_, _, _, m, _, _). ALLOC_TABLE_ENTRY_COUNT div 2 - m)")
    (auto simp del: CHECK_SUCCESS_iff dest: batch_count_step)

fun map_tables_metadata ::
  "map_global \<Rightarrow> nat list \<Rightarrow> uint64_t \<Rightarrow> pmm \<Rightarrow> (pmm \<times> StStatus) outcome" where
  "map_tables_metadata map_global [] area_begin s = Returned (s, STATUS_SUCCESS)"
| "map_tables_metadata map_global (i # is) area_begin s =
     (case atpa s i of
        ATPA_UNUSABLE \<Rightarrow> map_tables_metadata map_global is area_begin s
      | ATPA_HUGE_ALLOC \<Rightarrow> Undefined
      | ATPA_FREE \<Rightarrow>
          let page = i * ALLOC_TABLE_COVERAGE_PAGES div METADATA_BLOCK_COVERAGE_PAGES;
              count = ALLOC_TABLE_COVERAGE_PAGES div METADATA_BLOCK_COVERAGE_PAGES
          in obind (map_metadata map_global area_begin page count s) (\<lambda>(s, status).
               if \<not> CHECK_SUCCESS status then Returned (s, status)
               else map_tables_metadata map_global is (area_begin + of_nat count) s)
      | ATPA_PTR t _ \<Rightarrow>
          obind (map_table_metadata map_global i t 0 area_begin s) (\<lambda>(s, r).
            case r of
              Inl status \<Rightarrow> Returned (s, status)
            | Inr area_begin \<Rightarrow> map_tables_metadata map_global is area_begin s))"

section \<open>Late initialisation\<close>

text \<open>A table pointer array that holds a huge allocation would be read through a wild pointer.\<close>

definition StPmm_LateInit_map :: "map_global \<Rightarrow> pmm \<Rightarrow> (pmm \<times> StStatus) outcome" where
  "StPmm_LateInit_map map_global s =
     (if \<not> list_all (\<lambda>i. atpa s i \<noteq> ATPA_HUGE_ALLOC) [0..<ALLOC_TABLE_PTR_ARRAY_SIZE] then Undefined
      else let required = required_metadata_blocks s in
        if required > ALLOC_TABLE_COVERAGE_PAGES then Returned (s, STATUS_TOO_LARGE)
        else case find_metadata_area s required (rev [0..<ALLOC_TABLE_PTR_ARRAY_SIZE]) (0, 0) of
          (area_begin, area_end) \<Rightarrow>
            obind (StPmm_MarkUnusableContiguousFrame (unat area_begin) (unat area_end) s) (\<lambda>(s, status).
              if \<not> CHECK_SUCCESS status then Returned (s, status)
              else let s = count_frames s;
                       s = s\<lparr>remarking_unavailable := True, allocation_available := True\<rparr>
                   in map_tables_metadata map_global [0..<ALLOC_TABLE_PTR_ARRAY_SIZE] area_begin s))"

definition StPmm_LateInit :: "map_global \<Rightarrow> pmm \<Rightarrow> (pmm \<times> StStatus) outcome" where
  "StPmm_LateInit map_global s =
     obind (StPmm_LateInit_map map_global s) (\<lambda>(s, status).
       if \<not> CHECK_SUCCESS status then Returned (s, status)
       else let s = s\<lparr>metadata_available := True\<rparr> in
         obind (topup_alloc_table_pool pmm_allocator s) (\<lambda>(s, _).
         obind (topup_extentry_pool pmm_allocator s) (\<lambda>(s, _).
         Returned (s, STATUS_SUCCESS))))"

declare map_table_metadata.simps [simp del]

section \<open>The frame counters\<close>

lemma sum_blocks: "(\<Sum>f \<in> {a * n..<a * n + n}. g (c + f)) = (\<Sum>r<n. g (c + a * n + r) :: nat)" for n c :: nat
  using sum.shift_bounds_nat_ivl [of "\<lambda>f. g (c + f)" 0 "a * n" n] by (simp add: ac_simps lessThan_atLeast0)

lemma sum_frames: "(\<Sum>f<67108864. g f) = (\<Sum>i<4096. \<Sum>e<512. \<Sum>p<32. g (frame_at i e p) :: nat)"
proof -
  have table: "(\<Sum>r<16384. g (i * 16384 + r)) = (\<Sum>e<512. \<Sum>p<32. g (frame_at i e p))" for i
    using sum.nat_group [of "\<lambda>r. g (i * 16384 + r)" 32 512, symmetric]
    by (simp add: sum_blocks [where g = g and c = "i * 16384" and n = 32] frame_at_def)
  show ?thesis
    using sum.nat_group [of g 16384 4096, symmetric] sum_blocks [where g = g and c = 0 and n = 16384] by (simp add: table)
qed

lemma card_free_set:
  "card (free_set s) = (\<Sum>i<4096. \<Sum>e<512. \<Sum>p<32. of_bool (frame_state s (frame_at i e p) = Free))"
proof -
  have "free_set s = {f \<in> {..<67108864}. frame_state s f = Free}"
    using frame_stateD [of s] frame_limit by (fastforce simp: free_set_def)
  then have "card (free_set s) = (\<Sum>f<67108864. of_bool (frame_state s f = Free))"
    by (simp add: sum_of_bool_eq Int_def)
  then show ?thesis by (simp only: sum_frames)
qed

lemma sum_list_upt: "sum_list (map f [0..<n]) = (\<Sum>i<n. f i :: nat)"
  by (simp add: interv_sum_list_conv_sum_set_nat lessThan_atLeast0)

lemma length_filter_upt: "length (filter P [0..<n]) = (\<Sum>p<n. of_bool (P p))"
proof -
  have "length (filter P [0..<n]) = card {p \<in> {..<n}. P p}"
    by (subst distinct_card [symmetric]) (auto intro: arg_cong [of _ _ card])
  then show ?thesis by (simp add: sum_of_bool_eq Int_def)
qed

lemma entry_frames_free:
  assumes "fresh s" "i < 4096" "atpa s i = ATPA_PTR t h" "e < 512"
  shows "entry_frames s (tables s t e) = (\<Sum>p<32. of_bool (frame_state s (frame_at i e p) = Free))"
proof -
  have fs: "frame_state s (frame_at i e p) = entry_state s (tables s t e) p" if "p < 32" for p
    using assms that by (simp add: frame_state_def)
  have nu: "entry_state s (tables s t e) p \<noteq> Used" if "p < 32" for p
    using assms(1) fs [OF that] by (metis fresh_def)
  have "(\<Sum>p<32. of_bool (frame_state s (frame_at i e p) = Free)) = (\<Sum>p<32. of_bool (entry_state s (tables s t e) p = Free) :: nat)"
    using fs by (intro sum.cong) auto
  also have "\<dots> = entry_frames s (tables s t e)"
  proof (cases "tables s t e")
    case (ENT_BITMAP b)
    then have "b = ALLOCENT_BMP_FREE" using fresh_entry [OF assms] by simp
    then show ?thesis using ENT_BITMAP by (simp add: entry_frames_def pmm_consts ALLOCENT_BMP_FREE_def)
  next
    case (ENT_EXT x)
    have "(slot_state (extentries s x p) = Free) = (extentries s x p \<noteq> EE_UNUSABLE)" if "p < 32" for p
      using nu [OF that] ENT_EXT by (cases "extentries s x p") auto
    then have "(\<Sum>p<32. of_bool (slot_state (extentries s x p) = Free)) = (\<Sum>p<32. of_bool (extentries s x p \<noteq> EE_UNUSABLE) :: nat)"
      by (intro sum.cong) auto
    then show ?thesis
      using ENT_EXT by (simp add: entry_frames_def length_filter_upt pmm_consts del: sum_of_bool_eq)
  qed (simp add: entry_frames_def)
  finally show ?thesis ..
qed

lemma table_frames_free:
  assumes fr: "fresh s" and i: "i < 4096"
  shows "table_frames s (atpa s i) = (\<Sum>e<512. \<Sum>p<32. of_bool (frame_state s (frame_at i e p) = Free))"
proof (cases "atpa s i")
  case (ATPA_PTR t h)
  then show ?thesis
    using entry_frames_free [OF fr i ATPA_PTR] by (simp add: table_frames_def sum_list_upt pmm_consts)
next
  case ATPA_HUGE_ALLOC
  then show ?thesis using fresh_slot [OF fr i] by simp
qed (use i in \<open>simp_all add: table_frames_def frame_state_def pmm_consts\<close>)

lemma count_frames_correct:
  assumes "fresh s"
  shows "count_frames s = s\<lparr>total_frames := total_frames s + of_nat (card (free_set s)),
    free_frames := free_frames s + of_nat (card (free_set s))\<rparr>"
proof -
  have "sum_list (map (\<lambda>i. table_frames s (atpa s i)) [0..<4096]) = card (free_set s)"
    unfolding sum_list_upt card_free_set by (rule sum.cong) (use table_frames_free [OF assms] in auto)
  then show ?thesis by (simp add: count_frames_def Let_def pmm_consts)
qed

section \<open>The metadata of every frame is mapped\<close>

text \<open>
  What late initialisation relies on of the platform: mapping returns, and it changes the frame map only as
  allocations of page tables do. It keeps the state well-formed and the counter right, makes no huge
  allocation, leaves every linked table in its slot, and neither makes frames unusable nor takes them back.
\<close>

definition late_inv :: "pmm \<Rightarrow> bool" where
  "late_inv s \<longleftrightarrow> pmm_wf s \<and> counts_ok s \<and> allocation_available s \<and> remarking_unavailable s \<and>
     (\<forall>i < 4096. atpa s i \<noteq> ATPA_HUGE_ALLOC)"

definition late_step :: "pmm \<Rightarrow> pmm \<Rightarrow> bool" where
  "late_step s s' \<longleftrightarrow> late_inv s' \<and> (\<forall>f. frame_state s' f = Unusable \<longleftrightarrow> frame_state s f = Unusable) \<and>
     (\<forall>i < 4096. \<forall>t h. atpa s i = ATPA_PTR t h \<longrightarrow> (\<exists>h. atpa s' i = ATPA_PTR t h)) \<and>
     (\<forall>p. md_mapped s p \<longrightarrow> md_mapped s' p)"

definition platform_ok :: "map_global \<Rightarrow> bool" where
  "platform_ok map_global \<longleftrightarrow> (\<forall>area page count s. late_inv s \<longrightarrow>
     (\<exists>s' st. map_global area page count s = Returned (s', st) \<and> late_step s s'))"

lemma late_step_refl: "late_inv s \<Longrightarrow> late_step s s" by (simp add: late_step_def)

lemma late_step_trans:
  assumes "late_step s s1" "late_step s1 s2"
  shows "late_step s s2"
proof -
  have "\<exists>h. atpa s2 i = ATPA_PTR t h" if "i < 4096" "atpa s i = ATPA_PTR t h" for i t h
    using assms that unfolding late_step_def by blast
  then show ?thesis using assms unfolding late_step_def by simp
qed

lemma late_stepD:
  assumes "late_step s s'"
  shows "late_inv s'" "\<And>f. frame_state s' f = Unusable \<longleftrightarrow> frame_state s f = Unusable"
    "\<And>i t h. i < 4096 \<Longrightarrow> atpa s i = ATPA_PTR t h \<Longrightarrow> \<exists>h. atpa s' i = ATPA_PTR t h"
    "\<And>p. md_mapped s p \<Longrightarrow> md_mapped s' p"
  using assms unfolding late_step_def by blast+

definition covered :: "pmm \<Rightarrow> nat \<Rightarrow> bool" where
  "covered s f \<longleftrightarrow> frame_state s f = Unusable \<or> md_accessible s f"

lemma late_step_covered: "late_step s s' \<Longrightarrow> covered s f \<Longrightarrow> covered s' f"
  using late_stepD(2,4) by (auto simp: covered_def md_accessible_def)

lemma md_page: "f div 64 = table_of f * 256 + entry_of f div 2"
proof -
  have "f = page_of f + (table_of f * 512 + entry_of f) * 32"
    using frame_parts [of f] by (simp add: frame_at_def)
  then have "f div 32 = (page_of f + (table_of f * 512 + entry_of f) * 32) div 32" by (rule arg_cong)
  also have "\<dots> = table_of f * 512 + entry_of f" by (simp only: div_mult_self1) (simp add: page_of_def)
  finally have "f div 32 div 2 = (entry_of f + table_of f * 256 * 2) div 2" by simp
  also have "\<dots> = table_of f * 256 + entry_of f div 2" by (simp only: div_mult_self1)
  finally show ?thesis by (simp add: div_mult2_eq [symmetric])
qed

lemma entry_pair_less: "entry_of f div 2 < 256"
  by (rule less_mult_imp_div_less) simp

lemma map_metadata_step:
  assumes "platform_ok map_global" "late_inv s"
  shows "\<exists>s' st. map_metadata map_global area page count s = Returned (s', st) \<and> late_step s s' \<and>
    (CHECK_SUCCESS st \<longrightarrow> (\<forall>p. page \<le> p \<and> p < page + count \<longrightarrow> md_mapped s' p))"
proof -
  obtain s1 st where m: "map_global area page count s = Returned (s1, st)" "late_step s s1"
    using assms unfolding platform_ok_def by blast
  let ?s = "s1\<lparr>md_mapped := fill_range (md_mapped s1) page count True\<rparr>"
  have "late_step s ?s"
    using m(2) unfolding late_step_def late_inv_def by (simp add: counts_ok_def free_set_def fill_range_def)
  moreover have "\<forall>p. page \<le> p \<and> p < page + count \<longrightarrow> md_mapped ?s p" by (simp add: fill_range_def)
  ultimately show ?thesis
    using m by (cases "CHECK_SUCCESS st") (simp_all add: map_metadata_def del: CHECK_SUCCESS_iff)
qed

lemma batch_covers:
  assumes "m \<le> k" "k < m + batch_count s t m"
  shows "k < 256" "\<not> pair_unusable s t (2 * k)"
proof -
  let ?l = "takeWhile (\<lambda>k. \<not> pair_unusable s t (2 * k)) [m..<256]"
  have l: "batch_count s t m = length ?l" by (simp add: batch_count_def pmm_consts)
  then have "k - m < length ?l" using assms by simp
  moreover from this have "k - m < 256 - m" using length_takeWhile_le [of _ "[m..<256]"] by (metis le_trans length_upt less_le_trans linorder_not_less)
  ultimately have "k = ?l ! (k - m)" using assms(1) by (simp add: takeWhile_nth)
  then have "k \<in> set ?l" using \<open>k - m < length ?l\<close> by (metis nth_mem)
  then show "k < 256" "\<not> pair_unusable s t (2 * k)" by (auto dest: set_takeWhileD)
qed

lemma pair_unusable_frames:
  assumes "i < 4096" "atpa s i = ATPA_PTR t h" "pair_unusable s t (2 * m)" "table_of f = i" "entry_of f div 2 = m"
  shows "frame_state s f = Unusable"
proof -
  have "entry_of f = 2 * m \<or> entry_of f = 2 * m + 1" using assms(5) by auto
  then show ?thesis using assms(1-4) by (auto simp: frame_state_def pair_unusable_def)
qed

lemma map_table_metadata_covers:
  assumes "platform_ok map_global" "late_inv s" "i < 4096" "atpa s i = ATPA_PTR t h"
  shows "\<exists>s' r. map_table_metadata map_global i t m area s = Returned (s', r) \<and> late_step s s' \<and>
    (isl r \<and> \<not> CHECK_SUCCESS (projl r) \<or> \<not> isl r \<and> (\<forall>f. table_of f = i \<longrightarrow> m \<le> entry_of f div 2 \<longrightarrow> covered s' f))"
  using assms
proof (induction map_global i t m area s arbitrary: h rule: map_table_metadata.induct)
  case (1 map_global i t m area s)
  show ?case
  proof (cases "m < ALLOC_TABLE_ENTRY_COUNT div 2")
    case c: True
    show ?thesis
    proof (cases "pair_unusable s t (2 * m)")
      case True
      have e: "map_table_metadata map_global i t m area s = map_table_metadata map_global i t (m + 1) area s"
        by (simp only: map_table_metadata.simps [of map_global i t m area s] c True if_True)
      obtain s' r where r: "map_table_metadata map_global i t (m + 1) area s = Returned (s', r)" "late_step s s'"
        "isl r \<and> \<not> CHECK_SUCCESS (projl r) \<or>
         \<not> isl r \<and> (\<forall>f. table_of f = i \<longrightarrow> m + 1 \<le> entry_of f div 2 \<longrightarrow> covered s' f)"
        using 1(1) [OF c True 1(3-6)] by blast
      have "covered s' f" if "table_of f = i" "entry_of f div 2 = m" for f
        using pair_unusable_frames [OF 1(5,6) True that] late_stepD(2) [OF r(2)] by (simp add: covered_def)
      then show ?thesis unfolding e using r by (metis Suc_eq_plus1 le_antisym not_less_eq_eq)
    next
      case False
      let ?n = "batch_count s t m"
      let ?page = "i * ALLOC_TABLE_COVERAGE_PAGES div METADATA_BLOCK_COVERAGE_PAGES + m"
      obtain s1 st where m: "map_metadata map_global area ?page ?n s = Returned (s1, st)" "late_step s s1"
        "CHECK_SUCCESS st \<longrightarrow> (\<forall>p. ?page \<le> p \<and> p < ?page + ?n \<longrightarrow> md_mapped s1 p)"
        using map_metadata_step [OF 1(3,4)] by blast
      show ?thesis
      proof (cases "CHECK_SUCCESS st")
        case ok: True
        have e: "map_table_metadata map_global i t m area s = map_table_metadata map_global i t (m + ?n) (area + of_nat ?n) s1"
          by (simp only: map_table_metadata.simps [of map_global i t m area s] c False m(1) ok if_True if_False obind.simps
              case_prod_conv simp_thms)
        obtain h1 where h1: "atpa s1 i = ATPA_PTR t h1" using late_stepD(3) [OF m(2) 1(5,6)] by blast
        have nok: "\<not> \<not> CHECK_SUCCESS st" using ok by simp
        obtain s' r where r: "map_table_metadata map_global i t (m + ?n) (area + of_nat ?n) s1 = Returned (s', r)" "late_step s1 s'"
          "isl r \<and> \<not> CHECK_SUCCESS (projl r) \<or>
           \<not> isl r \<and> (\<forall>f. table_of f = i \<longrightarrow> m + ?n \<le> entry_of f div 2 \<longrightarrow> covered s' f)"
          using 1(2) [OF c False m(1) refl nok 1(3) late_stepD(1) [OF m(2)] 1(5) h1] by blast
        have pg: "?page = i * 256 + m" by (simp add: pmm_consts)
        have "covered s' f" if "table_of f = i" "m \<le> entry_of f div 2" "entry_of f div 2 < m + ?n" for f
        proof -
          have "md_mapped s1 p" if "i * 256 + m \<le> p" "p < i * 256 + m + ?n" for p
            using m(3) ok that unfolding pg by blast
          then have "md_mapped s1 (f div 64)" using that md_page [of f] by simp
          then show ?thesis using late_stepD(4) [OF r(2)] by (simp add: covered_def md_accessible_def pmm_consts)
        qed
        then show ?thesis unfolding e using r late_step_trans [OF m(2) r(2)] by (metis linorder_not_less)
      next
        case bad: False
        then have "map_table_metadata map_global i t m area s = Returned (s1, Inl st)"
          by (simp only: map_table_metadata.simps [of map_global i t m area s] c False m(1) if_True if_False obind.simps
              case_prod_conv simp_thms)
        then show ?thesis using m(2) bad by (simp del: CHECK_SUCCESS_iff)
      qed
    qed
  next
    case False
    then have "map_table_metadata map_global i t m area s = Returned (s, Inr area)"
      by (simp only: map_table_metadata.simps [of map_global i t m area s] if_False)
    moreover have "\<not> m \<le> entry_of f div 2" for f
      using entry_pair_less [of f] False by (simp add: pmm_consts)
    ultimately show ?thesis using late_step_refl [OF 1(4)] by simp
  qed
qed


lemma map_tables_metadata_covers:
  assumes "platform_ok map_global" "late_inv s" "\<And>i. i \<in> set is \<Longrightarrow> i < 4096"
  shows "\<exists>s' st. map_tables_metadata map_global is area s = Returned (s', st) \<and> late_step s s' \<and>
    (CHECK_SUCCESS st \<longrightarrow> (\<forall>f. table_of f \<in> set is \<longrightarrow> covered s' f))"
  using assms(2,3)
proof (induction "is" arbitrary: s area)
  case Nil
  then show ?case using late_step_refl by simp
next
  case (Cons i "is")
  have i: "i < 4096" using Cons.prems(2) by simp
  have ne: "atpa s i \<noteq> ATPA_HUGE_ALLOC" using Cons.prems(1) i by (simp add: late_inv_def)
  have go: ?case
    if s1: "late_step s s1" "\<And>f. table_of f = i \<Longrightarrow> covered s1 f"
      and e: "map_tables_metadata map_global (i # is) area s = map_tables_metadata map_global is area' s1" for s1 area'
  proof -
    obtain s' st where r: "map_tables_metadata map_global is area' s1 = Returned (s', st)" "late_step s1 s'"
      "CHECK_SUCCESS st \<longrightarrow> (\<forall>f. table_of f \<in> set is \<longrightarrow> covered s' f)"
      using Cons.IH [OF late_stepD(1) [OF s1(1)]] Cons.prems(2) by (metis list.set_intros(2))
    then show ?thesis
      unfolding e using late_step_trans [OF s1(1) r(2)] late_step_covered [OF r(2)] s1(2) by auto
  qed
  show ?case
  proof (cases "atpa s i")
    case ATPA_UNUSABLE
    then have "covered s f" if "table_of f = i" for f using that by (simp add: covered_def frame_state_def)
    then show ?thesis using go [OF late_step_refl [OF Cons.prems(1)]] ATPA_UNUSABLE by simp
  next
    case ATPA_FREE
    obtain s1 st where m: "map_metadata map_global area (i * 256) 256 s = Returned (s1, st)" "late_step s s1"
      "CHECK_SUCCESS st \<longrightarrow> (\<forall>p. i * 256 \<le> p \<and> p < i * 256 + 256 \<longrightarrow> md_mapped s1 p)"
      using map_metadata_step [OF assms(1) Cons.prems(1)] by blast
    have pg: "i * ALLOC_TABLE_COVERAGE_PAGES div METADATA_BLOCK_COVERAGE_PAGES = i * 256"
      "ALLOC_TABLE_COVERAGE_PAGES div METADATA_BLOCK_COVERAGE_PAGES = 256" by (simp_all add: pmm_consts)
    have e: "map_tables_metadata map_global (i # is) area s =
        (if \<not> CHECK_SUCCESS st then Returned (s1, st) else map_tables_metadata map_global is (area + 256) s1)"
      using m(1) ATPA_FREE by (simp add: Let_def pg del: CHECK_SUCCESS_iff)
    show ?thesis
    proof (cases "CHECK_SUCCESS st")
      case True
      have "covered s1 f" if "table_of f = i" for f
        using m(3) True that md_page [of f] entry_pair_less [of f]
        by (simp add: covered_def md_accessible_def pmm_consts del: CHECK_SUCCESS_iff)
      then show ?thesis using go [OF m(2)] e True by (simp del: CHECK_SUCCESS_iff)
    next
      case False
      then show ?thesis using e m(2) by (simp del: CHECK_SUCCESS_iff)
    qed
  next
    case (ATPA_PTR t h)
    obtain s1 r where m: "map_table_metadata map_global i t 0 area s = Returned (s1, r)" "late_step s s1"
      "isl r \<and> \<not> CHECK_SUCCESS (projl r) \<or> \<not> isl r \<and> (\<forall>f. table_of f = i \<longrightarrow> 0 \<le> entry_of f div 2 \<longrightarrow> covered s1 f)"
      using map_table_metadata_covers [OF assms(1) Cons.prems(1) i ATPA_PTR] by blast
    show ?thesis
    proof (cases r)
      case (Inl st)
      then show ?thesis using m ATPA_PTR by (simp del: CHECK_SUCCESS_iff)
    next
      case (Inr area')
      then show ?thesis using go [OF m(2)] m(1,3) ATPA_PTR by simp
    qed
  qed (use ne in simp)
qed




text \<open>C39: The search for room for the metadata ends one entry too low: when the last entry of the last table is
  free and suffices, the area it returns lies in the entry below, which here is unusable memory.\<close>

theorem pmm_metadata_area_misplaced:
  assumes "atpa s 4095 = ATPA_PTR t h" "tables s t 511 = ENT_BITMAP ALLOCENT_BMP_FREE" "tables s t 510 = ENT_EXT_UNUSABLE"
    and "0 < required" "required \<le> 32"
    and "find_metadata_area s required (rev [0..<ALLOC_TABLE_PTR_ARRAY_SIZE]) (0, 0) = (area_begin, area_end)"
  shows "unat area_end + 1 - unat area_begin = required \<and>
    (\<forall>f. unat area_begin \<le> f \<and> f \<le> unat area_end \<longrightarrow> frame_state s f = Unusable)"
proof -
  have l: "rev [0..<ALLOC_TABLE_PTR_ARRAY_SIZE] = 4095 # rev [0..<4095]" "rev [0..<512] = 511 # rev [0..<511::nat]"
    using upt_Suc_append [of 0 4095] upt_Suc_append [of 0 511] by (simp_all add: pmm_consts)
  let ?e = "4095 * 16384 + 511 * 32 - 1 :: nat"
  have "area_end = of_nat ?e \<and> area_begin = of_nat ?e + 1 - of_nat required"
    using assms(6) unfolding l using assms(1,2,5) by (simp add: l Let_def pmm_consts)
  then have a: "unat area_end = ?e" "unat area_begin = ?e + 1 - required"
    using assms(4,5) by (auto simp: unat_sub unat_of_nat take_bit_nat_eq_self word_le_nat_alt)
  have "frame_state s f = Unusable" if "?e + 1 - required \<le> f" "f \<le> ?e" for f
  proof -
    have "frame_at 4095 510 0 \<le> f \<and> f < frame_at 4095 510 32" using that assms(5) by (simp add: frame_at_def)
    then have "table_of f = 4095 \<and> entry_of f = 510" using frame_between [of 510 4095 f] by simp
    then show ?thesis using assms(1,3) by (simp add: frame_state_def)
  qed
  then show ?thesis using a assms(4,5) by simp
qed

definition one_free_entry :: pmm where
  "one_free_entry = boot_state\<lparr>atpa := (\<lambda>_. ATPA_UNUSABLE)(4095 := ATPA_PTR (EarlyTable 0) ATPA_ORDER_BMP_MASK),
     tables := (\<lambda>_ _. ENT_EXT_UNUSABLE)(EarlyTable 0 := (\<lambda>_. ENT_EXT_UNUSABLE)(511 := ENT_BITMAP ALLOCENT_BMP_FREE)),
     early_alloctbl_pool_used_count := 1\<rparr>"

theorem pmm_metadata_area_misplaced_witness:
  "\<exists>area_begin area_end.
     find_metadata_area one_free_entry 1 (rev [0..<ALLOC_TABLE_PTR_ARRAY_SIZE]) (0, 0) = (area_begin, area_end) \<and>
     frame_state one_free_entry (unat area_begin) = Unusable \<and> unat area_begin = unat area_end"
proof -
  obtain b e where be: "find_metadata_area one_free_entry 1 (rev [0..<ALLOC_TABLE_PTR_ARRAY_SIZE]) (0, 0) = (b, e)" by fastforce
  have "unat e + 1 - unat b = 1 \<and> (\<forall>f. unat b \<le> f \<and> f \<le> unat e \<longrightarrow> frame_state one_free_entry f = Unusable)"
    by (rule pmm_metadata_area_misplaced [OF _ _ _ _ _ be]) (simp_all add: one_free_entry_def)
  then show ?thesis using be by (intro exI [of _ b] exI [of _ e]) auto
qed

end
