(* ===== verification/Pmm_Debug.thy ===== *)
theory Pmm_Debug
  imports Pmm_Mark_Props
begin

text \<open>
  The debugging output of the physical memory manager (\<^verbatim>\<open>StPmm_DebugDumpRegion\<close> and
  \<^verbatim>\<open>StPmm_DebugDumpAtpa\<close> of \<^verbatim>\<open>strata/mm/pmm.c\<close>), without its line breaks and colours: the symbols the first
  prints for the frames of a region, and the blocks the second prints for the pointer array.
\<close>

section \<open>The map of a region\<close>

definition is_page_allocated_in_bitmap :: "uint64_t \<Rightarrow> nat \<Rightarrow> bool" where
  "is_page_allocated_in_bitmap bitmap page_idx \<longleftrightarrow>
     bitmap AND ALLOCENT_BMP_32P_MASK \<noteq> 0 \<or>
     bitmap AND push_bit (ALLOCENT_BMP_16P_POS + page_idx div 16) 1 \<noteq> 0 \<or>
     bitmap AND push_bit (ALLOCENT_BMP_8P_POS + page_idx div 8) 1 \<noteq> 0 \<or>
     bitmap AND push_bit (ALLOCENT_BMP_4P_POS + page_idx div 4) 1 \<noteq> 0 \<or>
     bitmap AND push_bit (ALLOCENT_BMP_2P_POS + page_idx div 2) 1 \<noteq> 0 \<or>
     bitmap AND push_bit (ALLOCENT_BMP_1P_POS + page_idx) 1 \<noteq> 0"


definition dump_symbol :: "pmm \<Rightarrow> nat \<Rightarrow> char" where
  "dump_symbol s current_pfn =
     (let table_idx = current_pfn div ALLOC_TABLE_COVERAGE_PAGES;
          entry_idx = (current_pfn mod ALLOC_TABLE_COVERAGE_PAGES) div ALLOCENT_COVERAGE_PAGES;
          page_idx = current_pfn mod ALLOCENT_COVERAGE_PAGES
      in if table_idx \<ge> ALLOC_TABLE_PTR_ARRAY_SIZE then CHR ''?''
         else case atpa s table_idx of
             ATPA_UNUSABLE \<Rightarrow> CHR ''X''
           | ATPA_HUGE_ALLOC \<Rightarrow> CHR ''H''
           | ATPA_FREE \<Rightarrow> CHR ''.''
           | ATPA_PTR t _ \<Rightarrow>
               (case tables s t entry_idx of
                  ENT_EXT_UNUSABLE \<Rightarrow> CHR ''X''
                | ENT_BITMAP bitmap \<Rightarrow>
                    if bitmap = ALLOCENT_BMP_FREE then CHR ''.''
                    else if bitmap = ALLOCENT_BMP_FULL_ALLOC then CHR ''*''
                    else if is_page_allocated_in_bitmap bitmap page_idx then CHR ''*'' else CHR ''.''
                | ENT_EXT ext \<Rightarrow>
                    (case extentries s ext page_idx of
                       EE_FREE \<Rightarrow> CHR ''.'' | EE_USED \<Rightarrow> CHR ''*'' | EE_UNUSABLE \<Rightarrow> CHR ''X'')))"

definition StPmm_DebugDumpRegion :: "nat \<Rightarrow> nat \<Rightarrow> pmm \<Rightarrow> string" where
  "StPmm_DebugDumpRegion start_pfn count s = map (dump_symbol s) [start_pfn..<start_pfn + count]"

section \<open>The overview of the pointer array\<close>

datatype overview_block = UnusableRun nat | BlockFree nat | BlockHuge nat | BlockTable nat

fun atpa_overview :: "nat \<Rightarrow> (nat \<times> atpa_entry) list \<Rightarrow> overview_block list" where
  "atpa_overview count [] = (if count > 0 then [UnusableRun count] else [])"
| "atpa_overview count ((i, val) # rest) =
     (if val = ATPA_UNUSABLE then atpa_overview (count + 1) rest
      else (if count > 0 then [UnusableRun count] else []) @
           (case val of ATPA_FREE \<Rightarrow> BlockFree i | ATPA_HUGE_ALLOC \<Rightarrow> BlockHuge i | _ \<Rightarrow> BlockTable i)
           # atpa_overview 0 rest)"

definition StPmm_DebugDumpAtpa :: "pmm \<Rightarrow> overview_block list" where
  "StPmm_DebugDumpAtpa s = atpa_overview 0 (map (\<lambda>i. (i, atpa s i)) [0..<ALLOC_TABLE_PTR_ARRAY_SIZE])"

section \<open>What the output says\<close>

lemma is_page_allocated_iff:
  assumes wf: "bmp_wf b" and p: "p < 32"
  shows "is_page_allocated_in_bitmap b p \<longleftrightarrow> pages_of b \<noteq> {}"
proof -
  let ?o = "occupied (pages_of b)"
  have bb: "bit b (offsets ! ord + i) \<longleftrightarrow> ?o ord i" if "ord \<le> 5" "i < 2 ^ (5 - ord)" for ord i
    using encodes_bit [OF wf_encodes [OF wf] that] by (simp add: block_bit_def)
  have d: "p div 16 < 2" "p div 8 < 4" "p div 4 < 8" "p div 2 < 16"
    using p by (simp_all add: div_less_iff_less_mult)
  have mask: "ALLOCENT_BMP_32P_MASK = push_bit 62 1" by (simp add: ALLOCENT_BMP_32P_MASK_def)
  have bits: "b AND ALLOCENT_BMP_32P_MASK \<noteq> 0 \<longleftrightarrow> ?o 5 0"
    "b AND push_bit (ALLOCENT_BMP_16P_POS + p div 16) 1 \<noteq> 0 \<longleftrightarrow> ?o 4 (p div 16)"
    "b AND push_bit (ALLOCENT_BMP_8P_POS + p div 8) 1 \<noteq> 0 \<longleftrightarrow> ?o 3 (p div 8)"
    "b AND push_bit (ALLOCENT_BMP_4P_POS + p div 4) 1 \<noteq> 0 \<longleftrightarrow> ?o 2 (p div 4)"
    "b AND push_bit (ALLOCENT_BMP_2P_POS + p div 2) 1 \<noteq> 0 \<longleftrightarrow> ?o 1 (p div 2)"
    "b AND push_bit (ALLOCENT_BMP_1P_POS + p) 1 \<noteq> 0 \<longleftrightarrow> ?o 0 p"
    using bb [of 5 0] bb [of 4 "p div 16"] bb [of 3 "p div 8"] bb [of 2 "p div 4"] bb [of 1 "p div 2"] bb [of 0 p] d p
    by (simp_all only: mask bit_iff_and_push_bit_not_eq_0 [symmetric])
      (simp_all add: offsets_def ALLOCENT_BMP_1P_POS_def ALLOCENT_BMP_2P_POS_def
        ALLOCENT_BMP_4P_POS_def ALLOCENT_BMP_8P_POS_def ALLOCENT_BMP_16P_POS_def ALLOCENT_BMP_32P_POS_def)
  have "?o 5 0 \<longleftrightarrow> pages_of b \<noteq> {}" by (auto simp: occupied_def pages_of_def)
  moreover have "?o ord i \<Longrightarrow> pages_of b \<noteq> {}" for ord i by (auto simp: occupied_def)
  ultimately show ?thesis unfolding is_page_allocated_in_bitmap_def bits by blast
qed

text \<open>A frame of an entry that is a bitmap with some frame in use.\<close>

definition in_used_bitmap :: "pmm \<Rightarrow> nat \<Rightarrow> bool" where
  "in_used_bitmap s f \<longleftrightarrow> (case atpa s (table_of f) of
     ATPA_PTR t _ \<Rightarrow> (case tables s t (entry_of f) of ENT_BITMAP b \<Rightarrow> pages_of b \<noteq> {} | _ \<Rightarrow> False) | _ \<Rightarrow> False)"

text \<open>C40: The dump of a region shows each covered frame with the symbol of its state (huge allocations have a symbol
  of their own), except that every frame of a bitmap entry with some frame in use is shown as used.\<close>

theorem pmm_dump_symbols:
  assumes "pmm_wf s" "start_pfn + count \<le> 67108864" "i < count"
  shows "StPmm_DebugDumpRegion start_pfn count s ! i =
    (if in_used_bitmap s (start_pfn + i) then CHR ''*''
     else case frame_state s (start_pfn + i) of
        Unusable \<Rightarrow> CHR ''X'' | Free \<Rightarrow> CHR ''.''
      | Used \<Rightarrow> if atpa s (table_of (start_pfn + i)) = ATPA_HUGE_ALLOC then CHR ''H'' else CHR ''*'')"
proof -
  let ?f = "start_pfn + i"
  have t: "table_of ?f < 4096" using assms(2,3) by (simp add: frame_limit)
  have d: "?f div ALLOC_TABLE_COVERAGE_PAGES = table_of ?f"
    "?f mod ALLOC_TABLE_COVERAGE_PAGES div ALLOCENT_COVERAGE_PAGES = entry_of ?f" "?f mod ALLOCENT_COVERAGE_PAGES = page_of ?f"
    "ALLOC_TABLE_PTR_ARRAY_SIZE = 4096"
    by (simp_all add: table_of_def entry_of_def page_of_def pmm_consts)
  have "StPmm_DebugDumpRegion start_pfn count s ! i = dump_symbol s ?f"
    using assms(3) by (simp add: StPmm_DebugDumpRegion_def)
  also have "\<dots> = (if in_used_bitmap s ?f then CHR ''*''
     else case frame_state s ?f of Unusable \<Rightarrow> CHR ''X'' | Free \<Rightarrow> CHR ''.''
      | Used \<Rightarrow> if atpa s (table_of ?f) = ATPA_HUGE_ALLOC then CHR ''H'' else CHR ''*'')"
  proof (cases "atpa s (table_of ?f)")
    case (ATPA_PTR tb h)
    show ?thesis
    proof (cases "tables s tb (entry_of ?f)")
      case (ENT_BITMAP b)
      have wf: "bmp_wf b"
        using wf_bitmap [OF assms(1), of tb "entry_of ?f" b] ENT_BITMAP live_tableI [OF ATPA_PTR t] by (auto simp: live_entry_def)
      have "b = ALLOCENT_BMP_FREE \<longleftrightarrow> pages_of b = {}"
        using encodes_unique [OF _ encodes_free, of b] wf_encodes [OF wf] pages_of_encodes [OF encodes_free] by auto
      then show ?thesis
        using t ATPA_PTR ENT_BITMAP is_page_allocated_iff [OF wf, of "page_of ?f"]
        unfolding dump_symbol_def Let_def d
        by (auto simp: in_used_bitmap_def frame_state_def ALLOCENT_BMP_FREE_def pages_of_def)
    next
      case (ENT_EXT x)
      then show ?thesis
        using t ATPA_PTR unfolding dump_symbol_def Let_def d
        by (simp add: in_used_bitmap_def frame_state_def split: ee_state.split)
    qed (use t ATPA_PTR in \<open>simp add: dump_symbol_def Let_def d in_used_bitmap_def frame_state_def\<close>)
  qed (use t in \<open>simp_all add: dump_symbol_def Let_def d in_used_bitmap_def frame_state_def\<close>)
  finally show ?thesis .
qed

text \<open>The slots an overview stands for.\<close>

fun expand_overview :: "overview_block list \<Rightarrow> string" where
  "expand_overview [] = []"
| "expand_overview (UnusableRun n # rest) = replicate n (CHR ''X'') @ expand_overview rest"
| "expand_overview (BlockFree _ # rest) = CHR ''.'' # expand_overview rest"
| "expand_overview (BlockHuge _ # rest) = CHR ''H'' # expand_overview rest"
| "expand_overview (BlockTable _ # rest) = CHR ''T'' # expand_overview rest"

fun slot_symbol :: "atpa_entry \<Rightarrow> char" where
  "slot_symbol ATPA_UNUSABLE = CHR ''X''"
| "slot_symbol ATPA_FREE = CHR ''.''"
| "slot_symbol ATPA_HUGE_ALLOC = CHR ''H''"
| "slot_symbol (ATPA_PTR _ _) = CHR ''T''"

lemma expand_atpa_overview:
  "expand_overview (atpa_overview n xs) = replicate n (CHR ''X'') @ map (slot_symbol \<circ> snd) xs"
  by (induction n xs rule: atpa_overview.induct) (auto simp: replicate_append_same [symmetric] split: atpa_entry.splits)

text \<open>The overview of the pointer array, with its runs of unusable slots expanded, names the kind of each of the 4096
  slots in order.\<close>

theorem pmm_overview_roundtrip:
  "expand_overview (StPmm_DebugDumpAtpa s) = map (\<lambda>i. slot_symbol (atpa s i)) [0..<4096]"
  by (simp add: StPmm_DebugDumpAtpa_def expand_atpa_overview pmm_consts comp_def)

theorem pmm_dump_symbols_witness:
  "pmm_wf (fst (StPmm_Init boot_state)) \<and> StPmm_DebugDumpRegion 100 3 (fst (StPmm_Init boot_state)) ! 2 = CHR ''X''"
proof -
  have wf: "pmm_wf (fst (StPmm_Init boot_state))" using StPmm_Init_fresh(1) [OF boot_state_closed] by (simp add: fresh_def)
  have "\<not> in_used_bitmap (fst (StPmm_Init boot_state)) 102"
    by (simp add: in_used_bitmap_def StPmm_Init_def boot_state_def fill_range_def pmm_consts)
  then show ?thesis
    using pmm_dump_symbols [OF wf, of 100 3 2] wf StPmm_Init_fresh(2) [OF boot_state_closed, of 102] by simp
qed

end
