(* ===== verification/Paging.thy ===== *)
theory Paging
  imports Pmm_Free
begin

text \<open>
  The page tables of the amd64 platform (\<^verbatim>\<open>strata/arch/amd64/pc/mm.c\<close>): the cache of table
  frames, the four-level walks, the loops that map, remap and unmap ranges, managed (lazily
  filled) entries, and the copies in and out of an address space.

  A frame is 512 words of 64 bits in \<open>phys_mem\<close>, reached through the direct map. An address
  space is a number; number 0 is \<^verbatim>\<open>base_asp\<close>. The frames in the two caches are chained through
  their first word in C and are lists here; that word is not part of \<open>phys_mem\<close>. The translation
  buffer is not modelled: \<^verbatim>\<open>StA_InvalidatePage\<close> and the reload of CR3 change no part of the state.
\<close>

section \<open>Constants\<close>

definition MF_WRITABLE :: uint32_t where "MF_WRITABLE = 0x00000001"
definition MF_USER :: uint32_t where "MF_USER = 0x00000002"
definition MF_NO_CACHE :: uint32_t where "MF_NO_CACHE = 0x00000004"
definition MF_WRITETHRU_CACHE :: uint32_t where "MF_WRITETHRU_CACHE = 0x00000008"
definition MF_NO_EXECUTE :: uint32_t where "MF_NO_EXECUTE = 0x00000010"
definition MF_GLOBAL :: uint32_t where "MF_GLOBAL = 0x00000020"
definition MF_POOL_LARGE_ALLOC :: uint32_t where "MF_POOL_LARGE_ALLOC = 0x00000040"
definition MF_POOL_SUBPOOL :: uint32_t where "MF_POOL_SUBPOOL = 0x00000080"
definition MF_IMMEDIATE :: uint32_t where "MF_IMMEDIATE = 0x00010000"
definition MF_ZERO_FILL :: uint32_t where "MF_ZERO_FILL = 0x00020000"
definition MF_GUARD :: uint32_t where "MF_GUARD = 0x00080000"
definition MF_GUARD_GROW_DOWN :: uint32_t where "MF_GUARD_GROW_DOWN = 0x00100000"

definition PTE_P :: uint64_t where "PTE_P = push_bit 0 1"
definition PTE_RW :: uint64_t where "PTE_RW = push_bit 1 1"
definition PTE_US :: uint64_t where "PTE_US = push_bit 2 1"
definition PTE_PWT :: uint64_t where "PTE_PWT = push_bit 3 1"
definition PTE_PCD :: uint64_t where "PTE_PCD = push_bit 4 1"
definition PTE_PS :: uint64_t where "PTE_PS = push_bit 7 1"
definition PTE_G :: uint64_t where "PTE_G = push_bit 8 1"
definition PTE_SW0 :: uint64_t where "PTE_SW0 = push_bit 9 1"
definition PTE_SW1 :: uint64_t where "PTE_SW1 = push_bit 10 1"
definition PTE_MANAGED :: uint64_t where "PTE_MANAGED = push_bit 11 1"
definition PTE_XD :: uint64_t where "PTE_XD = push_bit 63 1"
definition PTE_BASE_MASK :: uint64_t where "PTE_BASE_MASK = 0x000FFFFFFFFFF000"
definition PTE_BASE_SHIFT :: nat where "PTE_BASE_SHIFT = 12"

definition PML4_HOLE_START :: uint64_t where "PML4_HOLE_START = 0x0000000800000000"
definition PML4_HOLE_END :: uint64_t where "PML4_HOLE_END = 0x000FFFF7FFFFFFFF"
definition VIRT_PAGE_MAX :: uint64_t where "VIRT_PAGE_MAX = 0x000FFFFFFFFFFFFF"
definition VIRT_PAGE_PML4_MASK :: uint64_t where "VIRT_PAGE_PML4_MASK = 0x0000000FF8000000"
definition VIRT_PAGE_PDPT_MASK :: uint64_t where "VIRT_PAGE_PDPT_MASK = 0x0000000007FC0000"
definition VIRT_PAGE_PD_MASK :: uint64_t where "VIRT_PAGE_PD_MASK = 0x000000000003FE00"
definition VIRT_PAGE_PT_MASK :: uint64_t where "VIRT_PAGE_PT_MASK = 0x00000000000001FF"

definition MEMMAP_LOCAL_VPN_LIMIT :: uint64_t where
  "MEMMAP_LOCAL_VPN_LIMIT = 0x7FFFFFFFFFFFFFFF div 4096"
definition MEMMAP_GLOBAL_VPN_BASE :: uint64_t where
  "MEMMAP_GLOBAL_VPN_BASE = 0x8000000000000000 div 4096"
definition IS_GLOBAL_VPN :: "uint64_t \<Rightarrow> bool" where
  "IS_GLOBAL_VPN vpn \<longleftrightarrow> vpn \<ge> MEMMAP_GLOBAL_VPN_BASE"
definition IS_LOCAL_VPN :: "uint64_t \<Rightarrow> bool" where
  "IS_LOCAL_VPN vpn \<longleftrightarrow> vpn \<le> MEMMAP_LOCAL_VPN_LIMIT"

definition PML4_INDEX :: "uint64_t \<Rightarrow> nat" where
  "PML4_INDEX vpn = unat (drop_bit 27 (vpn AND VIRT_PAGE_PML4_MASK))"
definition PDPT_INDEX :: "uint64_t \<Rightarrow> nat" where
  "PDPT_INDEX vpn = unat (drop_bit 18 (vpn AND VIRT_PAGE_PDPT_MASK))"
definition PD_INDEX :: "uint64_t \<Rightarrow> nat" where
  "PD_INDEX vpn = unat (drop_bit 9 (vpn AND VIRT_PAGE_PD_MASK))"
definition PT_INDEX :: "uint64_t \<Rightarrow> nat" where
  "PT_INDEX vpn = unat (vpn AND VIRT_PAGE_PT_MASK)"

definition PAGE_TABLE_FRAME_CACHE_MAX_PAGES :: nat where "PAGE_TABLE_FRAME_CACHE_MAX_PAGES = 128"
definition PAGE_TABLE_FRAME_CACHE_LOW_FREE_WATERMARK :: uint64_t where
  "PAGE_TABLE_FRAME_CACHE_LOW_FREE_WATERMARK = 4096"

section \<open>The state\<close>

record mmu =
  mm_pmm :: pmm
  phys_mem :: "nat \<Rightarrow> nat \<Rightarrow> uint64_t"
  root_table_pfn :: "nat \<Rightarrow> nat"
  page_table_frame_cache :: "nat list"
  page_table_frame_cache_pages :: nat
  page_table_frame_quarantine :: "nat list"
  page_table_frame_quarantine_pages :: nat
  cr3 :: uint64_t
  current_asp :: nat
  has_nx :: bool
  has_invlpg :: bool

definition BASE_ASP :: nat where "BASE_ASP = 0"

definition flag_set :: "'a::len word \<Rightarrow> 'a word \<Rightarrow> bool" where
  "flag_set w f \<longleftrightarrow> w AND f \<noteq> 0"

definition pte_frame :: "uint64_t \<Rightarrow> nat" where
  "pte_frame e = unat (drop_bit PTE_BASE_SHIFT (e AND PTE_BASE_MASK))"

definition set_entry :: "nat \<Rightarrow> nat \<Rightarrow> uint64_t \<Rightarrow> mmu \<Rightarrow> mmu" where
  "set_entry f i e s = s\<lparr>phys_mem := (phys_mem s)(f := (phys_mem s f)(i := e))\<rparr>"

definition clear_frame :: "nat \<Rightarrow> mmu \<Rightarrow> mmu" where
  "clear_frame f s = s\<lparr>phys_mem := (phys_mem s)(f := (\<lambda>_. 0))\<rparr>"

definition mmu_lock :: "mmu \<Rightarrow> mmu outcome" where
  "mmu_lock s = obind (StThread_LockPreemption (preemption_depth (mm_pmm s)))
     (\<lambda>d. Returned (s\<lparr>mm_pmm := (mm_pmm s)\<lparr>preemption_depth := d\<rparr>\<rparr>))"

definition mmu_unlock :: "mmu \<Rightarrow> mmu outcome" where
  "mmu_unlock s = obind (StThread_UnlockPreemption (preemption_depth (mm_pmm s)))
     (\<lambda>d. Returned (s\<lparr>mm_pmm := (mm_pmm s)\<lparr>preemption_depth := d\<rparr>\<rparr>))"

text \<open>A call whose status is checked and returned when it is an error.\<close>

definition on_success ::
  "('s \<times> StStatus) outcome \<Rightarrow> ('s \<Rightarrow> ('s \<times> StStatus) outcome) \<Rightarrow> ('s \<times> StStatus) outcome" where
  "on_success m f = obind m (\<lambda>(s, status). if CHECK_SUCCESS status then f s else Returned (s, status))"

section \<open>Frames for page tables\<close>

definition pop_cached_page_table_frame :: "nat list \<Rightarrow> nat \<Rightarrow> nat option \<times> nat list \<times> nat" where
  "pop_cached_page_table_frame head page_count =
     (case head of [] \<Rightarrow> (None, [], page_count) | f # rest \<Rightarrow> (Some f, rest, page_count - 1))"

definition release_quarantined_page_table_frames :: "mmu \<Rightarrow> mmu outcome" where
  "release_quarantined_page_table_frames s =
     obind (mmu_lock s) (\<lambda>s.
       let q = page_table_frame_quarantine s; n = page_table_frame_quarantine_pages s;
           s = s\<lparr>page_table_frame_quarantine := [], page_table_frame_quarantine_pages := 0\<rparr>
       in if q = [] then mmu_unlock s
          else mmu_unlock (s\<lparr>page_table_frame_cache := q @ page_table_frame_cache s,
                             page_table_frame_cache_pages := page_table_frame_cache_pages s + n\<rparr>))"

text \<open>\<^verbatim>\<open>*pfn\<close> before the call is an argument; the frame that is cleared must be one of the managed
  range.\<close>

definition allocate_fresh_page_table_frame :: "nat \<Rightarrow> mmu \<Rightarrow> (mmu \<times> StStatus \<times> nat) outcome" where
  "allocate_fresh_page_table_frame pfn s =
     obind (StPmm_AllocateContiguousFrame pfn 1 None AF_DEFAULT (mm_pmm s)) (\<lambda>(p, status, pfn).
       let s = s\<lparr>mm_pmm := p\<rparr>
       in if \<not> CHECK_SUCCESS status then Returned (s, status, pfn)
          else if pfn \<ge> ATPA_COVERAGE_PAGES then Undefined
          else Returned (clear_frame pfn s, STATUS_SUCCESS, pfn))"

definition allocate_page_table_frame :: "nat \<Rightarrow> bool \<Rightarrow> mmu \<Rightarrow> (mmu \<times> StStatus \<times> nat) outcome" where
  "allocate_page_table_frame pfn allow_cache s =
     (if \<not> allow_cache then allocate_fresh_page_table_frame pfn s
      else obind (mmu_lock s) (\<lambda>s.
        case pop_cached_page_table_frame (page_table_frame_cache s) (page_table_frame_cache_pages s) of
          (cached_frame, rest, n) \<Rightarrow>
        obind (mmu_unlock (s\<lparr>page_table_frame_cache := rest, page_table_frame_cache_pages := n\<rparr>)) (\<lambda>s.
          case cached_frame of
            Some f \<Rightarrow> Returned (clear_frame f s, STATUS_SUCCESS, f)
          | None \<Rightarrow> allocate_fresh_page_table_frame pfn s)))"

definition free_frame :: "nat \<Rightarrow> mmu \<Rightarrow> mmu outcome" where
  "free_frame pfn s = obind (StPmm_FreeContiguousFrame pfn (mm_pmm s)) (\<lambda>p. Returned (s\<lparr>mm_pmm := p\<rparr>))"

definition free_page_table_frame :: "nat \<Rightarrow> mmu \<Rightarrow> mmu outcome" where
  "free_page_table_frame pfn s =
     (if StPmm_GetFreeFrameCount (mm_pmm s) > PAGE_TABLE_FRAME_CACHE_LOW_FREE_WATERMARK then
        obind (mmu_lock s) (\<lambda>s.
          if page_table_frame_cache_pages s + page_table_frame_quarantine_pages s
               < PAGE_TABLE_FRAME_CACHE_MAX_PAGES
          then mmu_unlock (s\<lparr>page_table_frame_quarantine := pfn # page_table_frame_quarantine s,
                             page_table_frame_quarantine_pages := page_table_frame_quarantine_pages s + 1\<rparr>)
          else obind (mmu_unlock s) (free_frame pfn))
      else free_frame pfn s)"

text \<open>The loop stops at the budget (0 is no budget) or when both caches are empty; every round takes a
  frame out of one of them.\<close>

definition pop_any_page_table_frame :: "mmu \<Rightarrow> nat option \<times> mmu" where
  "pop_any_page_table_frame s =
     (case pop_cached_page_table_frame (page_table_frame_cache s) (page_table_frame_cache_pages s) of
        (Some f, rest, n) \<Rightarrow> (Some f, s\<lparr>page_table_frame_cache := rest, page_table_frame_cache_pages := n\<rparr>)
      | (None, _, _) \<Rightarrow>
          (case pop_cached_page_table_frame (page_table_frame_quarantine s)
                  (page_table_frame_quarantine_pages s) of
             (f, rest, n) \<Rightarrow>
               (f, s\<lparr>page_table_frame_quarantine := rest, page_table_frame_quarantine_pages := n\<rparr>)))"

fun reclaim_loop :: "nat \<Rightarrow> nat \<Rightarrow> nat \<Rightarrow> mmu \<Rightarrow> (mmu \<times> nat) outcome" where
  "reclaim_loop 0 page_budget reclaimed_pages s = OutOfFuel"
| "reclaim_loop (Suc fuel) page_budget reclaimed_pages s =
     (if page_budget \<noteq> 0 \<and> reclaimed_pages \<ge> page_budget then Returned (s, reclaimed_pages)
      else obind (mmu_lock s) (\<lambda>s.
        case pop_any_page_table_frame s of (cached_frame, s) \<Rightarrow>
        obind (mmu_unlock s) (\<lambda>s.
          case cached_frame of
            None \<Rightarrow> Returned (s, reclaimed_pages)
          | Some f \<Rightarrow> obind (free_frame f s) (reclaim_loop fuel page_budget (reclaimed_pages + 1)))))"

definition StMmP_ReclaimCachedPageTableFrames :: "nat \<Rightarrow> mmu \<Rightarrow> (mmu \<times> nat) outcome" where
  "StMmP_ReclaimCachedPageTableFrames page_budget s =
     reclaim_loop (length (page_table_frame_cache s) + length (page_table_frame_quarantine s) + 1)
       page_budget 0 s"

end
