(* ===== verification/Paging_Map.thy ===== *)
theory Paging_Map
  imports Paging
begin

text \<open>
  Walks of the page tables and the loops that map, remap, manage and unmap ranges of pages
  (\<^verbatim>\<open>strata/arch/amd64/pc/mm.c\<close>).
\<close>

section \<open>Flags of entries\<close>

definition mapflags_to_pte_private_bits :: "uint32_t \<Rightarrow> uint64_t" where
  "mapflags_to_pte_private_bits mapflags =
     (if flag_set mapflags MF_POOL_LARGE_ALLOC then PTE_SW0 else 0) OR
     (if flag_set mapflags MF_POOL_SUBPOOL then PTE_SW1 else 0)"

definition pte_to_mapflags :: "bool \<Rightarrow> uint64_t \<Rightarrow> uint32_t" where
  "pte_to_mapflags nx pte =
     (if flag_set pte PTE_RW then MF_WRITABLE else 0) OR
     (if flag_set pte PTE_US then MF_USER else 0) OR
     (if flag_set pte PTE_PCD then MF_NO_CACHE else 0) OR
     (if flag_set pte PTE_PWT then MF_WRITETHRU_CACHE else 0) OR
     (if flag_set pte PTE_G then MF_GLOBAL else 0) OR
     (if nx \<and> flag_set pte PTE_XD then MF_NO_EXECUTE else 0) OR
     (if flag_set pte PTE_SW0 then MF_POOL_LARGE_ALLOC else 0) OR
     (if flag_set pte PTE_SW1 then MF_POOL_SUBPOOL else 0)"

definition put_flag :: "bool \<Rightarrow> uint64_t \<Rightarrow> uint64_t \<Rightarrow> uint64_t" where
  "put_flag b f e = (if b then e OR f else e AND NOT f)"

text \<open>The template that \<^verbatim>\<open>map_memory\<close> and \<^verbatim>\<open>remap_memory\<close> build.\<close>

definition make_pte_template :: "bool \<Rightarrow> uint32_t \<Rightarrow> uint64_t" where
  "make_pte_template nx mapflags =
     (let e = 0 OR PTE_P;
          e = put_flag (flag_set mapflags MF_WRITABLE) PTE_RW e;
          e = put_flag (flag_set mapflags MF_USER) PTE_US e;
          e = put_flag (flag_set mapflags MF_NO_CACHE) PTE_PCD e;
          e = put_flag (flag_set mapflags MF_WRITETHRU_CACHE) PTE_PWT e;
          e = e OR mapflags_to_pte_private_bits mapflags
      in if nx then put_flag (flag_set mapflags MF_NO_EXECUTE) PTE_XD e else e)"

definition set_pte_base :: "uint64_t \<Rightarrow> uint64_t \<Rightarrow> uint64_t" where
  "set_pte_base e pfn = (e AND NOT PTE_BASE_MASK) OR push_bit PTE_BASE_SHIFT pfn"

section \<open>Walks\<close>

text \<open>The walk shared by the translations: the entry that maps the page, with its level. A leaf of the
  last level comes with its table.\<close>

datatype leaf = LEAF_PDPT uint64_t | LEAF_PD uint64_t | LEAF_PT nat uint64_t

definition walk :: "nat \<Rightarrow> uint64_t \<Rightarrow> mmu \<Rightarrow> StStatus + leaf" where
  "walk asp vpn s =
     (if vpn > VIRT_PAGE_MAX then Inl STATUS_INVALID_VALUE
      else if PML4_HOLE_START \<le> vpn \<and> vpn \<le> PML4_HOLE_END then Inl STATUS_PAGE_NOT_PRESENT
      else let pml4e = phys_mem s (root_table_pfn s asp) (PML4_INDEX vpn) in
      if \<not> flag_set pml4e PTE_P then Inl STATUS_PAGE_NOT_PRESENT
      else let pdpte = phys_mem s (pte_frame pml4e) (PDPT_INDEX vpn) in
      if \<not> flag_set pdpte PTE_P then Inl STATUS_PAGE_NOT_PRESENT
      else if flag_set pdpte PTE_PS then Inr (LEAF_PDPT pdpte)
      else let pde = phys_mem s (pte_frame pdpte) (PD_INDEX vpn) in
      if \<not> flag_set pde PTE_P then Inl STATUS_PAGE_NOT_PRESENT
      else if flag_set pde PTE_PS then Inr (LEAF_PD pde)
      else let pte = phys_mem s (pte_frame pde) (PT_INDEX vpn) in
      if \<not> flag_set pte PTE_P then Inl STATUS_PAGE_NOT_PRESENT
      else Inr (LEAF_PT (pte_frame pde) pte))"

fun leaf_pfn :: "uint64_t \<Rightarrow> leaf \<Rightarrow> nat" where
  "leaf_pfn vpn (LEAF_PDPT e) = pte_frame e + unat (vpn AND 0x3FFFF)"
| "leaf_pfn vpn (LEAF_PD e) = pte_frame e + unat (vpn AND 0x1FF)"
| "leaf_pfn vpn (LEAF_PT _ e) = pte_frame e"

definition vpn_to_pfn :: "nat \<Rightarrow> uint64_t \<Rightarrow> mmu \<Rightarrow> StStatus + nat" where
  "vpn_to_pfn asp vpn s =
     (case walk asp vpn s of Inl status \<Rightarrow> Inl status | Inr l \<Rightarrow> Inr (leaf_pfn vpn l))"

fun leaf_entry :: "leaf \<Rightarrow> uint64_t" where
  "leaf_entry (LEAF_PDPT e) = e"
| "leaf_entry (LEAF_PD e) = e"
| "leaf_entry (LEAF_PT _ e) = e"

definition vpn_to_page_map_flags :: "nat \<Rightarrow> uint64_t \<Rightarrow> mmu \<Rightarrow> StStatus + uint32_t" where
  "vpn_to_page_map_flags asp vpn s =
     (case walk asp vpn s of
        Inl status \<Rightarrow> Inl status
      | Inr l \<Rightarrow> Inr (pte_to_mapflags (has_nx s) (leaf_entry l)))"

text \<open>The pages after the first one that are mapped to the frames after the first one, in the same
  table.\<close>

fun contiguous_run :: "(nat \<Rightarrow> uint64_t) \<Rightarrow> nat \<Rightarrow> nat \<Rightarrow> nat list \<Rightarrow> nat" where
  "contiguous_run pt pfn n [] = n"
| "contiguous_run pt pfn n (k # ks) =
     (if \<not> flag_set (pt k) PTE_P then n
      else if pte_frame (pt k) \<noteq> pfn + n then n
      else contiguous_run pt pfn (n + 1) ks)"

fun leaf_pages :: "uint64_t \<Rightarrow> leaf \<Rightarrow> mmu \<Rightarrow> nat" where
  "leaf_pages vpn (LEAF_PDPT e) s = 2 ^ 18 - unat (vpn AND 0x3FFFF)"
| "leaf_pages vpn (LEAF_PD e) s = 2 ^ 9 - unat (vpn AND 0x1FF)"
| "leaf_pages vpn (LEAF_PT pt e) s =
     contiguous_run (phys_mem s pt) (pte_frame e) 1 [PT_INDEX vpn + 1..<512]"

text \<open>The direct-map pointer is the physical address it stands for.\<close>

definition local_addr_to_directmap_span ::
  "nat \<Rightarrow> uint64_t \<Rightarrow> nat \<Rightarrow> mmu \<Rightarrow> StStatus + nat \<times> nat" where
  "local_addr_to_directmap_span asp addr max_len s =
     (let vpn = addr div 4096; page_offset = unat (addr AND 0xFFF) in
      if max_len = 0 then Inr (0, 0)
      else case walk asp vpn s of
        Inl status \<Rightarrow> Inl status
      | Inr l \<Rightarrow>
          let available_len = leaf_pages vpn l s * PAGE_SIZE - page_offset
          in Inr (leaf_pfn vpn l * PAGE_SIZE + page_offset, min available_len max_len))"

definition StMmP_GlobalVirtPageToPhysFrame :: "uint64_t \<Rightarrow> mmu \<Rightarrow> StStatus + nat" where
  "StMmP_GlobalVirtPageToPhysFrame vpn s =
     (if \<not> IS_GLOBAL_VPN vpn then Inl STATUS_INVALID_VALUE else vpn_to_pfn BASE_ASP vpn s)"

definition StMmP_LocalVirtPageToPhysFrame :: "nat \<Rightarrow> uint64_t \<Rightarrow> mmu \<Rightarrow> StStatus + nat" where
  "StMmP_LocalVirtPageToPhysFrame asp vpn s =
     (if \<not> IS_LOCAL_VPN vpn then Inl STATUS_INVALID_VALUE else vpn_to_pfn asp vpn s)"

definition StMmP_GetGlobalPageMapFlags :: "uint64_t \<Rightarrow> mmu \<Rightarrow> StStatus + uint32_t" where
  "StMmP_GetGlobalPageMapFlags vpn s =
     (if \<not> IS_GLOBAL_VPN vpn then Inl STATUS_INVALID_VALUE else vpn_to_page_map_flags BASE_ASP vpn s)"

definition StMmP_GetLocalPageMapFlags :: "nat \<Rightarrow> uint64_t \<Rightarrow> mmu \<Rightarrow> StStatus + uint32_t" where
  "StMmP_GetLocalPageMapFlags asp vpn s =
     (if \<not> IS_LOCAL_VPN vpn then Inl STATUS_INVALID_VALUE else vpn_to_page_map_flags asp vpn s)"

section \<open>Tables on the way to a page\<close>

text \<open>
  The steps of \<^verbatim>\<open>map_memory\<close> and \<^verbatim>\<open>set_managed_memory\<close> from a table to the next one. The variable
  \<^verbatim>\<open>alloc_pfn\<close> lives across the rounds of their loops and is threaded through: a call of the
  allocator that reports success without writing it leaves the old value. It is not
  initialised; \<open>INVALID_PFN\<close> stands for the indeterminate value, which must not be used.
\<close>

definition table_entry :: "uint32_t \<Rightarrow> nat \<Rightarrow> uint64_t" where
  "table_entry mapflags pfn =
     put_flag (flag_set mapflags MF_USER) PTE_US
       (((0 AND NOT PTE_BASE_MASK) OR push_bit PTE_BASE_SHIFT (of_nat pfn)) OR PTE_P OR PTE_RW)"

definition let_user :: "uint32_t \<Rightarrow> nat \<Rightarrow> nat \<Rightarrow> mmu \<Rightarrow> mmu" where
  "let_user mapflags f i s =
     (if flag_set mapflags MF_USER then set_entry f i (phys_mem s f i OR PTE_US) s else s)"

definition next_table ::
  "uint32_t \<Rightarrow> nat \<Rightarrow> nat \<Rightarrow> nat \<Rightarrow> mmu \<Rightarrow> (mmu \<times> (StStatus + nat) \<times> nat) outcome" where
  "next_table mapflags f i alloc_pfn s =
     (if \<not> flag_set (phys_mem s f i) PTE_P then
        obind (allocate_page_table_frame alloc_pfn (\<not> flag_set mapflags MF_USER) s)
          (\<lambda>(s, status, alloc_pfn).
            if \<not> CHECK_SUCCESS status then Returned (s, Inl status, alloc_pfn)
            else Returned (set_entry f i (table_entry mapflags alloc_pfn) s, Inr alloc_pfn, alloc_pfn))
      else if flag_set (phys_mem s f i) PTE_PS then Returned (s, Inl STATUS_CONFLICTING_STATE, alloc_pfn)
      else Returned (let_user mapflags f i s, Inr (pte_frame (phys_mem s f i)), alloc_pfn))"

definition map_pml4 ::
  "nat \<Rightarrow> uint32_t \<Rightarrow> uint64_t \<Rightarrow> nat \<Rightarrow> mmu \<Rightarrow> (mmu \<times> (StStatus + nat) \<times> nat) outcome" where
  "map_pml4 asp mapflags vpn alloc_pfn s =
     (let pml4 = root_table_pfn s asp; base_pml4 = root_table_pfn s BASE_ASP; i = PML4_INDEX vpn in
      if \<not> flag_set (phys_mem s pml4 i) PTE_P then
        if vpn \<ge> MEMMAP_GLOBAL_VPN_BASE \<and> flag_set (phys_mem s base_pml4 i) PTE_P then
          Returned (set_entry pml4 i (phys_mem s base_pml4 i) s,
                    Inr (pte_frame (phys_mem s base_pml4 i)), alloc_pfn)
        else
          obind (allocate_page_table_frame alloc_pfn (\<not> flag_set mapflags MF_USER) s)
            (\<lambda>(s, status, alloc_pfn).
              if \<not> CHECK_SUCCESS status then Returned (s, Inl status, alloc_pfn)
              else let temp = table_entry mapflags alloc_pfn in
              if vpn \<ge> MEMMAP_GLOBAL_VPN_BASE then
                if flag_set (phys_mem s base_pml4 i) PTE_P then
                  obind (free_page_table_frame alloc_pfn s) (\<lambda>s.
                    Returned (set_entry pml4 i (phys_mem s base_pml4 i) s,
                              Inr (pte_frame (phys_mem s base_pml4 i)), alloc_pfn))
                else Returned (set_entry pml4 i temp (set_entry base_pml4 i temp s),
                               Inr alloc_pfn, alloc_pfn)
              else Returned (set_entry pml4 i temp s, Inr alloc_pfn, alloc_pfn))
      else Returned (let_user mapflags pml4 i s, Inr (pte_frame (phys_mem s pml4 i)), alloc_pfn))"

text \<open>The descent from the top table to the last one, where \<open>top_step\<close> is the step at the top.\<close>

definition descend ::
  "(mmu \<Rightarrow> (mmu \<times> (StStatus + nat) \<times> nat) outcome) \<Rightarrow> uint32_t \<Rightarrow> uint64_t \<Rightarrow> mmu
     \<Rightarrow> (mmu \<times> (StStatus + nat) \<times> nat) outcome" where
  "descend top_step mapflags vpn s =
     obind (top_step s) (\<lambda>(s, r, alloc_pfn).
       case r of Inl status \<Rightarrow> Returned (s, Inl status, alloc_pfn)
       | Inr pdpt \<Rightarrow>
     obind (next_table mapflags pdpt (PDPT_INDEX vpn) alloc_pfn s) (\<lambda>(s, r, alloc_pfn).
       case r of Inl status \<Rightarrow> Returned (s, Inl status, alloc_pfn)
       | Inr pd \<Rightarrow> next_table mapflags pd (PD_INDEX vpn) alloc_pfn s))"

definition chunk_size :: "uint64_t \<Rightarrow> uint64_t \<Rightarrow> uint64_t" where
  "chunk_size vpn count = (let n = of_nat (512 - PT_INDEX vpn) in if count < n then count else n)"

lemma PT_INDEX_less [simp]: "PT_INDEX vpn < 512"
proof -
  have "vpn AND 0x1FF \<le> (0x1FF :: uint64_t)" by (rule word_and_le1)
  then have "unat (vpn AND 0x1FF) \<le> unat (0x1FF :: uint64_t)" by (simp only: word_le_nat_alt)
  then show ?thesis by (simp add: PT_INDEX_def VIRT_PAGE_PT_MASK_def)
qed

lemma chunk_size_bounds:
  assumes "count \<noteq> 0"
  shows "0 < unat (chunk_size vpn count)" "unat (chunk_size vpn count) \<le> unat count"
    "unat (chunk_size vpn count) = min (unat count) (512 - PT_INDEX vpn)"
proof -
  have n: "unat (of_nat (512 - PT_INDEX vpn) :: uint64_t) = 512 - PT_INDEX vpn"
    by (simp add: unat_of_nat)
  then show c: "unat (chunk_size vpn count) = min (unat count) (512 - PT_INDEX vpn)"
    by (simp add: chunk_size_def Let_def word_less_nat_alt)
  show "0 < unat (chunk_size vpn count)" using assms by (simp add: c unat_gt_0)
  show "unat (chunk_size vpn count) \<le> unat count" by (simp add: c)
qed

lemma chunk_decreases: "count \<noteq> 0 \<Longrightarrow> unat (count - chunk_size vpn count) < unat count"
  using chunk_size_bounds [of count vpn] by (simp add: unat_sub word_le_nat_alt)

section \<open>Mapping\<close>

fun map_ptes :: "uint32_t \<Rightarrow> uint64_t \<Rightarrow> uint64_t \<Rightarrow> nat \<Rightarrow> nat \<Rightarrow> nat list \<Rightarrow> mmu \<Rightarrow> mmu \<times> StStatus" where
  "map_ptes mapflags template pfn pt pte_idx [] s = (s, STATUS_SUCCESS)"
| "map_ptes mapflags template pfn pt pte_idx (i # is) s =
     (if flag_set (phys_mem s pt (pte_idx + i)) PTE_P then (s, STATUS_DUPLICATE_ENTRY)
      else let e = set_pte_base template (pfn + of_nat i);
               s = set_entry pt (pte_idx + i) e s;
               s = (if flag_set mapflags MF_ZERO_FILL then clear_frame (pte_frame e) s else s)
           in map_ptes mapflags template pfn pt pte_idx is s)"

text \<open>The loop returns the final value of \<^verbatim>\<open>vpn\<close>, which decides about the unlocking.\<close>

function map_loop ::
  "nat \<Rightarrow> uint32_t \<Rightarrow> uint64_t \<Rightarrow> nat \<Rightarrow> uint64_t \<Rightarrow> uint64_t \<Rightarrow> uint64_t \<Rightarrow> mmu
     \<Rightarrow> (mmu \<times> StStatus \<times> uint64_t) outcome" where
  "map_loop asp mapflags template alloc_pfn pfn vpn count s =
     (if count = 0 then Returned (s, STATUS_SUCCESS, vpn)
      else obind (descend (map_pml4 asp mapflags vpn alloc_pfn) mapflags vpn s) (\<lambda>(s, r, alloc_pfn).
        case r of
          Inl status \<Rightarrow> Returned (s, status, vpn)
        | Inr pt \<Rightarrow>
            let n = chunk_size vpn count in
            case map_ptes mapflags template pfn pt (PT_INDEX vpn) [0..<unat n] s of
              (s, status) \<Rightarrow>
                if \<not> CHECK_SUCCESS status then Returned (s, status, vpn)
                else map_loop asp mapflags template alloc_pfn (pfn + n) (vpn + n) (count - n) s))"
  by pat_completeness auto
termination
  by (relation "measure (\<lambda>(asp, mapflags, template, alloc_pfn, pfn, vpn, count, s). unat count)")
    (auto simp: chunk_decreases)

declare map_loop.simps [simp del]

definition map_memory ::
  "nat \<Rightarrow> uint64_t \<Rightarrow> uint64_t \<Rightarrow> uint64_t \<Rightarrow> uint32_t \<Rightarrow> mmu \<Rightarrow> (mmu \<times> StStatus) outcome" where
  "map_memory asp pfn vpn count mapflags s =
     (if vpn + count > VIRT_PAGE_MAX then Returned (s, STATUS_INVALID_VALUE)
      else if PML4_HOLE_START \<le> vpn \<and> vpn \<le> PML4_HOLE_END then Returned (s, STATUS_INVALID_VALUE)
      else if PML4_HOLE_START \<le> vpn + count \<and> vpn + count - 1 \<le> PML4_HOLE_END
      then Returned (s, STATUS_INVALID_VALUE)
      else obind (if vpn \<ge> MEMMAP_GLOBAL_VPN_BASE then mmu_lock s else Returned s) (\<lambda>s.
        obind (map_loop asp mapflags (make_pte_template (has_nx s) mapflags) INVALID_PFN pfn vpn count s)
          (\<lambda>(s, status, vpn).
            obind (if vpn \<ge> MEMMAP_GLOBAL_VPN_BASE then mmu_unlock s else Returned s) (\<lambda>s.
              Returned (s, status)))))"

definition StMmP_MapGlobalContiguousMemory ::
  "uint64_t \<Rightarrow> uint64_t \<Rightarrow> uint64_t \<Rightarrow> uint32_t \<Rightarrow> mmu \<Rightarrow> (mmu \<times> StStatus) outcome" where
  "StMmP_MapGlobalContiguousMemory pfn vpn count mapflags s =
     (if \<not> IS_GLOBAL_VPN vpn then Returned (s, STATUS_INVALID_VALUE)
      else map_memory BASE_ASP pfn vpn count mapflags s)"

definition StMmP_MapLocalContiguousMemory ::
  "nat \<Rightarrow> uint64_t \<Rightarrow> uint64_t \<Rightarrow> uint64_t \<Rightarrow> uint32_t \<Rightarrow> mmu \<Rightarrow> (mmu \<times> StStatus) outcome" where
  "StMmP_MapLocalContiguousMemory asp pfn vpn count mapflags s =
     (if \<not> IS_LOCAL_VPN vpn then Returned (s, STATUS_INVALID_VALUE)
      else map_memory asp pfn vpn count (mapflags OR MF_ZERO_FILL) s)"

end
