(* ===== verification/Paging_Unmap.thy ===== *)
theory Paging_Unmap
  imports Paging_Map
begin

text \<open>
  Managed entries, remapping, unmapping and the page tables of address spaces
  (\<^verbatim>\<open>strata/arch/amd64/pc/mm.c\<close>).
\<close>

section \<open>Managed entries\<close>

text \<open>At the top \<^verbatim>\<open>set_managed_memory\<close> looks neither at the base tables nor at \<^verbatim>\<open>PTE_PS\<close>.\<close>

definition managed_pml4 ::
  "nat \<Rightarrow> uint32_t \<Rightarrow> uint64_t \<Rightarrow> nat \<Rightarrow> mmu \<Rightarrow> (mmu \<times> (StStatus + nat) \<times> nat) outcome" where
  "managed_pml4 asp mapflags vpn alloc_pfn s =
     (let pml4 = root_table_pfn s asp; i = PML4_INDEX vpn in
      if \<not> flag_set (phys_mem s pml4 i) PTE_P then
        obind (allocate_page_table_frame alloc_pfn (\<not> flag_set mapflags MF_USER) s)
          (\<lambda>(s, status, alloc_pfn).
            if \<not> CHECK_SUCCESS status then Returned (s, Inl status, alloc_pfn)
            else Returned (set_entry pml4 i (table_entry mapflags alloc_pfn) s, Inr alloc_pfn, alloc_pfn))
      else Returned (let_user mapflags pml4 i s, Inr (pte_frame (phys_mem s pml4 i)), alloc_pfn))"

fun manage_ptes :: "nat \<Rightarrow> nat list \<Rightarrow> mmu \<Rightarrow> mmu \<times> StStatus" where
  "manage_ptes pt [] s = (s, STATUS_SUCCESS)"
| "manage_ptes pt (k # ks) s =
     (if flag_set (phys_mem s pt k) PTE_P then (s, STATUS_DUPLICATE_ENTRY)
      else if phys_mem s pt k \<noteq> 0 \<and> \<not> flag_set (phys_mem s pt k) PTE_MANAGED
      then (s, STATUS_CONFLICTING_STATE)
      else manage_ptes pt ks (set_entry pt k PTE_MANAGED s))"

function set_managed_loop ::
  "nat \<Rightarrow> uint32_t \<Rightarrow> nat \<Rightarrow> uint64_t \<Rightarrow> uint64_t \<Rightarrow> mmu \<Rightarrow> (mmu \<times> StStatus) outcome" where
  "set_managed_loop asp mapflags alloc_pfn vpn count s =
     (if count = 0 then Returned (s, STATUS_SUCCESS)
      else obind (descend (managed_pml4 asp mapflags vpn alloc_pfn) mapflags vpn s) (\<lambda>(s, r, alloc_pfn).
        case r of
          Inl status \<Rightarrow> Returned (s, status)
        | Inr pt \<Rightarrow>
            let n = chunk_size vpn count in
            case manage_ptes pt [PT_INDEX vpn..<PT_INDEX vpn + unat n] s of
              (s, status) \<Rightarrow>
                if \<not> CHECK_SUCCESS status then Returned (s, status)
                else set_managed_loop asp mapflags alloc_pfn (vpn + n) (count - n) s))"
  by pat_completeness auto
termination
  by (relation "measure (\<lambda>(asp, mapflags, alloc_pfn, vpn, count, s). unat count)")
    (auto simp: chunk_decreases)

declare set_managed_loop.simps [simp del]

definition set_managed_memory ::
  "nat \<Rightarrow> uint64_t \<Rightarrow> uint64_t \<Rightarrow> uint32_t \<Rightarrow> mmu \<Rightarrow> (mmu \<times> StStatus) outcome" where
  "set_managed_memory asp vpn count mapflags s =
     (if count = 0 then Returned (s, STATUS_INVALID_VALUE)
      else if vpn > VIRT_PAGE_MAX then Returned (s, STATUS_INVALID_VALUE)
      else if count - 1 > VIRT_PAGE_MAX - vpn then Returned (s, STATUS_INVALID_VALUE)
      else if PML4_HOLE_START \<le> vpn \<and> vpn \<le> PML4_HOLE_END then Returned (s, STATUS_INVALID_VALUE)
      else if PML4_HOLE_START \<le> vpn + count - 1 \<and> vpn + count - 1 \<le> PML4_HOLE_END
      then Returned (s, STATUS_INVALID_VALUE)
      else set_managed_loop asp mapflags INVALID_PFN vpn count s)"

text \<open>One page of \<^verbatim>\<open>clear_managed_memory\<close>; each \<^verbatim>\<open>continue\<close> leaves the state as it is.\<close>

definition clear_managed_page :: "nat \<Rightarrow> uint64_t \<Rightarrow> mmu \<Rightarrow> mmu" where
  "clear_managed_page asp vpn s =
     (if PML4_HOLE_START \<le> vpn \<and> vpn \<le> PML4_HOLE_END then s
      else let pml4e = phys_mem s (root_table_pfn s asp) (PML4_INDEX vpn) in
      if \<not> flag_set pml4e PTE_P then s
      else let pdpte = phys_mem s (pte_frame pml4e) (PDPT_INDEX vpn) in
      if \<not> flag_set pdpte PTE_P \<or> flag_set pdpte PTE_PS then s
      else let pde = phys_mem s (pte_frame pdpte) (PD_INDEX vpn) in
      if \<not> flag_set pde PTE_P \<or> flag_set pde PTE_PS then s
      else let pte = phys_mem s (pte_frame pde) (PT_INDEX vpn) in
      if \<not> flag_set pte PTE_P \<and> flag_set pte PTE_MANAGED
      then set_entry (pte_frame pde) (PT_INDEX vpn) 0 s
      else s)"

fun clear_managed_loop :: "nat \<Rightarrow> uint64_t \<Rightarrow> nat \<Rightarrow> mmu \<Rightarrow> mmu" where
  "clear_managed_loop asp vpn 0 s = s"
| "clear_managed_loop asp vpn (Suc n) s =
     (if vpn > VIRT_PAGE_MAX then s else clear_managed_loop asp (vpn + 1) n (clear_managed_page asp vpn s))"

definition clear_managed_memory :: "nat \<Rightarrow> uint64_t \<Rightarrow> uint64_t \<Rightarrow> mmu \<Rightarrow> mmu" where
  "clear_managed_memory asp vpn count s =
     (if \<not> IS_LOCAL_VPN vpn then s else if count = 0 then s
      else clear_managed_loop asp vpn (unat count) s)"

definition StMmP_MapGlobalSparseMemory :: "uint64_t \<Rightarrow> uint64_t \<Rightarrow> uint32_t \<Rightarrow> StStatus" where
  "StMmP_MapGlobalSparseMemory vpn count mapflags =
     (if \<not> IS_GLOBAL_VPN vpn then STATUS_INVALID_VALUE
      else if flag_set mapflags MF_IMMEDIATE then STATUS_SUCCESS
      else STATUS_NOT_SUPPORTED)"

definition StMmP_MapLocalSparseMemory ::
  "nat \<Rightarrow> uint64_t \<Rightarrow> uint64_t \<Rightarrow> uint32_t \<Rightarrow> mmu \<Rightarrow> (mmu \<times> StStatus) outcome" where
  "StMmP_MapLocalSparseMemory asp vpn count mapflags s =
     (if \<not> IS_LOCAL_VPN vpn then Returned (s, STATUS_INVALID_VALUE)
      else if flag_set mapflags MF_IMMEDIATE then Returned (s, STATUS_SUCCESS)
      else obind (set_managed_memory asp vpn count (mapflags OR MF_ZERO_FILL) s) (\<lambda>(s, status).
        Returned (if \<not> CHECK_SUCCESS status then clear_managed_memory asp vpn count s else s, status)))"

section \<open>Remapping\<close>

text \<open>The path to the last table. At the second level \<^verbatim>\<open>remap_memory\<close> does not look at \<^verbatim>\<open>PTE_PS\<close>.\<close>

definition remap_path :: "nat \<Rightarrow> uint32_t \<Rightarrow> uint64_t \<Rightarrow> mmu \<Rightarrow> mmu \<times> (StStatus + nat)" where
  "remap_path asp mapflags vpn s =
     (let pml4 = root_table_pfn s asp; pml4e = phys_mem s pml4 (PML4_INDEX vpn) in
      if \<not> flag_set pml4e PTE_P then (s, Inl STATUS_PAGE_NOT_PRESENT)
      else let s = let_user mapflags pml4 (PML4_INDEX vpn) s;
               pdpt = pte_frame pml4e; pdpte = phys_mem s pdpt (PDPT_INDEX vpn) in
      if \<not> flag_set pdpte PTE_P then (s, Inl STATUS_PAGE_NOT_PRESENT)
      else let s = let_user mapflags pdpt (PDPT_INDEX vpn) s;
               pd = pte_frame pdpte; pde = phys_mem s pd (PD_INDEX vpn) in
      if \<not> flag_set pde PTE_P then (s, Inl STATUS_PAGE_NOT_PRESENT)
      else if flag_set pde PTE_PS then (s, Inl STATUS_CONFLICTING_STATE)
      else (let_user mapflags pd (PD_INDEX vpn) s, Inr (pte_frame pde)))"

fun remap_ptes :: "uint64_t \<Rightarrow> nat \<Rightarrow> nat list \<Rightarrow> mmu \<Rightarrow> mmu \<times> StStatus" where
  "remap_ptes template pt [] s = (s, STATUS_SUCCESS)"
| "remap_ptes template pt (k # ks) s =
     (if \<not> flag_set (phys_mem s pt k) PTE_P then
        if flag_set (phys_mem s pt k) PTE_MANAGED then remap_ptes template pt ks s
        else (s, STATUS_PAGE_NOT_PRESENT)
      else remap_ptes template pt ks
             (set_entry pt k (set_pte_base template (of_nat (pte_frame (phys_mem s pt k)))) s))"

text \<open>The loop either ends with its final \<^verbatim>\<open>vpn\<close> or leaves the function with a status.\<close>

function remap_loop ::
  "nat \<Rightarrow> uint32_t \<Rightarrow> uint64_t \<Rightarrow> uint64_t \<Rightarrow> uint64_t \<Rightarrow> mmu \<Rightarrow> mmu \<times> (StStatus + uint64_t)" where
  "remap_loop asp mapflags template vpn count s =
     (if count = 0 then (s, Inr vpn)
      else case remap_path asp mapflags vpn s of
          (s, Inl status) \<Rightarrow> (s, Inl status)
        | (s, Inr pt) \<Rightarrow>
            let n = chunk_size vpn count in
            case remap_ptes template pt [PT_INDEX vpn..<PT_INDEX vpn + unat n] s of
              (s, status) \<Rightarrow>
                if \<not> CHECK_SUCCESS status then (s, Inl status)
                else remap_loop asp mapflags template (vpn + n) (count - n) s)"
  by pat_completeness auto
termination
  by (relation "measure (\<lambda>(asp, mapflags, template, vpn, count, s). unat count)")
    (auto simp: chunk_decreases)

declare remap_loop.simps [simp del]

text \<open>An error inside the loop returns without unlocking.\<close>

definition remap_memory ::
  "nat \<Rightarrow> uint64_t \<Rightarrow> uint64_t \<Rightarrow> uint32_t \<Rightarrow> mmu \<Rightarrow> (mmu \<times> StStatus) outcome" where
  "remap_memory asp vpn count mapflags s =
     (if vpn > VIRT_PAGE_MAX then Returned (s, STATUS_INVALID_VALUE)
      else if PML4_HOLE_START \<le> vpn \<and> vpn \<le> PML4_HOLE_END then Returned (s, STATUS_INVALID_VALUE)
      else if PML4_HOLE_START \<le> vpn + count \<and> vpn + count - 1 \<le> PML4_HOLE_END
      then Returned (s, STATUS_INVALID_VALUE)
      else let do_invlpg = (has_invlpg s \<and> count < 16) in
      obind (if vpn \<ge> MEMMAP_GLOBAL_VPN_BASE then mmu_lock s else Returned s) (\<lambda>s.
        case remap_loop asp mapflags (make_pte_template (has_nx s) mapflags) vpn count s of
          (s, Inl status) \<Rightarrow> Returned (s, status)
        | (s, Inr vpn) \<Rightarrow>
            obind (if do_invlpg then Returned s else release_quarantined_page_table_frames s) (\<lambda>s.
            obind (if vpn \<ge> MEMMAP_GLOBAL_VPN_BASE then mmu_unlock s else Returned s) (\<lambda>s.
              Returned (s, STATUS_SUCCESS)))))"

definition StMmP_RemapGlobalContiguousMemory ::
  "uint64_t \<Rightarrow> uint64_t \<Rightarrow> uint32_t \<Rightarrow> mmu \<Rightarrow> (mmu \<times> StStatus) outcome" where
  "StMmP_RemapGlobalContiguousMemory vpn count mapflags s =
     (if \<not> IS_GLOBAL_VPN vpn then Returned (s, STATUS_INVALID_VALUE)
      else remap_memory BASE_ASP vpn count mapflags s)"

definition StMmP_RemapLocalContiguousMemory ::
  "nat \<Rightarrow> uint64_t \<Rightarrow> uint64_t \<Rightarrow> uint32_t \<Rightarrow> mmu \<Rightarrow> (mmu \<times> StStatus) outcome" where
  "StMmP_RemapLocalContiguousMemory asp vpn count mapflags s =
     (if \<not> IS_LOCAL_VPN vpn then Returned (s, STATUS_INVALID_VALUE)
      else remap_memory asp vpn count mapflags s)"

section \<open>Unmapping\<close>

text \<open>The path to the last table, which panics at a missing table; \<^verbatim>\<open>PTE_PS\<close> is not looked at.\<close>

definition unmap_path :: "nat \<Rightarrow> uint64_t \<Rightarrow> mmu \<Rightarrow> nat outcome" where
  "unmap_path asp vpn s =
     (let pml4e = phys_mem s (root_table_pfn s asp) (PML4_INDEX vpn) in
      if \<not> flag_set pml4e PTE_P then Panicked STATUS_PAGE_NOT_PRESENT
      else let pdpte = phys_mem s (pte_frame pml4e) (PDPT_INDEX vpn) in
      if \<not> flag_set pdpte PTE_P then Panicked STATUS_PAGE_NOT_PRESENT
      else let pde = phys_mem s (pte_frame pdpte) (PD_INDEX vpn) in
      if \<not> flag_set pde PTE_P then Panicked STATUS_PAGE_NOT_PRESENT
      else Returned (pte_frame pde))"

fun unmap_ptes :: "nat \<Rightarrow> nat list \<Rightarrow> mmu \<Rightarrow> mmu outcome" where
  "unmap_ptes pt [] s = Returned s"
| "unmap_ptes pt (k # ks) s =
     (if \<not> flag_set (phys_mem s pt k) PTE_P then Panicked STATUS_PAGE_NOT_PRESENT
      else unmap_ptes pt ks (set_entry pt k 0 s))"

function unmap_loop :: "nat \<Rightarrow> uint64_t \<Rightarrow> uint64_t \<Rightarrow> mmu \<Rightarrow> (mmu \<times> uint64_t) outcome" where
  "unmap_loop asp vpn count s =
     (if count = 0 then Returned (s, vpn)
      else obind (unmap_path asp vpn s) (\<lambda>pt.
        let n = chunk_size vpn count in
        obind (unmap_ptes pt [PT_INDEX vpn..<PT_INDEX vpn + unat n] s) (\<lambda>s.
          unmap_loop asp (vpn + n) (count - n) s)))"
  by pat_completeness auto
termination
  by (relation "measure (\<lambda>(asp, vpn, count, s). unat count)") (auto simp: chunk_decreases)

declare unmap_loop.simps [simp del]

definition unmap_memory :: "nat \<Rightarrow> uint64_t \<Rightarrow> uint64_t \<Rightarrow> mmu \<Rightarrow> mmu outcome" where
  "unmap_memory asp vpn count s =
     (if vpn > VIRT_PAGE_MAX then Returned s
      else if PML4_HOLE_START \<le> vpn \<and> vpn \<le> PML4_HOLE_END then Returned s
      else if PML4_HOLE_START \<le> vpn + count \<and> vpn + count - 1 \<le> PML4_HOLE_END then Returned s
      else let do_invlpg = (has_invlpg s \<and> count < 16) in
      obind (if vpn \<ge> MEMMAP_GLOBAL_VPN_BASE then mmu_lock s else Returned s) (\<lambda>s.
      obind (unmap_loop asp vpn count s) (\<lambda>(s, vpn).
      obind (if do_invlpg then Returned s else release_quarantined_page_table_frames s) (\<lambda>s.
        if vpn \<ge> MEMMAP_GLOBAL_VPN_BASE then mmu_unlock s else Returned s))))"

definition StMmP_UnmapGlobalContiguousMemory :: "uint64_t \<Rightarrow> uint64_t \<Rightarrow> mmu \<Rightarrow> mmu outcome" where
  "StMmP_UnmapGlobalContiguousMemory vpn count s =
     (if \<not> IS_GLOBAL_VPN vpn then Returned s else unmap_memory BASE_ASP vpn count s)"

definition StMmP_UnmapLocalContiguousMemory :: "nat \<Rightarrow> uint64_t \<Rightarrow> uint64_t \<Rightarrow> mmu \<Rightarrow> mmu outcome" where
  "StMmP_UnmapLocalContiguousMemory asp vpn count s =
     (if \<not> IS_LOCAL_VPN vpn then Returned s else unmap_memory asp vpn count s)"

definition StMmP_UnmapGlobalSparseMemory :: "uint64_t \<Rightarrow> uint64_t \<Rightarrow> mmu \<Rightarrow> mmu" where
  "StMmP_UnmapGlobalSparseMemory vpn count s =
     (if \<not> IS_GLOBAL_VPN vpn then s else clear_managed_memory BASE_ASP vpn count s)"

definition StMmP_UnmapLocalSparseMemory :: "nat \<Rightarrow> uint64_t \<Rightarrow> uint64_t \<Rightarrow> mmu \<Rightarrow> mmu" where
  "StMmP_UnmapLocalSparseMemory asp vpn count s =
     (if \<not> IS_LOCAL_VPN vpn then s else clear_managed_memory asp vpn count s)"

section \<open>The tables of an address space\<close>

definition StAddressSpaceP_InitBase :: "mmu \<Rightarrow> mmu \<times> StStatus" where
  "StAddressSpaceP_InitBase s =
     (s\<lparr>root_table_pfn := (root_table_pfn s)(BASE_ASP := unat (cr3 s div 4096))\<rparr>, STATUS_SUCCESS)"

text \<open>The walk over the tables under the first entry only invalidates translations.\<close>

definition StMmP_CleanupTempMapping :: "mmu \<Rightarrow> mmu \<times> StStatus" where
  "StMmP_CleanupTempMapping s = (set_entry (root_table_pfn s BASE_ASP) 0 0 s, STATUS_SUCCESS)"

definition StAddressSpaceP_Create :: "nat \<Rightarrow> mmu \<Rightarrow> (mmu \<times> StStatus) outcome" where
  "StAddressSpaceP_Create asp s =
     obind (allocate_fresh_page_table_frame INVALID_PFN s) (\<lambda>(s, status, pfn).
       if \<not> CHECK_SUCCESS status then
         obind (if pfn \<noteq> INVALID_PFN then free_frame pfn s else Returned s) (\<lambda>s. Returned (s, status))
       else Returned
         (s\<lparr>phys_mem := (phys_mem s)(pfn := phys_mem s (root_table_pfn s BASE_ASP)),
            root_table_pfn := (root_table_pfn s)(asp := pfn)\<rparr>, STATUS_SUCCESS))"

text \<open>The frames that \<^verbatim>\<open>StAddressSpaceP_Remove\<close> frees, in its order.\<close>

definition present_tables :: "(nat \<Rightarrow> uint64_t) \<Rightarrow> nat \<Rightarrow> nat list" where
  "present_tables t n =
     map (\<lambda>i. pte_frame (t i)) (filter (\<lambda>i. flag_set (t i) PTE_P \<and> \<not> flag_set (t i) PTE_PS) [0..<n])"

definition user_table_frames :: "nat \<Rightarrow> mmu \<Rightarrow> nat list" where
  "user_table_frames asp s =
     concat (map (\<lambda>i. let pdpt = pte_frame (phys_mem s (root_table_pfn s asp) i) in
       concat (map (\<lambda>pd. present_tables (phys_mem s pd) 512 @ [pd]) (present_tables (phys_mem s pdpt) 512))
         @ [pdpt])
       (filter (\<lambda>i. flag_set (phys_mem s (root_table_pfn s asp) i) PTE_P) [0..<256]))
     @ [root_table_pfn s asp]"

fun free_frames_of :: "nat list \<Rightarrow> mmu \<Rightarrow> mmu outcome" where
  "free_frames_of [] s = Returned s"
| "free_frames_of (f # fs) s = obind (free_frame f s) (free_frames_of fs)"

definition StAddressSpaceP_Remove :: "nat \<Rightarrow> mmu \<Rightarrow> mmu outcome" where
  "StAddressSpaceP_Remove asp s = free_frames_of (user_table_frames asp s) s"

definition StAddressSpaceP_Switch :: "nat \<Rightarrow> mmu \<Rightarrow> (mmu \<times> StStatus) outcome" where
  "StAddressSpaceP_Switch asp s =
     obind (release_quarantined_page_table_frames (s\<lparr>cr3 := of_nat (root_table_pfn s asp) * 4096\<rparr>)) (\<lambda>s.
       Returned (s\<lparr>current_asp := asp\<rparr>, STATUS_SUCCESS))"

end
