(* ===== verification/Vmm.thy ===== *)
theory Vmm
  imports Paging_Unmap
begin

text \<open>
  The state of the virtual memory manager and its internal operations
  (\<^verbatim>\<open>strata/mm/vmm.c\<close>, \<^verbatim>\<open>strata/mm/internal.h\<close>): reservation nodes in an early and a dynamic pool,
  doubly linked lists of nodes per domain and per owner, and the searches over them.

  Nodes live in a store and are linked by pointers. A pointer names a slot of the early pool or
  the position of a node on a frame of the dynamic pool. Page numbers and counts are 64-bit words.
\<close>

section \<open>Constants and data\<close>

definition EARLY_RESERVATION_NODE_POOL_COUNT :: nat where "EARLY_RESERVATION_NODE_POOL_COUNT = 1024"
definition DYNAMIC_RESERVATION_NODE_LOW_WATERMARK :: nat where
  "DYNAMIC_RESERVATION_NODE_LOW_WATERMARK = 16"
definition DYNAMIC_RESERVATION_NODE_MAX_SLABS :: nat where "DYNAMIC_RESERVATION_NODE_MAX_SLABS = 256"
definition VMM_GUARD_PAGE_COUNT :: uint64_t where "VMM_GUARD_PAGE_COUNT = 1"
definition VMM_DOMAIN_MAX :: nat where "VMM_DOMAIN_MAX = 5"

definition AF_VMM_ALLOC_TOPDOWN :: uint32_t where "AF_VMM_ALLOC_TOPDOWN = 0x00020000"
definition AF_VMM_RESERVATION_MAP :: uint32_t where "AF_VMM_RESERVATION_MAP = 0x10000000"
definition AF_VMM_RESERVATION_SPARSE :: uint32_t where "AF_VMM_RESERVATION_SPARSE = 0x20000000"
definition AF_VMM_RESERVATION_ON_DEMAND :: uint32_t where "AF_VMM_RESERVATION_ON_DEMAND = 0x40000000"
definition AF_VMM_RESERVATION_MASK :: uint32_t where
  "AF_VMM_RESERVATION_MASK =
     AF_VMM_RESERVATION_MAP OR AF_VMM_RESERVATION_SPARSE OR AF_VMM_RESERVATION_ON_DEMAND"

text \<open>The size of \<^verbatim>\<open>struct vmm_reservation_node\<close> on a 64-bit machine.\<close>

definition SIZEOF_NODE :: nat where "SIZEOF_NODE = 144"

text \<open>The image behind \<^verbatim>\<open>base\<close> is a function from offsets to bytes; \<open>None\<close> is NULL.\<close>

record StMm_ImageBacking =
  img_base :: "(nat \<Rightarrow> uint8_t) option"
  img_size :: uint64_t
  content_addr :: uint64_t
  content_offset :: uint64_t
  content_size :: uint64_t

datatype StVmm_PageMappingType =
    VMM_PAGE_MAPPING_PHYSICAL | VMM_PAGE_MAPPING_DEMAND_ZERO | VMM_PAGE_MAPPING_IMAGE
  | VMM_PAGE_MAPPING_GUARD

datatype StVmm_PhysicalLayout = VMM_PHYSICAL_LAYOUT_CONTIGUOUS | VMM_PHYSICAL_LAYOUT_SPARSE

datatype vmm_reservation_type = VMM_RESERVATION_ALLOC | VMM_RESERVATION_MAP

record StVmm_PageMappingPolicy =
  policy_type :: StVmm_PageMappingType
  policy_image :: StMm_ImageBacking

datatype node_ptr = EarlyNode nat | DynNode nat nat

record vmm_reservation_node =
  base_vpn :: uint64_t
  limit_vpn :: uint64_t
  node_owner :: "nat option"
  owner_prev :: "node_ptr option"
  owner_next :: "node_ptr option"
  domain_prev :: "node_ptr option"
  domain_next :: "node_ptr option"
  node_asp :: "nat option"
  reservation_type :: vmm_reservation_type
  guard_page_count :: uint64_t
  node_alloc_flags :: uint32_t
  node_map_flags :: uint32_t
  mapping_policy :: StVmm_PageMappingPolicy
  node_domain :: nat
  is_live :: bool

record vmm_reservation_domain =
  dom_head :: "node_ptr option"
  dom_base_vpn :: uint64_t
  dom_limit_vpn :: uint64_t
  dom_free_count :: uint64_t
  dom_initialized :: bool

text \<open>The part of \<^verbatim>\<open>struct StAddressSpace\<close> that the VMM uses, with the allocation owner of its process.\<close>

record StAddressSpace =
  user_reservation_head :: "node_ptr option"
  user_base_vpn :: uint64_t
  user_limit_vpn :: uint64_t
  user_free_count :: uint64_t
  alloc_owner :: "nat option"

record StVmm_PageInfo =
  info_owner :: "nat option"
  info_alloc_flags :: uint32_t
  info_map_flags :: uint32_t
  physical_layout :: StVmm_PhysicalLayout
  info_mapping_policy :: StVmm_PageMappingPolicy

text \<open>The state. The slabs of the dynamic pool are the frames they occupy.\<close>

record vmm =
  vm_mmu :: mmu
  nodes :: "node_ptr \<Rightarrow> vmm_reservation_node"
  reservation_domain_list :: "nat \<Rightarrow> vmm_reservation_domain"
  asps :: "nat \<Rightarrow> StAddressSpace"
  first_vmm_reservation :: "nat \<Rightarrow> node_ptr option"
  last_vmm_reservation :: "nat \<Rightarrow> node_ptr option"
  early_reservation_node_pool_used_count :: nat
  dynamic_reservation_node_freelist :: "node_ptr option"
  dynamic_reservation_node_free_count :: nat
  dynamic_reservation_node_total_count :: nat
  is_topping_up_dynamic_reservation_node_pool :: bool
  dynamic_reservation_node_slabs :: "nat list"
  validate_fail_log_budget :: uint32_t
  interrupts_enabled :: bool

definition no_image :: StMm_ImageBacking where
  "no_image = \<lparr>img_base = None, img_size = 0, content_addr = 0, content_offset = 0, content_size = 0\<rparr>"

definition make_simple_page_mapping_policy :: "StVmm_PageMappingType \<Rightarrow> StVmm_PageMappingPolicy" where
  "make_simple_page_mapping_policy t = \<lparr>policy_type = t, policy_image = no_image\<rparr>"

text \<open>A node after \<^verbatim>\<open>memset(node, 0, sizeof(*node))\<close>.\<close>

definition zero_node :: vmm_reservation_node where
  "zero_node =
     \<lparr>base_vpn = 0, limit_vpn = 0, node_owner = None, owner_prev = None, owner_next = None,
      domain_prev = None, domain_next = None, node_asp = None, reservation_type = VMM_RESERVATION_ALLOC,
      guard_page_count = 0, node_alloc_flags = 0, node_map_flags = 0,
      mapping_policy = make_simple_page_mapping_policy VMM_PAGE_MAPPING_PHYSICAL, node_domain = 0,
      is_live = False\<rparr>"

definition upd_node :: "node_ptr \<Rightarrow> (vmm_reservation_node \<Rightarrow> vmm_reservation_node) \<Rightarrow> vmm \<Rightarrow> vmm" where
  "upd_node n f s = s\<lparr>nodes := (nodes s)(n := f (nodes s n))\<rparr>"

definition vm_pmm :: "vmm \<Rightarrow> pmm" where "vm_pmm s = mm_pmm (vm_mmu s)"

definition set_vm_pmm :: "pmm \<Rightarrow> vmm \<Rightarrow> vmm" where
  "set_vm_pmm p s = s\<lparr>vm_mmu := (vm_mmu s)\<lparr>mm_pmm := p\<rparr>\<rparr>"

text \<open>Saving and disabling interrupts, locking preemption, and the way back.\<close>

definition with_irq_locked :: "(vmm \<Rightarrow> (vmm \<times> 'a) outcome) \<Rightarrow> vmm \<Rightarrow> (vmm \<times> 'a) outcome" where
  "with_irq_locked f s =
     (let irq_state = interrupts_enabled s in
      obind (mmu_lock (vm_mmu s)) (\<lambda>m.
      obind (f (s\<lparr>interrupts_enabled := False, vm_mmu := m\<rparr>)) (\<lambda>(s, r).
      obind (mmu_unlock (vm_mmu s)) (\<lambda>m.
        Returned (s\<lparr>vm_mmu := m, interrupts_enabled := irq_state\<rparr>, r)))))"

section \<open>The pools of nodes\<close>

fun is_node_in_dynamic_pool :: "node_ptr \<Rightarrow> vmm \<Rightarrow> bool" where
  "is_node_in_dynamic_pool (EarlyNode k) s = False"
| "is_node_in_dynamic_pool (DynNode f i) s =
     (f \<in> set (dynamic_reservation_node_slabs s) \<and> i * SIZEOF_NODE < PAGE_SIZE)"

definition push_dynamic_reservation_node :: "node_ptr \<Rightarrow> vmm \<Rightarrow> vmm" where
  "push_dynamic_reservation_node n s =
     (upd_node n (domain_next_update (\<lambda>_. dynamic_reservation_node_freelist s)) s)
       \<lparr>dynamic_reservation_node_freelist := Some n,
        dynamic_reservation_node_free_count := dynamic_reservation_node_free_count s + 1\<rparr>"

definition pop_dynamic_reservation_node :: "vmm \<Rightarrow> node_ptr option \<times> vmm" where
  "pop_dynamic_reservation_node s =
     (case dynamic_reservation_node_freelist s of
        None \<Rightarrow> (None, s)
      | Some n \<Rightarrow>
          (Some n, (upd_node n (domain_next_update (\<lambda>_. None)) s)
             \<lparr>dynamic_reservation_node_freelist := domain_next (nodes s n),
              dynamic_reservation_node_free_count := dynamic_reservation_node_free_count s - 1\<rparr>))"

definition NODES_PER_PAGE :: nat where "NODES_PER_PAGE = PAGE_SIZE div SIZEOF_NODE"

text \<open>The nodes are written through the direct map: the frame must be one of the managed range. The flag
  that guards against reentry is down before and after; the frame allocator does not call back.\<close>

definition topup_dynamic_reservation_node_pool :: "vmm \<Rightarrow> (vmm \<times> StStatus) outcome" where
  "topup_dynamic_reservation_node_pool s =
     (if is_topping_up_dynamic_reservation_node_pool s then Returned (s, STATUS_SUCCESS)
      else if length (dynamic_reservation_node_slabs s) \<ge> DYNAMIC_RESERVATION_NODE_MAX_SLABS
      then Returned (s, STATUS_TOO_LARGE)
      else obind (StPmm_AllocateContiguousFrame INVALID_PFN 1 None AF_DEFAULT (vm_pmm s)) (\<lambda>(p, status, pfn).
        let s = set_vm_pmm p s in
        if \<not> CHECK_SUCCESS status
        then Returned (s\<lparr>is_topping_up_dynamic_reservation_node_pool := False\<rparr>, status)
        else if pfn \<ge> ATPA_COVERAGE_PAGES then Undefined
        else let s = s\<lparr>dynamic_reservation_node_slabs := dynamic_reservation_node_slabs s @ [pfn]\<rparr>;
                 s = fold (\<lambda>i s. push_dynamic_reservation_node (DynNode pfn i)
                                   (upd_node (DynNode pfn i) (\<lambda>_. zero_node) s)) [0..<NODES_PER_PAGE] s
             in Returned
                  (s\<lparr>dynamic_reservation_node_total_count :=
                       dynamic_reservation_node_total_count s + NODES_PER_PAGE,
                     is_topping_up_dynamic_reservation_node_pool := False\<rparr>, STATUS_SUCCESS)))"

definition maybe_topup_dynamic_reservation_node_pool :: "vmm \<Rightarrow> vmm outcome" where
  "maybe_topup_dynamic_reservation_node_pool s =
     (if is_topping_up_dynamic_reservation_node_pool s then Returned s
      else if dynamic_reservation_node_free_count s > DYNAMIC_RESERVATION_NODE_LOW_WATERMARK
      then Returned s
      else obind (topup_dynamic_reservation_node_pool s) (\<lambda>(s, _). Returned s))"

definition release_reservation_node :: "node_ptr \<Rightarrow> vmm \<Rightarrow> vmm" where
  "release_reservation_node n s =
     (let s = upd_node n (is_live_update (\<lambda>_. False)) s
      in if is_node_in_dynamic_pool n s then push_dynamic_reservation_node n s else s)"

fun is_node_in_pool :: "node_ptr \<Rightarrow> vmm \<Rightarrow> bool" where
  "is_node_in_pool (EarlyNode k) s = (k < EARLY_RESERVATION_NODE_POOL_COUNT)"
| "is_node_in_pool (DynNode f i) s = is_node_in_dynamic_pool (DynNode f i) s"

definition create_reservation_node :: "vmm \<Rightarrow> (vmm \<times> (StStatus + node_ptr)) outcome" where
  "create_reservation_node s =
     (case find (\<lambda>i. \<not> is_live (nodes s (EarlyNode i))) [0..<early_reservation_node_pool_used_count s] of
        Some i \<Rightarrow> Returned (upd_node (EarlyNode i) (\<lambda>_. zero_node) s, Inr (EarlyNode i))
      | None \<Rightarrow>
          let used = early_reservation_node_pool_used_count s in
          if used < EARLY_RESERVATION_NODE_POOL_COUNT then
            Returned ((upd_node (EarlyNode used) (\<lambda>_. zero_node) s)
                        \<lparr>early_reservation_node_pool_used_count := used + 1\<rparr>, Inr (EarlyNode used))
          else
            obind (maybe_topup_dynamic_reservation_node_pool s) (\<lambda>s.
            obind (if dynamic_reservation_node_free_count s = 0
                   then obind (topup_dynamic_reservation_node_pool s) (\<lambda>(s, _). Returned s)
                   else Returned s) (\<lambda>s.
              case pop_dynamic_reservation_node s of
                (None, s) \<Rightarrow> Returned (s, Inl STATUS_INSUFFICIENT_MEMORY)
              | (Some n, s) \<Rightarrow> Returned (upd_node n (\<lambda>_. zero_node) s, Inr n))))"

section \<open>Ranges and flags\<close>

definition make_limit_exclusive :: "uint64_t \<Rightarrow> uint64_t \<Rightarrow> StStatus + uint64_t" where
  "make_limit_exclusive vpn count =
     (if count = 0 then Inl STATUS_INVALID_VALUE
      else let limit = vpn + count in
      if limit < vpn then Inl STATUS_INVALID_VALUE else Inr limit)"

definition guard_page_count_from_map_flags :: "uint32_t \<Rightarrow> uint64_t" where
  "guard_page_count_from_map_flags map_flags =
     (if flag_set map_flags MF_GUARD then VMM_GUARD_PAGE_COUNT else 0)"

definition validate_guard_map_flags :: "uint32_t \<Rightarrow> bool \<Rightarrow> StStatus" where
  "validate_guard_map_flags map_flags allow_grow_down =
     (if flag_set map_flags MF_GUARD_GROW_DOWN \<and> \<not> flag_set map_flags MF_GUARD
      then STATUS_INVALID_VALUE
      else if flag_set map_flags MF_GUARD_GROW_DOWN \<and> \<not> allow_grow_down then STATUS_INVALID_VALUE
      else if flag_set map_flags MF_GUARD_GROW_DOWN \<and> flag_set map_flags MF_IMMEDIATE
      then STATUS_INVALID_VALUE
      else STATUS_SUCCESS)"

definition make_guarded_count :: "uint64_t \<Rightarrow> uint64_t \<Rightarrow> StStatus + uint64_t" where
  "make_guarded_count count guard_count =
     (if count = 0 then Inl STATUS_INVALID_VALUE
      else if guard_count > 0xFFFFFFFFFFFFFFFF - count then Inl STATUS_TOO_LARGE
      else Inr (count + guard_count))"

definition make_node_range_from_usable ::
  "uint64_t \<Rightarrow> uint64_t \<Rightarrow> uint64_t \<Rightarrow> StStatus + uint64_t \<times> uint64_t \<times> uint64_t" where
  "make_node_range_from_usable usable_vpn count guard_count =
     (case make_guarded_count count guard_count of
        Inl status \<Rightarrow> Inl status
      | Inr total_count \<Rightarrow>
          if guard_count > usable_vpn then Inl STATUS_INVALID_VALUE
          else let base = usable_vpn - guard_count in
          case make_limit_exclusive base total_count of
            Inl status \<Rightarrow> Inl status
          | Inr limit \<Rightarrow> Inr (base, limit, total_count))"

definition make_domain_limit_exclusive :: "uint64_t \<Rightarrow> StStatus + uint64_t" where
  "make_domain_limit_exclusive limit_inclusive =
     (if limit_inclusive = - 1 then Inl STATUS_CONFLICTING_STATE else Inr (limit_inclusive + 1))"

definition node_usable_base_vpn :: "vmm_reservation_node \<Rightarrow> uint64_t" where
  "node_usable_base_vpn nd = base_vpn nd + guard_page_count nd"

definition node_total_page_count :: "vmm_reservation_node \<Rightarrow> uint64_t" where
  "node_total_page_count nd = limit_vpn nd - base_vpn nd"

definition fill_page_info_from_node :: "vmm_reservation_node \<Rightarrow> uint64_t \<Rightarrow> StVmm_PageInfo" where
  "fill_page_info_from_node nd vpn =
     \<lparr>info_owner = node_owner nd, info_alloc_flags = node_alloc_flags nd,
      info_map_flags = node_map_flags nd,
      physical_layout =
        (if flag_set (node_alloc_flags nd) AF_VMM_RESERVATION_SPARSE
         then VMM_PHYSICAL_LAYOUT_SPARSE else VMM_PHYSICAL_LAYOUT_CONTIGUOUS),
      info_mapping_policy =
        (if vpn < node_usable_base_vpn nd
         then make_simple_page_mapping_policy VMM_PAGE_MAPPING_GUARD else mapping_policy nd)\<rparr>"

definition init_reservation_node_metadata ::
  "uint32_t \<Rightarrow> uint32_t \<Rightarrow> StVmm_PageMappingPolicy \<Rightarrow> vmm_reservation_node \<Rightarrow> vmm_reservation_node" where
  "init_reservation_node_metadata alloc_flags map_flags policy nd =
     nd\<lparr>reservation_type :=
          (if flag_set alloc_flags AF_VMM_RESERVATION_MAP then VMM_RESERVATION_MAP
           else VMM_RESERVATION_ALLOC),
        guard_page_count := guard_page_count_from_map_flags map_flags,
        node_alloc_flags := alloc_flags, node_map_flags := map_flags, mapping_policy := policy\<rparr>"

definition local_page_mapping_policy_from_flags :: "uint32_t \<Rightarrow> uint32_t \<Rightarrow> StVmm_PageMappingPolicy" where
  "local_page_mapping_policy_from_flags alloc_flags map_flags =
     (if flag_set alloc_flags AF_VMM_RESERVATION_ON_DEMAND \<and> \<not> flag_set map_flags MF_IMMEDIATE
      then make_simple_page_mapping_policy VMM_PAGE_MAPPING_DEMAND_ZERO
      else make_simple_page_mapping_policy VMM_PAGE_MAPPING_PHYSICAL)"

end
