(* ===== verification/Vmm_List.thy ===== *)
theory Vmm_List
  imports Vmm
begin

text \<open>
  The lists of reservation nodes and the searches over them (\<^verbatim>\<open>strata/mm/vmm.c\<close>).

  A loop that follows \<^verbatim>\<open>domain_next\<close> without writing runs over the nodes that \<open>domain_chain\<close> collects.
  The number of nodes ever handed out bounds the length of a list without a cycle; \<open>OutOfFuel\<close> is
  a list with more.
\<close>

section \<open>Following the links\<close>

fun domain_chain :: "nat \<Rightarrow> vmm \<Rightarrow> node_ptr option \<Rightarrow> node_ptr list outcome" where
  "domain_chain fuel s None = Returned []"
| "domain_chain 0 s (Some n) = OutOfFuel"
| "domain_chain (Suc fuel) s (Some n) =
     obind (domain_chain fuel s (domain_next (nodes s n))) (\<lambda>ns. Returned (n # ns))"

definition node_bound :: "vmm \<Rightarrow> nat" where
  "node_bound s = early_reservation_node_pool_used_count s + dynamic_reservation_node_total_count s + 1"

definition node_chain :: "vmm \<Rightarrow> node_ptr option \<Rightarrow> node_ptr list outcome" where
  "node_chain s head = domain_chain (node_bound s) s head"

section \<open>Validation\<close>

fun validate_loop :: "vmm \<Rightarrow> nat \<Rightarrow> node_ptr option \<Rightarrow> node_ptr option \<Rightarrow> bool" where
  "validate_loop s guard prev None = True"
| "validate_loop s 0 prev (Some cur) = False"
| "validate_loop s (Suc guard) prev (Some cur) =
     (if \<not> is_node_in_pool cur s then False
      else let nd = nodes s cur in
      if \<not> is_live nd then False
      else if domain_prev nd \<noteq> prev then False
      else if limit_vpn nd \<le> base_vpn nd then False
      else if (case prev of None \<Rightarrow> False | Some p \<Rightarrow> base_vpn (nodes s p) \<ge> base_vpn nd) then False
      else if (case domain_next nd of None \<Rightarrow> False | Some m \<Rightarrow> \<not> is_node_in_pool m s) then False
      else validate_loop s guard (Some cur) (domain_next nd))"

text \<open>A failure is logged while the budget lasts.\<close>

definition log_validate_failure :: "vmm \<Rightarrow> vmm" where
  "log_validate_failure s =
     (if validate_fail_log_budget s = 0 then s
      else s\<lparr>validate_fail_log_budget := validate_fail_log_budget s - 1\<rparr>)"

definition validate_domain_list :: "node_ptr option \<Rightarrow> vmm \<Rightarrow> vmm \<times> bool" where
  "validate_domain_list head s =
     (if validate_loop s (node_bound s) None head then (s, True) else (log_validate_failure s, False))"

section \<open>Owner lists\<close>

definition attach_owner_node :: "node_ptr \<Rightarrow> nat option \<Rightarrow> vmm \<Rightarrow> vmm \<times> StStatus" where
  "attach_owner_node n owner s =
     (let s = upd_node n (\<lambda>nd. nd\<lparr>node_owner := None, owner_prev := None, owner_next := None\<rparr>) s in
      case owner of
        None \<Rightarrow> (s, STATUS_SUCCESS)
      | Some ow \<Rightarrow>
          if StAllocationOwner_IsClosed (owners (vm_pmm s) ow) then (s, STATUS_CONFLICTING_STATE)
          else
            let s = set_vm_pmm ((vm_pmm s)\<lparr>owners := (owners (vm_pmm s))
                      (ow := StAllocationOwner_Acquire (owners (vm_pmm s) ow))\<rparr>) s;
                owner_last = last_vmm_reservation s ow;
                s = upd_node n (\<lambda>nd. nd\<lparr>node_owner := Some ow, owner_prev := owner_last\<rparr>) s;
                s = (case owner_last of
                       Some l \<Rightarrow> upd_node l (owner_next_update (\<lambda>_. Some n)) s
                     | None \<Rightarrow> s\<lparr>first_vmm_reservation := (first_vmm_reservation s)(ow := Some n)\<rparr>)
            in (s\<lparr>last_vmm_reservation := (last_vmm_reservation s)(ow := Some n)\<rparr>, STATUS_SUCCESS))"

definition detach_owner_node :: "node_ptr \<Rightarrow> vmm \<Rightarrow> vmm" where
  "detach_owner_node n s =
     (case node_owner (nodes s n) of
        None \<Rightarrow> s
      | Some ow \<Rightarrow>
          let prev = owner_prev (nodes s n); nxt = owner_next (nodes s n);
              s = (case prev of
                     Some p \<Rightarrow> upd_node p (owner_next_update (\<lambda>_. nxt)) s
                   | None \<Rightarrow> s\<lparr>first_vmm_reservation := (first_vmm_reservation s)(ow := nxt)\<rparr>);
              s = (case nxt of
                     Some m \<Rightarrow> upd_node m (owner_prev_update (\<lambda>_. prev)) s
                   | None \<Rightarrow> s\<lparr>last_vmm_reservation := (last_vmm_reservation s)(ow := prev)\<rparr>);
              s = upd_node n (\<lambda>nd. nd\<lparr>node_owner := None, owner_prev := None, owner_next := None\<rparr>) s
          in set_vm_pmm ((vm_pmm s)\<lparr>owners := (owners (vm_pmm s))
               (ow := StAllocationOwner_Release (owners (vm_pmm s) ow))\<rparr>) s)"

section \<open>Domains\<close>

text \<open>The head slot of a list and the figures kept beside it: a global domain or the user part of an
  address space.\<close>

datatype vm_slot = GlobalSlot nat | LocalSlot nat

fun slot_head :: "vm_slot \<Rightarrow> vmm \<Rightarrow> node_ptr option" where
  "slot_head (GlobalSlot d) s = dom_head (reservation_domain_list s d)"
| "slot_head (LocalSlot a) s = user_reservation_head (asps s a)"

fun slot_base :: "vm_slot \<Rightarrow> vmm \<Rightarrow> uint64_t" where
  "slot_base (GlobalSlot d) s = dom_base_vpn (reservation_domain_list s d)"
| "slot_base (LocalSlot a) s = user_base_vpn (asps s a)"

fun slot_limit :: "vm_slot \<Rightarrow> vmm \<Rightarrow> uint64_t" where
  "slot_limit (GlobalSlot d) s = dom_limit_vpn (reservation_domain_list s d)"
| "slot_limit (LocalSlot a) s = user_limit_vpn (asps s a)"

fun slot_free_count :: "vm_slot \<Rightarrow> vmm \<Rightarrow> uint64_t" where
  "slot_free_count (GlobalSlot d) s = dom_free_count (reservation_domain_list s d)"
| "slot_free_count (LocalSlot a) s = user_free_count (asps s a)"

fun set_slot_head :: "vm_slot \<Rightarrow> node_ptr option \<Rightarrow> vmm \<Rightarrow> vmm" where
  "set_slot_head (GlobalSlot d) h s =
     s\<lparr>reservation_domain_list := (reservation_domain_list s)
         (d := (reservation_domain_list s d)\<lparr>dom_head := h\<rparr>)\<rparr>"
| "set_slot_head (LocalSlot a) h s =
     s\<lparr>asps := (asps s)(a := (asps s a)\<lparr>user_reservation_head := h\<rparr>)\<rparr>"

fun set_slot_free_count :: "vm_slot \<Rightarrow> uint64_t \<Rightarrow> vmm \<Rightarrow> vmm" where
  "set_slot_free_count (GlobalSlot d) c s =
     s\<lparr>reservation_domain_list := (reservation_domain_list s)
         (d := (reservation_domain_list s d)\<lparr>dom_free_count := c\<rparr>)\<rparr>"
| "set_slot_free_count (LocalSlot a) c s =
     s\<lparr>asps := (asps s)(a := (asps s a)\<lparr>user_free_count := c\<rparr>)\<rparr>"

text \<open>The place for a new node: the last node below it and the first node that is not.\<close>

fun insert_position ::
  "vmm \<Rightarrow> uint64_t \<Rightarrow> node_ptr option \<Rightarrow> node_ptr list \<Rightarrow> node_ptr option \<times> node_ptr option" where
  "insert_position s vpn prev [] = (prev, None)"
| "insert_position s vpn prev (cur # ns) =
     (if base_vpn (nodes s cur) < vpn then insert_position s vpn (Some cur) ns else (prev, Some cur))"

definition insert_domain_node_sorted :: "vm_slot \<Rightarrow> node_ptr \<Rightarrow> vmm \<Rightarrow> (vmm \<times> StStatus) outcome" where
  "insert_domain_node_sorted slot n s =
     obind (node_chain s (slot_head slot s)) (\<lambda>ns.
       case insert_position s (base_vpn (nodes s n)) None ns of (prev, cur) \<Rightarrow>
       if (case cur of None \<Rightarrow> False | Some c \<Rightarrow> base_vpn (nodes s c) = base_vpn (nodes s n))
       then Returned (s, STATUS_DUPLICATE_ENTRY)
       else
         let s = upd_node n (\<lambda>nd. nd\<lparr>domain_prev := prev, domain_next := cur\<rparr>) s;
             s = (case prev of
                    Some p \<Rightarrow> upd_node p (domain_next_update (\<lambda>_. Some n)) s
                  | None \<Rightarrow> set_slot_head slot (Some n) s);
             s = (case cur of
                    Some c \<Rightarrow> upd_node c (domain_prev_update (\<lambda>_. Some n)) s
                  | None \<Rightarrow> s)
         in Returned (s, STATUS_SUCCESS))"

definition remove_domain_node :: "vm_slot \<Rightarrow> node_ptr \<Rightarrow> vmm \<Rightarrow> vmm" where
  "remove_domain_node slot n s =
     (let prev = domain_prev (nodes s n); nxt = domain_next (nodes s n);
          s = (case prev of
                 Some p \<Rightarrow> upd_node p (domain_next_update (\<lambda>_. nxt)) s
               | None \<Rightarrow> if slot_head slot s = Some n then set_slot_head slot nxt s else s);
          s = (case nxt of
                 Some m \<Rightarrow> upd_node m (domain_prev_update (\<lambda>_. prev)) s
               | None \<Rightarrow> s)
      in upd_node n (\<lambda>nd. nd\<lparr>domain_prev := None, domain_next := None\<rparr>) s)"

section \<open>Searches\<close>

fun overlap_loop :: "vmm \<Rightarrow> uint64_t \<Rightarrow> uint64_t \<Rightarrow> node_ptr list \<Rightarrow> node_ptr option" where
  "overlap_loop s vpn limit [] = None"
| "overlap_loop s vpn limit (n # ns) =
     (if base_vpn (nodes s n) \<ge> limit then None
      else if vpn < limit_vpn (nodes s n) \<and> base_vpn (nodes s n) < limit then Some n
      else overlap_loop s vpn limit ns)"

definition find_overlap ::
  "node_ptr option \<Rightarrow> uint64_t \<Rightarrow> uint64_t \<Rightarrow> vmm \<Rightarrow> node_ptr option outcome" where
  "find_overlap head vpn count s =
     (case make_limit_exclusive vpn count of
        Inl _ \<Rightarrow> Returned None
      | Inr limit \<Rightarrow> obind (node_chain s head) (\<lambda>ns. Returned (overlap_loop s vpn limit ns)))"

fun exact_loop :: "vmm \<Rightarrow> uint64_t \<Rightarrow> uint64_t \<Rightarrow> node_ptr list \<Rightarrow> node_ptr option" where
  "exact_loop s vpn limit [] = None"
| "exact_loop s vpn limit (n # ns) =
     (if base_vpn (nodes s n) = vpn then if limit_vpn (nodes s n) = limit then Some n else None
      else if base_vpn (nodes s n) > vpn then None
      else exact_loop s vpn limit ns)"

definition find_exact ::
  "node_ptr option \<Rightarrow> uint64_t \<Rightarrow> uint64_t \<Rightarrow> vmm \<Rightarrow> node_ptr option outcome" where
  "find_exact head vpn count s =
     (case make_limit_exclusive vpn count of
        Inl _ \<Rightarrow> Returned None
      | Inr limit \<Rightarrow> obind (node_chain s head) (\<lambda>ns. Returned (exact_loop s vpn limit ns)))"

fun exact_releasable_loop :: "vmm \<Rightarrow> uint64_t \<Rightarrow> uint64_t \<Rightarrow> node_ptr list \<Rightarrow> node_ptr option" where
  "exact_releasable_loop s vpn limit [] = None"
| "exact_releasable_loop s vpn limit (n # ns) =
     (let nd = nodes s n; usable_base_vpn = node_usable_base_vpn nd in
      if base_vpn nd = vpn \<and> limit_vpn nd = limit then Some n
      else if usable_base_vpn = vpn \<and> limit_vpn nd = limit then Some n
      else if base_vpn nd > vpn \<and> usable_base_vpn > vpn then None
      else exact_releasable_loop s vpn limit ns)"

definition find_exact_releasable ::
  "node_ptr option \<Rightarrow> uint64_t \<Rightarrow> uint64_t \<Rightarrow> vmm \<Rightarrow> node_ptr option outcome" where
  "find_exact_releasable head vpn count s =
     (case make_limit_exclusive vpn count of
        Inl _ \<Rightarrow> Returned None
      | Inr limit \<Rightarrow> obind (node_chain s head) (\<lambda>ns. Returned (exact_releasable_loop s vpn limit ns)))"

text \<open>The free gaps between the reservations, from below: the result is the lowest page from which
  the request fits.\<close>

fun first_fit_loop ::
  "vmm \<Rightarrow> uint64_t \<Rightarrow> uint64_t \<Rightarrow> uint64_t \<Rightarrow> node_ptr list \<Rightarrow> StStatus + uint64_t" where
  "first_fit_loop s limit count candidate_start [] =
     (if limit > candidate_start \<and> limit - candidate_start \<ge> count then Inr candidate_start
      else Inl STATUS_INSUFFICIENT_MEMORY)"
| "first_fit_loop s limit count candidate_start (cur # ns) =
     (let nd = nodes s cur in
      if limit_vpn nd \<le> candidate_start then first_fit_loop s limit count candidate_start ns
      else if base_vpn nd > candidate_start \<and> base_vpn nd - candidate_start \<ge> count
      then Inr candidate_start
      else let candidate_start =
                 (if limit_vpn nd > candidate_start then limit_vpn nd else candidate_start)
           in if candidate_start \<ge> limit then Inl STATUS_INSUFFICIENT_MEMORY
              else first_fit_loop s limit count candidate_start ns)"

definition find_first_fit_from ::
  "node_ptr option \<Rightarrow> uint64_t \<Rightarrow> uint64_t \<Rightarrow> uint64_t \<Rightarrow> uint64_t \<Rightarrow> vmm \<Rightarrow> (StStatus + uint64_t) outcome" where
  "find_first_fit_from head domain_base domain_limit count search_start s =
     (if count = 0 then Returned (Inl STATUS_INVALID_VALUE)
      else case make_domain_limit_exclusive domain_limit of
        Inl status \<Rightarrow> Returned (Inl status)
      | Inr limit \<Rightarrow>
          let candidate_start = (if search_start > domain_base then search_start else domain_base) in
          if candidate_start \<ge> limit then Returned (Inl STATUS_INSUFFICIENT_MEMORY)
          else obind (node_chain s head) (\<lambda>ns. Returned (first_fit_loop s limit count candidate_start ns)))"

text \<open>The same from above; \<open>best\<close> is the highest fitting place found so far.\<close>

definition last_fit_gap :: "uint64_t \<Rightarrow> uint64_t \<Rightarrow> uint64_t \<Rightarrow> uint64_t option \<Rightarrow> uint64_t option" where
  "last_fit_gap count gap_start gap_end best =
     (if gap_end > gap_start \<and> gap_end - gap_start \<ge> count then Some (gap_end - count) else best)"

fun last_fit_loop ::
  "vmm \<Rightarrow> uint64_t \<Rightarrow> uint64_t \<Rightarrow> uint64_t \<Rightarrow> uint64_t option \<Rightarrow> node_ptr list \<Rightarrow> uint64_t option" where
  "last_fit_loop s limit count gap_start best [] = last_fit_gap count gap_start limit best"
| "last_fit_loop s limit count gap_start best (cur # ns) =
     (let nd = nodes s cur in
      if base_vpn nd \<ge> limit then last_fit_gap count gap_start limit best
      else if limit_vpn nd \<le> gap_start then last_fit_loop s limit count gap_start best ns
      else let gap_end = (if base_vpn nd > limit then limit else base_vpn nd);
               best = last_fit_gap count gap_start gap_end best;
               gap_start = (if limit_vpn nd > gap_start then limit_vpn nd else gap_start)
           in if gap_start \<ge> limit then last_fit_gap count gap_start limit best
              else last_fit_loop s limit count gap_start best ns)"

definition find_last_fit_before ::
  "node_ptr option \<Rightarrow> uint64_t \<Rightarrow> uint64_t \<Rightarrow> uint64_t \<Rightarrow> uint64_t \<Rightarrow> vmm \<Rightarrow> (StStatus + uint64_t) outcome" where
  "find_last_fit_before head domain_base domain_limit count search_limit s =
     (if count = 0 then Returned (Inl STATUS_INVALID_VALUE)
      else case make_domain_limit_exclusive domain_limit of
        Inl status \<Rightarrow> Returned (Inl status)
      | Inr limit \<Rightarrow>
          let candidate_limit = (if search_limit > limit then limit else search_limit) in
          if candidate_limit \<le> domain_base then Returned (Inl STATUS_INSUFFICIENT_MEMORY)
          else obind (node_chain s head) (\<lambda>ns.
            Returned (case last_fit_loop s candidate_limit count domain_base None ns of
                        None \<Rightarrow> Inl STATUS_INSUFFICIENT_MEMORY
                      | Some vpn \<Rightarrow> Inr vpn)))"

text \<open>Is every page of the range without a translation?\<close>

fun slot_page_status :: "vm_slot \<Rightarrow> uint64_t \<Rightarrow> vmm \<Rightarrow> StStatus + nat" where
  "slot_page_status (GlobalSlot d) vpn s = StMmP_GlobalVirtPageToPhysFrame vpn (vm_mmu s)"
| "slot_page_status (LocalSlot a) vpn s = StMmP_LocalVirtPageToPhysFrame a vpn (vm_mmu s)"

fun is_range_unmapped :: "vm_slot \<Rightarrow> uint64_t \<Rightarrow> nat \<Rightarrow> vmm \<Rightarrow> bool" where
  "is_range_unmapped slot vpn 0 s = True"
| "is_range_unmapped slot vpn (Suc n) s =
     (slot_page_status slot vpn s = Inl STATUS_PAGE_NOT_PRESENT \<and> is_range_unmapped slot (vpn + 1) n s)"

section \<open>Bounds of the searches\<close>

lemma first_fit_loop_bounds:
  "first_fit_loop s limit count c ns = Inr r \<Longrightarrow> c < limit \<Longrightarrow> c \<le> r \<and> r < limit"
proof (induction ns arbitrary: c)
  case (Cons n ns)
  let ?l = "limit_vpn (nodes s n)"
  let ?b = "base_vpn (nodes s n)"
  show ?case
  proof (cases "?l \<le> c")
    case True
    then show ?thesis using Cons by (simp add: Let_def)
  next
    case l: False
    show ?thesis
    proof (cases "?b > c \<and> ?b - c \<ge> count")
      case True
      then show ?thesis using Cons.prems l by (simp add: Let_def)
    next
      case False
      with l Cons.prems(1) have "\<not> limit \<le> ?l" "first_fit_loop s limit count ?l ns = Inr r"
        by (simp_all add: Let_def not_le [symmetric] split: if_split_asm)
      then show ?thesis using Cons.IH [of ?l] l by (meson le_cases not_le order.trans)
    qed
  qed
qed (auto split: if_splits)

lemma word_less_inc: "r < l + 1 \<Longrightarrow> l \<noteq> - 1 \<Longrightarrow> r \<le> (l :: uint64_t)"
  by (simp add: word_less_nat_alt word_le_nat_alt unat_inc)

lemma find_first_fit_bounds:
  assumes "find_first_fit_from head b l count start s = Returned (Inr r)"
  shows "start \<le> r" "b \<le> r" "r \<le> l"
proof -
  obtain limit ns where l: "l \<noteq> - 1" "limit = l + 1"
    and f: "first_fit_loop s limit count (if start > b then start else b) ns = Inr r"
    and c: "(if start > b then start else b) < limit"
    using assms by (auto simp: find_first_fit_from_def make_domain_limit_exclusive_def Let_def not_le split: if_splits)
  have "(if start > b then start else b) \<le> r" "r < limit" using first_fit_loop_bounds [OF f c] by auto
  then show "start \<le> r" "b \<le> r" by (auto split: if_splits)
  show "r \<le> l" using \<open>r < limit\<close> l by (simp add: word_less_inc)
qed

lemma last_fit_gap_less:
  assumes "last_fit_gap count gap_start gap_end best = Some r" "count \<noteq> 0"
  shows "best = Some r \<or> r < gap_end"
proof (cases "gap_end > gap_start \<and> gap_end - gap_start \<ge> count")
  case True
  then have "unat (gap_end - gap_start) = unat gap_end - unat gap_start" by (intro unat_sub) auto
  with True have "unat count \<le> unat gap_end - unat gap_start" "unat gap_start < unat gap_end"
    by (auto simp: word_less_nat_alt word_le_nat_alt)
  moreover have "0 < unat count" using assms(2) by (simp add: unat_gt_0)
  ultimately have "gap_end - count < gap_end" by (simp add: word_less_nat_alt word_le_nat_alt unat_sub)
  then show ?thesis using assms(1) True by (simp add: last_fit_gap_def)
qed (use assms(1) in \<open>auto simp: last_fit_gap_def split: if_splits\<close>)

lemma last_fit_loop_less:
  assumes "last_fit_loop s limit count g best ns = Some r" "count \<noteq> 0" "\<And>b. best = Some b \<Longrightarrow> b < limit"
  shows "r < limit"
  using assms
proof (induction ns arbitrary: g best)
  case Nil
  then show ?case using last_fit_gap_less by fastforce
next
  case (Cons n ns)
  let ?nd = "nodes s n"
  let ?best = "last_fit_gap count g (if base_vpn ?nd > limit then limit else base_vpn ?nd) best"
  consider (stop) "last_fit_gap count g limit best = Some r"
    | (skip) "last_fit_loop s limit count g best ns = Some r"
    | (last) g' where "base_vpn ?nd < limit" "last_fit_gap count g' limit ?best = Some r"
    | (later) g' where "base_vpn ?nd < limit" "last_fit_loop s limit count g' ?best ns = Some r"
    using Cons.prems(1) by (auto simp: Let_def not_le split: if_splits)
  then show ?case
  proof cases
    case stop
    then show ?thesis using last_fit_gap_less Cons.prems(2,3) by blast
  next
    case skip
    then show ?thesis using Cons by blast
  next
    case last
    have "b < limit" if "?best = Some b" for b
      using last_fit_gap_less [OF that Cons.prems(2)] Cons.prems(3) last(1) by (auto split: if_splits)
    then show ?thesis using last_fit_gap_less [OF last(2) Cons.prems(2)] by blast
  next
    case later
    have "b < limit" if "?best = Some b" for b
      using last_fit_gap_less [OF that Cons.prems(2)] Cons.prems(3) later(1) by (auto split: if_splits)
    then show ?thesis using Cons.IH [OF later(2) Cons.prems(2)] by blast
  qed
qed

lemma find_last_fit_less:
  assumes "find_last_fit_before head b l count search_limit s = Returned (Inr r)"
  shows "r < search_limit"
proof -
  obtain limit ns where c: "count \<noteq> 0"
    and f: "last_fit_loop s (if search_limit > limit then limit else search_limit) count b None ns = Some r"
    using assms
    by (auto simp: find_last_fit_before_def Let_def split: if_split_asm sum.split_asm option.split_asm) (metis order.asym)+
  show ?thesis using last_fit_loop_less [OF f c] by (auto split: if_splits)
qed

end
