(* ===== verification/Vmm_Api.thy ===== *)
theory Vmm_Api
  imports Vmm_List
begin

text \<open>
  The operations of the virtual memory manager (\<^verbatim>\<open>strata/mm/vmm.c\<close>): domains, reservations at
  a chosen or a given place, release, queries, and the growth of a guarded stack.

  The functions for global domains and for address spaces share the parts below that take a
  slot; each keeps its own checks. An address-space argument is \<open>None\<close> for NULL. A function with an
  output parameter gives the error status or the output. Log messages are left out.
\<close>

section \<open>Domains\<close>

definition StVmm_InitGlobalDomain :: "nat \<Rightarrow> uint64_t \<Rightarrow> uint64_t \<Rightarrow> vmm \<Rightarrow> vmm \<times> StStatus" where
  "StVmm_InitGlobalDomain domain base limit s =
     (if domain \<ge> VMM_DOMAIN_MAX then (s, STATUS_INVALID_VALUE)
      else if limit < base then (s, STATUS_INVALID_VALUE)
      else (s\<lparr>reservation_domain_list := (reservation_domain_list s)(domain :=
                \<lparr>dom_head = None, dom_base_vpn = base, dom_limit_vpn = limit,
                 dom_free_count = limit - base + 1, dom_initialized = True\<rparr>)\<rparr>, STATUS_SUCCESS))"

definition StVmm_InitLocalDomain :: "nat option \<Rightarrow> uint64_t \<Rightarrow> uint64_t \<Rightarrow> vmm \<Rightarrow> vmm \<times> StStatus" where
  "StVmm_InitLocalDomain asp base limit s =
     (case asp of
        None \<Rightarrow> (s, STATUS_INVALID_VALUE)
      | Some a \<Rightarrow>
          if limit < base then (s, STATUS_INVALID_VALUE)
          else (s\<lparr>asps := (asps s)(a := (asps s a)
                    \<lparr>user_reservation_head := None, user_base_vpn := base, user_limit_vpn := limit,
                     user_free_count := limit - base + 1\<rparr>)\<rparr>, STATUS_SUCCESS))"

fun remove_nodes :: "vm_slot \<Rightarrow> node_ptr list \<Rightarrow> vmm \<Rightarrow> vmm" where
  "remove_nodes slot [] s = s"
| "remove_nodes slot (n # ns) s =
     remove_nodes slot ns
       (upd_node n (node_asp_update (\<lambda>_. None))
         (release_reservation_node n (detach_owner_node n (remove_domain_node slot n s))))"

definition StVmm_RemoveLocalDomain :: "nat \<Rightarrow> vmm \<Rightarrow> (vmm \<times> unit) outcome" where
  "StVmm_RemoveLocalDomain asp =
     with_irq_locked (\<lambda>s.
       obind (node_chain s (slot_head (LocalSlot asp) s)) (\<lambda>ns.
         let s = remove_nodes (LocalSlot asp) ns s in
         Returned (s\<lparr>asps := (asps s)(asp := (asps s asp)
           \<lparr>user_reservation_head := None,
            user_free_count := user_limit_vpn (asps s asp) - user_base_vpn (asps s asp) + 1\<rparr>)\<rparr>, ())))"

definition StVmm_GetTotalGlobalPageCount :: "nat \<Rightarrow> vmm \<Rightarrow> StStatus + uint64_t" where
  "StVmm_GetTotalGlobalPageCount domain s =
     (if domain \<ge> VMM_DOMAIN_MAX then Inl STATUS_INVALID_VALUE
      else let d = reservation_domain_list s domain in
      if \<not> dom_initialized d then Inl STATUS_INVALID_VALUE
      else Inr (dom_limit_vpn d - dom_base_vpn d + 1))"

definition StVmm_GetFreeGlobalPageCount :: "nat \<Rightarrow> vmm \<Rightarrow> StStatus + uint64_t" where
  "StVmm_GetFreeGlobalPageCount domain s =
     (if domain \<ge> VMM_DOMAIN_MAX then Inl STATUS_INVALID_VALUE
      else let d = reservation_domain_list s domain in
      if \<not> dom_initialized d then Inl STATUS_INVALID_VALUE else Inr (dom_free_count d))"

definition StVmm_GetTotalLocalPageCount :: "nat option \<Rightarrow> vmm \<Rightarrow> StStatus + uint64_t" where
  "StVmm_GetTotalLocalPageCount asp s =
     (case asp of
        None \<Rightarrow> Inl STATUS_INVALID_VALUE
      | Some a \<Rightarrow> Inr (user_limit_vpn (asps s a) - user_base_vpn (asps s a) + 1))"

definition StVmm_GetFreeLocalPageCount :: "nat option \<Rightarrow> vmm \<Rightarrow> StStatus + uint64_t" where
  "StVmm_GetFreeLocalPageCount asp s =
     (case asp of None \<Rightarrow> Inl STATUS_INVALID_VALUE | Some a \<Rightarrow> Inr (user_free_count (asps s a)))"

section \<open>Reservation\<close>

lemma inc_measure:
  assumes "(start :: uint64_t) \<le> r" "r < l"
  shows "2 ^ 64 - unat (r + 1) < (2 ^ 64 - unat start :: nat)"
proof -
  have "r \<noteq> - 1" using assms(2) word_order.extremum_strict by blast
  then have "unat (r + 1) = Suc (unat r)" by (rule unat_inc)
  moreover have "unat start \<le> unat r" using assms(1) by (simp add: word_le_nat_alt)
  moreover have "unat (r + 1) < 2 ^ 64" using unsigned_less [of "r + 1"] by simp
  ultimately show ?thesis by simp
qed

text \<open>The search loop: a candidate some page of which is mapped is passed over.\<close>

function search_candidate ::
  "vm_slot \<Rightarrow> bool \<Rightarrow> uint64_t \<Rightarrow> uint64_t \<Rightarrow> uint64_t \<Rightarrow> vmm \<Rightarrow> (StStatus + uint64_t) outcome" where
  "search_candidate slot topdown total_count search_start search_limit s =
     obind
       (if topdown
        then find_last_fit_before (slot_head slot s) (slot_base slot s) (slot_limit slot s) total_count
               search_limit s
        else find_first_fit_from (slot_head slot s) (slot_base slot s) (slot_limit slot s) total_count
               search_start s)
       (\<lambda>r. case r of
          Inl status \<Rightarrow> Returned (Inl status)
        | Inr candidate_start \<Rightarrow>
            if is_range_unmapped slot candidate_start (unat total_count) s
            then Returned (Inr candidate_start)
            else if topdown then
              if candidate_start \<le> slot_base slot s then Returned (Inl STATUS_INSUFFICIENT_MEMORY)
              else search_candidate slot topdown total_count search_start candidate_start s
            else if candidate_start \<ge> slot_limit slot s then Returned (Inl STATUS_INSUFFICIENT_MEMORY)
            else search_candidate slot topdown total_count (candidate_start + 1) search_limit s)"
  by pat_completeness auto

termination
proof (relation "measure (\<lambda>(slot, topdown, total_count, search_start, search_limit, s).
    unat search_limit + (2 ^ 64 - unat search_start))", goal_cases)
  case (2 slot topdown total_count search_start search_limit s x candidate_start)
  then show ?case using find_last_fit_less by (auto simp: word_less_nat_alt)
next
  case (3 slot topdown total_count search_start search_limit s x candidate_start)
  then show ?case using find_first_fit_bounds(1) inc_measure [of search_start candidate_start "slot_limit slot s"]
    by (auto simp: not_le)
qed simp

declare search_candidate.simps [simp del]

primrec slot_asp :: "vm_slot \<Rightarrow> nat option" where
  "slot_asp (GlobalSlot d) = None"
| "slot_asp (LocalSlot a) = Some a"

primrec slot_domain :: "vm_slot \<Rightarrow> nat" where
  "slot_domain (GlobalSlot d) = d"
| "slot_domain (LocalSlot a) = VMM_DOMAIN_MAX"

text \<open>The making of a node for the range and its entry into the lists; the result is the node.\<close>

definition place_node ::
  "vm_slot \<Rightarrow> uint64_t \<Rightarrow> uint64_t \<Rightarrow> uint64_t \<Rightarrow> nat option \<Rightarrow> uint32_t \<Rightarrow> uint32_t
     \<Rightarrow> StVmm_PageMappingPolicy \<Rightarrow> vmm \<Rightarrow> (vmm \<times> (StStatus + node_ptr)) outcome" where
  "place_node slot base limit total_count owner alloc_flags map_flags policy s =
     obind (create_reservation_node s) (\<lambda>(s, r).
       case r of
         Inl status \<Rightarrow> Returned (s, Inl status)
       | Inr n \<Rightarrow>
           let s = upd_node n (\<lambda>nd.
                 (init_reservation_node_metadata alloc_flags map_flags policy
                   (nd\<lparr>base_vpn := base, limit_vpn := limit, node_asp := slot_asp slot,
                       node_domain := slot_domain slot\<rparr>))\<lparr>is_live := True\<rparr>) s
           in case attach_owner_node n owner s of (s, status) \<Rightarrow>
           if \<not> CHECK_SUCCESS status then Returned (release_reservation_node n s, Inl status)
           else obind (insert_domain_node_sorted slot n s) (\<lambda>(s, status).
             if \<not> CHECK_SUCCESS status
             then Returned (release_reservation_node n (detach_owner_node n s), Inl status)
             else Returned (set_slot_free_count slot (slot_free_count slot s - total_count) s, Inr n)))"

definition reserve_anywhere ::
  "vm_slot \<Rightarrow> uint64_t \<Rightarrow> uint64_t \<Rightarrow> nat option \<Rightarrow> uint32_t \<Rightarrow> uint32_t
     \<Rightarrow> StVmm_PageMappingPolicy \<Rightarrow> vmm \<Rightarrow> (vmm \<times> (StStatus + uint64_t)) outcome" where
  "reserve_anywhere slot total_count search_limit owner alloc_flags map_flags policy s =
     (if slot_free_count slot s < total_count then Returned (s, Inl STATUS_INSUFFICIENT_MEMORY)
      else case validate_domain_list (slot_head slot s) s of (s, valid) \<Rightarrow>
      if \<not> valid then Returned (s, Inl STATUS_SYSTEM_CORRUPTED)
      else obind (search_candidate slot (flag_set alloc_flags AF_VMM_ALLOC_TOPDOWN) total_count
                    (slot_base slot s) search_limit s) (\<lambda>r.
        case r of
          Inl status \<Rightarrow> Returned (s, Inl status)
        | Inr candidate_start \<Rightarrow>
            obind (place_node slot candidate_start (candidate_start + total_count) total_count owner
                     alloc_flags map_flags policy s) (\<lambda>(s, r).
              case r of
                Inl status \<Rightarrow> Returned (s, Inl status)
              | Inr n \<Rightarrow> Returned (s, Inr (node_usable_base_vpn (nodes s n))))))"

definition StVmm_ReserveGlobalPage ::
  "nat \<Rightarrow> uint64_t \<Rightarrow> nat option \<Rightarrow> uint32_t \<Rightarrow> uint32_t \<Rightarrow> vmm
     \<Rightarrow> (vmm \<times> (StStatus + uint64_t)) outcome" where
  "StVmm_ReserveGlobalPage domain count owner alloc_flags map_flags s =
     (if domain \<ge> VMM_DOMAIN_MAX then Returned (s, Inl STATUS_INVALID_VALUE)
      else let status = validate_guard_map_flags map_flags False in
      if \<not> CHECK_SUCCESS status then Returned (s, Inl status)
      else case make_guarded_count count (guard_page_count_from_map_flags map_flags) of
        Inl status \<Rightarrow> Returned (s, Inl status)
      | Inr total_count \<Rightarrow>
          if \<not> dom_initialized (reservation_domain_list s domain)
          then Returned (s, Inl STATUS_CONFLICTING_STATE)
          else case make_domain_limit_exclusive (dom_limit_vpn (reservation_domain_list s domain)) of
            Inl status \<Rightarrow> Returned (s, Inl status)
          | Inr search_limit \<Rightarrow>
              with_irq_locked (reserve_anywhere (GlobalSlot domain) total_count search_limit owner
                alloc_flags map_flags (make_simple_page_mapping_policy VMM_PAGE_MAPPING_PHYSICAL)) s)"

definition StVmm_ReserveLocalPage ::
  "nat option \<Rightarrow> uint64_t \<Rightarrow> uint32_t \<Rightarrow> uint32_t \<Rightarrow> vmm \<Rightarrow> (vmm \<times> (StStatus + uint64_t)) outcome" where
  "StVmm_ReserveLocalPage asp count alloc_flags map_flags s =
     (case asp of
        None \<Rightarrow> Returned (s, Inl STATUS_INVALID_VALUE)
      | Some a \<Rightarrow>
          let status = validate_guard_map_flags map_flags True in
          if \<not> CHECK_SUCCESS status then Returned (s, Inl status)
          else case make_guarded_count count (guard_page_count_from_map_flags map_flags) of
            Inl status \<Rightarrow> Returned (s, Inl status)
          | Inr total_count \<Rightarrow>
              case make_domain_limit_exclusive (user_limit_vpn (asps s a)) of
                Inl status \<Rightarrow> Returned (s, Inl status)
              | Inr search_limit \<Rightarrow>
                  with_irq_locked (reserve_anywhere (LocalSlot a) total_count search_limit
                    (alloc_owner (asps s a)) alloc_flags map_flags
                    (local_page_mapping_policy_from_flags alloc_flags map_flags)) s)"

definition reserve_at ::
  "vm_slot \<Rightarrow> uint64_t \<Rightarrow> uint64_t \<Rightarrow> uint64_t \<Rightarrow> nat option \<Rightarrow> uint32_t \<Rightarrow> uint32_t
     \<Rightarrow> StVmm_PageMappingPolicy \<Rightarrow> vmm \<Rightarrow> (vmm \<times> StStatus) outcome" where
  "reserve_at slot base limit total_count owner alloc_flags map_flags policy s =
     (if slot_free_count slot s < total_count then Returned (s, STATUS_INSUFFICIENT_MEMORY)
      else case validate_domain_list (slot_head slot s) s of (s, valid) \<Rightarrow>
      if \<not> valid then Returned (s, STATUS_SYSTEM_CORRUPTED)
      else obind (find_overlap (slot_head slot s) base total_count s) (\<lambda>overlap.
        if overlap \<noteq> None then Returned (s, STATUS_CONFLICTING_STATE)
        else if \<not> is_range_unmapped slot base (unat total_count) s
        then Returned (s, STATUS_CONFLICTING_STATE)
        else obind (place_node slot base limit total_count owner alloc_flags map_flags policy s)
          (\<lambda>(s, r). case r of Inl status \<Rightarrow> Returned (s, status) | Inr n \<Rightarrow> Returned (s, STATUS_SUCCESS))))"

definition StVmm_ReserveGlobalPageTo ::
  "nat \<Rightarrow> uint64_t \<Rightarrow> uint64_t \<Rightarrow> nat option \<Rightarrow> uint32_t \<Rightarrow> uint32_t \<Rightarrow> vmm \<Rightarrow> (vmm \<times> StStatus) outcome" where
  "StVmm_ReserveGlobalPageTo domain vpn count owner alloc_flags map_flags s =
     (if domain \<ge> VMM_DOMAIN_MAX then Returned (s, STATUS_INVALID_VALUE)
      else let status = validate_guard_map_flags map_flags False in
      if \<not> CHECK_SUCCESS status then Returned (s, status)
      else case make_node_range_from_usable vpn count (guard_page_count_from_map_flags map_flags) of
        Inl status \<Rightarrow> Returned (s, status)
      | Inr (base, limit, total_count) \<Rightarrow>
          let ad = reservation_domain_list s domain in
          if \<not> dom_initialized ad then Returned (s, STATUS_CONFLICTING_STATE)
          else if base < dom_base_vpn ad \<or> limit - 1 > dom_limit_vpn ad
          then Returned (s, STATUS_INVALID_VALUE)
          else with_irq_locked (reserve_at (GlobalSlot domain) base limit total_count owner
                 alloc_flags map_flags (make_simple_page_mapping_policy VMM_PAGE_MAPPING_PHYSICAL)) s)"

definition reserve_local_page_to_with_policy ::
  "nat option \<Rightarrow> uint64_t \<Rightarrow> uint64_t \<Rightarrow> uint32_t \<Rightarrow> uint32_t \<Rightarrow> StVmm_PageMappingPolicy \<Rightarrow> vmm
     \<Rightarrow> (vmm \<times> StStatus) outcome" where
  "reserve_local_page_to_with_policy asp vpn count alloc_flags map_flags policy s =
     (case asp of
        None \<Rightarrow> Returned (s, STATUS_INVALID_VALUE)
      | Some a \<Rightarrow>
          let status = validate_guard_map_flags map_flags True in
          if \<not> CHECK_SUCCESS status then Returned (s, status)
          else case make_node_range_from_usable vpn count (guard_page_count_from_map_flags map_flags) of
            Inl status \<Rightarrow> Returned (s, status)
          | Inr (base, limit, total_count) \<Rightarrow>
              if base < user_base_vpn (asps s a) \<or> limit - 1 > user_limit_vpn (asps s a)
              then Returned (s, STATUS_INVALID_VALUE)
              else with_irq_locked (reserve_at (LocalSlot a) base limit total_count
                     (alloc_owner (asps s a)) alloc_flags map_flags policy) s)"

definition StVmm_ReserveLocalPageTo ::
  "nat option \<Rightarrow> uint64_t \<Rightarrow> uint64_t \<Rightarrow> uint32_t \<Rightarrow> uint32_t \<Rightarrow> vmm \<Rightarrow> (vmm \<times> StStatus) outcome" where
  "StVmm_ReserveLocalPageTo asp vpn count alloc_flags map_flags =
     reserve_local_page_to_with_policy asp vpn count alloc_flags map_flags
       (local_page_mapping_policy_from_flags alloc_flags map_flags)"

definition StVmm_ReserveLocalImagePageTo ::
  "nat option \<Rightarrow> uint64_t \<Rightarrow> uint64_t \<Rightarrow> StMm_ImageBacking \<Rightarrow> uint32_t \<Rightarrow> uint32_t \<Rightarrow> vmm
     \<Rightarrow> (vmm \<times> StStatus) outcome" where
  "StVmm_ReserveLocalImagePageTo asp vpn count image_backing alloc_flags map_flags s =
     (if flag_set map_flags MF_GUARD_GROW_DOWN then Returned (s, STATUS_INVALID_VALUE)
      else if flag_set map_flags MF_IMMEDIATE then Returned (s, STATUS_INVALID_VALUE)
      else reserve_local_page_to_with_policy asp vpn count alloc_flags map_flags
             \<lparr>policy_type = VMM_PAGE_MAPPING_IMAGE, policy_image = image_backing\<rparr> s)"

section \<open>Release\<close>

definition release_in :: "vm_slot \<Rightarrow> uint64_t \<Rightarrow> uint64_t \<Rightarrow> vmm \<Rightarrow> (vmm \<times> unit) outcome" where
  "release_in slot vpn count s =
     (case validate_domain_list (slot_head slot s) s of (s, valid) \<Rightarrow>
      if \<not> valid then Returned (s, ())
      else obind (find_exact_releasable (slot_head slot s) vpn count s) (\<lambda>r.
        case r of
          None \<Rightarrow> Returned (s, ())
        | Some n \<Rightarrow>
            let total_count = node_total_page_count (nodes s n);
                s = release_reservation_node n (detach_owner_node n (remove_domain_node slot n s))
            in Returned (set_slot_free_count slot (slot_free_count slot s + total_count) s, ())))"

definition StVmm_ReleaseGlobalPage :: "nat \<Rightarrow> uint64_t \<Rightarrow> uint64_t \<Rightarrow> vmm \<Rightarrow> vmm outcome" where
  "StVmm_ReleaseGlobalPage domain vpn count s =
     (if domain \<ge> VMM_DOMAIN_MAX then Returned s
      else if count = 0 then Returned s
      else if \<not> dom_initialized (reservation_domain_list s domain) then Returned s
      else obind (with_irq_locked (release_in (GlobalSlot domain) vpn count) s) (\<lambda>(s, _). Returned s))"

definition StVmm_ReleaseLocalPage :: "nat option \<Rightarrow> uint64_t \<Rightarrow> uint64_t \<Rightarrow> vmm \<Rightarrow> vmm outcome" where
  "StVmm_ReleaseLocalPage asp vpn count s =
     (case asp of
        None \<Rightarrow> Returned s
      | Some a \<Rightarrow>
          if count = 0 then Returned s
          else case make_limit_exclusive vpn count of
            Inl _ \<Rightarrow> Returned s
          | Inr limit \<Rightarrow>
              if vpn < user_base_vpn (asps s a) \<or> limit - 1 > user_limit_vpn (asps s a) then Returned s
              else obind (with_irq_locked (release_in (LocalSlot a) vpn count) s) (\<lambda>(s, _). Returned s))"

section \<open>Queries\<close>

text \<open>The node that covers a page.\<close>

definition covering_node :: "vm_slot \<Rightarrow> uint64_t \<Rightarrow> vmm \<Rightarrow> (vmm \<times> (StStatus + node_ptr)) outcome" where
  "covering_node slot vpn s =
     (case validate_domain_list (slot_head slot s) s of (s, valid) \<Rightarrow>
      if \<not> valid then Returned (s, Inl STATUS_SYSTEM_CORRUPTED)
      else obind (find_overlap (slot_head slot s) vpn 1 s) (\<lambda>r.
        case r of None \<Rightarrow> Returned (s, Inl STATUS_NOT_ALLOCATED) | Some n \<Rightarrow> Returned (s, Inr n)))"

definition reserved_range :: "vm_slot \<Rightarrow> uint64_t \<Rightarrow> vmm \<Rightarrow> (vmm \<times> (StStatus + uint64_t \<times> uint64_t)) outcome" where
  "reserved_range slot vpn s =
     obind (covering_node slot vpn s) (\<lambda>(s, r).
       Returned (s, map_sum id (\<lambda>n. (base_vpn (nodes s n), limit_vpn (nodes s n))) r))"

definition page_info :: "vm_slot \<Rightarrow> uint64_t \<Rightarrow> vmm \<Rightarrow> (vmm \<times> (StStatus + StVmm_PageInfo)) outcome" where
  "page_info slot vpn s =
     obind (covering_node slot vpn s) (\<lambda>(s, r).
       Returned (s, map_sum id (\<lambda>n. fill_page_info_from_node (nodes s n) vpn) r))"

definition StVmm_GetGlobalReservedRange ::
  "nat \<Rightarrow> uint64_t \<Rightarrow> vmm \<Rightarrow> (vmm \<times> (StStatus + uint64_t \<times> uint64_t)) outcome" where
  "StVmm_GetGlobalReservedRange domain vpn s =
     (if domain \<ge> VMM_DOMAIN_MAX then Returned (s, Inl STATUS_INVALID_VALUE)
      else let ad = reservation_domain_list s domain in
      if \<not> dom_initialized ad then Returned (s, Inl STATUS_CONFLICTING_STATE)
      else if vpn < dom_base_vpn ad \<or> vpn > dom_limit_vpn ad then Returned (s, Inl STATUS_INVALID_VALUE)
      else with_irq_locked (reserved_range (GlobalSlot domain) vpn) s)"

definition StVmm_GetLocalReservedRange ::
  "nat option \<Rightarrow> uint64_t \<Rightarrow> vmm \<Rightarrow> (vmm \<times> (StStatus + uint64_t \<times> uint64_t)) outcome" where
  "StVmm_GetLocalReservedRange asp vpn s =
     (case asp of
        None \<Rightarrow> Returned (s, Inl STATUS_INVALID_VALUE)
      | Some a \<Rightarrow>
          if vpn < user_base_vpn (asps s a) \<or> vpn > user_limit_vpn (asps s a)
          then Returned (s, Inl STATUS_INVALID_VALUE)
          else with_irq_locked (reserved_range (LocalSlot a) vpn) s)"

definition StVmm_GetGlobalPageInfo ::
  "nat \<Rightarrow> uint64_t \<Rightarrow> vmm \<Rightarrow> (vmm \<times> (StStatus + StVmm_PageInfo)) outcome" where
  "StVmm_GetGlobalPageInfo domain vpn s =
     (if domain \<ge> VMM_DOMAIN_MAX then Returned (s, Inl STATUS_INVALID_VALUE)
      else let ad = reservation_domain_list s domain in
      if \<not> dom_initialized ad then Returned (s, Inl STATUS_CONFLICTING_STATE)
      else if vpn < dom_base_vpn ad \<or> vpn > dom_limit_vpn ad then Returned (s, Inl STATUS_INVALID_VALUE)
      else with_irq_locked (page_info (GlobalSlot domain) vpn) s)"

definition StVmm_GetLocalPageInfo ::
  "nat option \<Rightarrow> uint64_t \<Rightarrow> vmm \<Rightarrow> (vmm \<times> (StStatus + StVmm_PageInfo)) outcome" where
  "StVmm_GetLocalPageInfo asp vpn s =
     (case asp of
        None \<Rightarrow> Returned (s, Inl STATUS_INVALID_VALUE)
      | Some a \<Rightarrow>
          if vpn < user_base_vpn (asps s a) \<or> vpn > user_limit_vpn (asps s a)
          then Returned (s, Inl STATUS_INVALID_VALUE)
          else with_irq_locked (page_info (LocalSlot a) vpn) s)"

section \<open>Changing reservations\<close>

lemma overlap_loop_Some:
  "overlap_loop s vpn limit ns = Some n \<Longrightarrow> n \<in> set ns \<and> vpn < limit_vpn (nodes s n) \<and> base_vpn (nodes s n) < limit"
  by (induction ns) (auto split: if_split_asm)

lemma find_overlap_Some:
  assumes "find_overlap head vpn count s = Returned (Some n)"
  shows "vpn < limit_vpn (nodes s n)"
  using assms by (auto simp: find_overlap_def split: sum.split_asm dest: overlap_loop_Some)

text \<open>The loop over the reservations of a range; a failure leaves the flags already written.\<close>

function set_map_flags_loop ::
  "vm_slot \<Rightarrow> uint32_t \<Rightarrow> uint64_t \<Rightarrow> uint64_t \<Rightarrow> vmm \<Rightarrow> (vmm \<times> StStatus) outcome" where
  "set_map_flags_loop slot map_flags cursor_vpn limit s =
     (if cursor_vpn < limit then
        obind (find_overlap (slot_head slot s) cursor_vpn 1 s) (\<lambda>r.
          case r of
            None \<Rightarrow> Returned (s, STATUS_NOT_ALLOCATED)
          | Some n \<Rightarrow>
              if cursor_vpn < node_usable_base_vpn (nodes s n) then Returned (s, STATUS_NOT_PERMITTED)
              else
                let next_vpn = limit_vpn (nodes s n)
                in set_map_flags_loop slot map_flags (if next_vpn > limit then limit else next_vpn) limit
                     (upd_node n (node_map_flags_update (\<lambda>_. map_flags)) s))
      else Returned (s, STATUS_SUCCESS))"
  by pat_completeness auto
termination
proof (relation "measure (\<lambda>(slot, map_flags, cursor_vpn, limit, s). unat limit - unat cursor_vpn)", goal_cases)
  case (2 slot map_flags cursor_vpn limit s r n next_vpn)
  then have "cursor_vpn < next_vpn" using find_overlap_Some by simp
  then show ?case using 2(1) by (simp add: word_less_nat_alt diff_less_mono2)
qed simp

declare set_map_flags_loop.simps [simp del]

definition StVmm_SetLocalPageReservationMapFlags ::
  "nat option \<Rightarrow> uint64_t \<Rightarrow> uint64_t \<Rightarrow> uint32_t \<Rightarrow> vmm \<Rightarrow> (vmm \<times> StStatus) outcome" where
  "StVmm_SetLocalPageReservationMapFlags asp vpn count map_flags s =
     (case asp of
        None \<Rightarrow> Returned (s, STATUS_INVALID_VALUE)
      | Some a \<Rightarrow>
          if count = 0 then Returned (s, STATUS_INVALID_VALUE)
          else if vpn < user_base_vpn (asps s a) then Returned (s, STATUS_INVALID_VALUE)
          else if count - 1 > user_limit_vpn (asps s a) - vpn then Returned (s, STATUS_INVALID_VALUE)
          else if flag_set map_flags MF_GUARD then Returned (s, STATUS_INVALID_VALUE)
          else case make_limit_exclusive vpn count of
            Inl status \<Rightarrow> Returned (s, status)
          | Inr limit \<Rightarrow>
              with_irq_locked (\<lambda>s.
                case validate_domain_list (slot_head (LocalSlot a) s) s of (s, valid) \<Rightarrow>
                if \<not> valid then Returned (s, STATUS_SYSTEM_CORRUPTED)
                else set_map_flags_loop (LocalSlot a) map_flags vpn limit s) s)"

text \<open>The part of \<^verbatim>\<open>StVmm_ResolveLocalPage\<close> after the covering node is found.\<close>

definition grow_down :: "nat \<Rightarrow> uint64_t \<Rightarrow> node_ptr \<Rightarrow> vmm \<Rightarrow> vmm \<times> StStatus" where
  "grow_down a vpn n s =
     (let nd = nodes s n; usable_base_vpn = node_usable_base_vpn nd in
      if vpn \<ge> usable_base_vpn then (s, STATUS_SUCCESS)
      else if guard_page_count nd = 0 \<or> usable_base_vpn = 0 \<or> vpn \<noteq> usable_base_vpn - 1
      then (s, STATUS_NOT_PERMITTED)
      else if \<not> flag_set (node_map_flags nd) MF_GUARD_GROW_DOWN \<or>
              policy_type (mapping_policy nd) \<noteq> VMM_PAGE_MAPPING_DEMAND_ZERO
      then (s, STATUS_NOT_PERMITTED)
      else if base_vpn nd = user_base_vpn (asps s a) \<or> user_free_count (asps s a) = 0
      then (s, STATUS_INSUFFICIENT_SPACE)
      else let new_base_vpn = base_vpn nd - 1 in
      if (case domain_prev nd of None \<Rightarrow> False | Some p \<Rightarrow> limit_vpn (nodes s p) > new_base_vpn)
      then (s, STATUS_INSUFFICIENT_SPACE)
      else if \<not> is_range_unmapped (LocalSlot a) new_base_vpn 1 s then (s, STATUS_CONFLICTING_STATE)
      else let s = upd_node n (base_vpn_update (\<lambda>_. new_base_vpn)) s
           in (set_slot_free_count (LocalSlot a) (user_free_count (asps s a) - 1) s, STATUS_SUCCESS))"

definition StVmm_ResolveLocalPage :: "nat option \<Rightarrow> uint64_t \<Rightarrow> vmm \<Rightarrow> (vmm \<times> StStatus) outcome" where
  "StVmm_ResolveLocalPage asp vpn s =
     (case asp of
        None \<Rightarrow> Returned (s, STATUS_INVALID_VALUE)
      | Some a \<Rightarrow>
          if vpn < user_base_vpn (asps s a) \<or> vpn > user_limit_vpn (asps s a)
          then Returned (s, STATUS_INVALID_VALUE)
          else with_irq_locked (\<lambda>s.
            obind (covering_node (LocalSlot a) vpn s) (\<lambda>(s, r).
              case r of
                Inl status \<Rightarrow> Returned (s, status)
              | Inr n \<Rightarrow> Returned (grow_down a vpn n s))) s)"

end
