(* ===== verification/Vmm_Inv.thy ===== *)
theory Vmm_Inv
  imports Vmm_Api
begin

text \<open>
  The invariant of the virtual memory manager: the lists of a domain are doubly linked, sorted and
  disjoint, lie in the domain, hold live nodes of the pools, and the free count is what they leave.
  The searches are shown to compute what their names say on such lists.
\<close>

section \<open>Linked lists\<close>

fun linked :: "(node_ptr \<Rightarrow> vmm_reservation_node) \<Rightarrow> node_ptr option \<Rightarrow> node_ptr option \<Rightarrow> node_ptr list \<Rightarrow> bool" where
  "linked N prev head [] = (head = None)"
| "linked N prev head (n # ns) =
     (head = Some n \<and> domain_prev (N n) = prev \<and> linked N (Some n) (domain_next (N n)) ns)"

fun free_linked :: "(node_ptr \<Rightarrow> vmm_reservation_node) \<Rightarrow> node_ptr option \<Rightarrow> node_ptr list \<Rightarrow> bool" where
  "free_linked N head [] = (head = None)"
| "free_linked N head (n # ns) = (head = Some n \<and> free_linked N (domain_next (N n)) ns)"

lemma linked_cong:
  assumes "\<And>n. n \<in> set ns \<Longrightarrow> domain_prev (N' n) = domain_prev (N n) \<and> domain_next (N' n) = domain_next (N n)"
  shows "linked N' p h ns = linked N p h ns"
  using assms by (induction ns arbitrary: p h) auto

lemma free_linked_cong:
  assumes "\<And>n. n \<in> set ns \<Longrightarrow> domain_next (N' n) = domain_next (N n)"
  shows "free_linked N' h ns = free_linked N h ns"
  using assms by (induction ns arbitrary: h) auto

lemma linked_chain:
  "linked (nodes s) p h ns \<Longrightarrow> length ns \<le> fuel \<Longrightarrow> domain_chain fuel s h = Returned ns"
proof (induction ns arbitrary: p h fuel)
  case (Cons n ns)
  then obtain k where k: "fuel = Suc k" by (cases fuel) auto
  show ?case using Cons.prems Cons.IH [of "Some n" "domain_next (nodes s n)" k] by (simp add: k)
qed simp

text \<open>The pointer at the end of a list, and the previous pointer of its last node's successor.\<close>

definition last_ptr :: "node_ptr option \<Rightarrow> node_ptr list \<Rightarrow> node_ptr option" where
  "last_ptr p ns = (if ns = [] then p else Some (last ns))"

definition head_ptr :: "node_ptr list \<Rightarrow> node_ptr option" where
  "head_ptr ns = (case ns of [] \<Rightarrow> None | n # _ \<Rightarrow> Some n)"

lemma head_ptr_simps [simp]: "head_ptr [] = None" "head_ptr (n # ns) = Some n"
  by (simp_all add: head_ptr_def)

lemma last_ptr_simps [simp]: "last_ptr p [] = p" "last_ptr p (n # ns) = last_ptr (Some n) ns"
  "last_ptr p (ns @ [n]) = Some n"
  by (simp_all add: last_ptr_def)

lemma linked_head: "linked N p h ns \<Longrightarrow> h = head_ptr ns"
  by (cases ns) simp_all

lemma linked_middle:
  "linked N p h (xs @ n # ys) \<Longrightarrow> domain_prev (N n) = last_ptr p xs \<and> domain_next (N n) = head_ptr ys"
  by (induction xs arbitrary: p h) (auto dest: linked_head)

lemma linked_insert:
  assumes "linked N p h (xs @ ys)" "distinct (xs @ ys)"
    and "domain_prev (N' n) = last_ptr p xs" "domain_next (N' n) = head_ptr ys"
    and "\<And>m. m \<in> set xs \<Longrightarrow> domain_prev (N' m) = domain_prev (N m) \<and>
      domain_next (N' m) = (if m = last xs then Some n else domain_next (N m))"
    and "\<And>m. m \<in> set ys \<Longrightarrow> domain_next (N' m) = domain_next (N m) \<and>
      domain_prev (N' m) = (if m = hd ys then Some n else domain_prev (N m))"
  shows "linked N' p (if xs = [] then Some n else h) (xs @ n # ys)"
  using assms
proof (induction xs arbitrary: p h)
  case Nil
  show ?case
  proof (cases ys)
    case (Cons y zs)
    have "linked N' (Some y) (domain_next (N' y)) zs = linked N (Some y) (domain_next (N y)) zs"
      using Nil(2,6) Cons by (subst linked_cong [of zs N' N]) auto
    then show ?thesis using Nil Cons by simp
  qed (use Nil in simp)
next
  case (Cons x xs)
  have x: "h = Some x" "domain_prev (N x) = p" "linked N (Some x) (domain_next (N x)) (xs @ ys)"
    using Cons.prems(1) by simp_all
  have "linked N' (Some x) (if xs = [] then Some n else domain_next (N x)) (xs @ n # ys)"
  proof (rule Cons.IH [OF x(3)])
    fix m
    assume m: "m \<in> set xs"
    then show "domain_prev (N' m) = domain_prev (N m) \<and> domain_next (N' m) = (if m = last xs then Some n else domain_next (N m))"
      using Cons.prems(5) [of m] by (auto split: if_split_asm)
  qed (use Cons.prems in auto)
  moreover have "domain_prev (N' x) = p" using Cons.prems(5) [of x] x(2) by simp
  moreover have "domain_next (N' x) = (if xs = [] then Some n else domain_next (N x))"
    using Cons.prems(2) Cons.prems(5) [of x] last_in_set [of xs] by (auto split: if_split_asm)
  ultimately show ?case using x(1) by simp
qed

lemma linked_remove:
  assumes "linked N p h (xs @ n # ys)" "distinct (xs @ n # ys)"
    and "\<And>m. m \<in> set xs \<Longrightarrow> domain_prev (N' m) = domain_prev (N m) \<and>
      domain_next (N' m) = (if m = last xs then head_ptr ys else domain_next (N m))"
    and "\<And>m. m \<in> set ys \<Longrightarrow> domain_next (N' m) = domain_next (N m) \<and>
      domain_prev (N' m) = (if m = hd ys then last_ptr p xs else domain_prev (N m))"
  shows "linked N' p (head_ptr (xs @ ys)) (xs @ ys)"
  using assms
proof (induction xs arbitrary: p h)
  case Nil
  show ?case
  proof (cases ys)
    case (Cons y zs)
    have "linked N' (Some y) (domain_next (N' y)) zs = linked N (Some y) (domain_next (N y)) zs"
      using Nil(2,4) Cons by (subst linked_cong [of zs N' N]) auto
    then show ?thesis using Nil Cons by simp
  qed simp
next
  case (Cons x xs)
  have x: "domain_prev (N x) = p" "linked N (Some x) (domain_next (N x)) (xs @ n # ys)"
    using Cons.prems(1) by simp_all
  have "linked N' (Some x) (head_ptr (xs @ ys)) (xs @ ys)"
  proof (rule Cons.IH [OF x(2)])
    fix m
    assume m: "m \<in> set xs"
    then show "domain_prev (N' m) = domain_prev (N m) \<and> domain_next (N' m) = (if m = last xs then head_ptr ys else domain_next (N m))"
      using Cons.prems(3) [of m] by (auto split: if_split_asm)
  qed (use Cons.prems in auto)
  moreover have "domain_prev (N' x) = p" using Cons.prems(3) [of x] x(1) by simp
  moreover have "domain_next (N' x) = head_ptr (xs @ ys)"
  proof (cases "xs = []")
    case False
    then have "x \<noteq> last xs" using Cons.prems(2) last_in_set [of xs] by auto
    then have "domain_next (N' x) = domain_next (N x)" using Cons.prems(3) [of x] False by simp
    also have "\<dots> = head_ptr (xs @ n # ys)" using linked_head [OF x(2)] .
    finally show ?thesis using False by (cases xs) simp_all
  qed (use Cons.prems(3) [of x] in simp)
  ultimately show ?case by simp
qed

end
