(* ===== verification/Vmm_Search.thy ===== *)
theory Vmm_Search
  imports Vmm_Inv
begin

text \<open>
  What the searches of the virtual memory manager compute on a sorted list of disjoint
  reservations: the reservation that meets a range, the lowest and the highest place
  where a request fits.
\<close>

section \<open>Sorted disjoint reservations\<close>

abbreviation lo :: "vmm \<Rightarrow> node_ptr \<Rightarrow> nat" where "lo s n \<equiv> unat (base_vpn (nodes s n))"
abbreviation hi :: "vmm \<Rightarrow> node_ptr \<Rightarrow> nat" where "hi s n \<equiv> unat (limit_vpn (nodes s n))"

definition ranges_ok :: "vmm \<Rightarrow> node_ptr list \<Rightarrow> bool" where
  "ranges_ok s ns \<longleftrightarrow> (\<forall>n\<in>set ns. lo s n < hi s n) \<and> sorted_wrt (\<lambda>m n. hi s m \<le> lo s n) ns"

lemma ranges_ok_simps [simp]:
  "ranges_ok s []"
  "ranges_ok s (n # ns) \<longleftrightarrow> lo s n < hi s n \<and> (\<forall>m\<in>set ns. hi s n \<le> lo s m) \<and> ranges_ok s ns"
  by (auto simp: ranges_ok_def)

lemma ranges_ok_append:
  "ranges_ok s (xs @ ys) \<longleftrightarrow> ranges_ok s xs \<and> ranges_ok s ys \<and> (\<forall>m\<in>set xs. \<forall>n\<in>set ys. hi s m \<le> lo s n)"
  by (auto simp: ranges_ok_def sorted_wrt_append)

text \<open>A range of \<open>count\<close> pages at \<open>q\<close> is clear of every reservation.\<close>

definition clear_at :: "vmm \<Rightarrow> node_ptr list \<Rightarrow> nat \<Rightarrow> nat \<Rightarrow> bool" where
  "clear_at s ns count q \<longleftrightarrow> (\<forall>n\<in>set ns. q + count \<le> lo s n \<or> hi s n \<le> q)"

lemma clear_at_simps [simp]:
  "clear_at s [] count q"
  "clear_at s (n # ns) count q \<longleftrightarrow> (q + count \<le> lo s n \<or> hi s n \<le> q) \<and> clear_at s ns count q"
  by (auto simp: clear_at_def)

lemma clear_before:
  "ranges_ok s (n # ns) \<Longrightarrow> q + count \<le> lo s n \<Longrightarrow> clear_at s (n # ns) count q"
  by (fastforce simp: clear_at_def)

section \<open>Overlap\<close>

lemma overlap_loop_None:
  "ranges_ok s ns \<Longrightarrow> overlap_loop s vpn limit ns = None \<longleftrightarrow>
     (\<forall>n\<in>set ns. \<not> (unat vpn < hi s n \<and> lo s n < unat limit))"
proof (induction ns)
  case (Cons n ns)
  show ?case
  proof (cases "unat limit \<le> lo s n")
    case True
    then have "\<forall>m\<in>set ns. unat limit \<le> lo s m" using Cons.prems by fastforce
    then show ?thesis using True by (fastforce simp: word_nat)
  next
    case False
    then show ?thesis using Cons by (auto simp: word_nat)
  qed
qed simp

lemma overlap_loop_page:
  assumes "ranges_ok s ns" "n \<in> set ns" "lo s n \<le> unat vpn" "unat vpn < hi s n" "unat limit = unat vpn + 1"
  shows "overlap_loop s vpn limit ns = Some n"
  using assms
proof (induction ns)
  case (Cons m ns)
  show ?case
  proof (cases "m = n")
    case False
    then have "n \<in> set ns" using Cons.prems(2) by simp
    then have "hi s m \<le> lo s n" "lo s m < hi s m" using Cons.prems(1) by auto
    then have "\<not> unat vpn < hi s m" "\<not> unat limit \<le> lo s m" using Cons.prems(3,5) by linarith+
    moreover have "overlap_loop s vpn limit ns = Some n" using Cons \<open>n \<in> set ns\<close> by simp
    ultimately show ?thesis by (simp add: word_nat)
  qed (use Cons.prems in \<open>simp add: word_nat\<close>)
qed simp

section \<open>Exact search\<close>

lemma ranges_ok_hi_unique: "ranges_ok s ns \<Longrightarrow> m \<in> set ns \<Longrightarrow> n \<in> set ns \<Longrightarrow> hi s m = hi s n \<Longrightarrow> m = n"
  by (induction ns) (fastforce simp: ranges_ok_def)+

definition guards_ok :: "vmm \<Rightarrow> node_ptr list \<Rightarrow> bool" where
  "guards_ok s ns \<longleftrightarrow> (\<forall>n\<in>set ns. unat (guard_page_count (nodes s n)) < hi s n - lo s n)"

lemma usable_base:
  assumes "unat (guard_page_count nd) < unat (limit_vpn nd) - unat (base_vpn nd)"
  shows "unat (node_usable_base_vpn nd) = unat (base_vpn nd) + unat (guard_page_count nd)"
  unfolding node_usable_base_vpn_def using assms unat_less64 [of "limit_vpn nd"] by (intro unat_add64) linarith

lemma exact_releasable_loop_Some:
  "exact_releasable_loop s vpn limit ns = Some n \<Longrightarrow>
     n \<in> set ns \<and> limit_vpn (nodes s n) = limit \<and> (base_vpn (nodes s n) = vpn \<or> node_usable_base_vpn (nodes s n) = vpn)"
  by (induction ns) (auto simp: Let_def split: if_split_asm)

lemma exact_releasable_loop_found:
  assumes "ranges_ok s ns" "guards_ok s ns" "n \<in> set ns" "limit_vpn (nodes s n) = limit"
    and "base_vpn (nodes s n) = vpn \<or> node_usable_base_vpn (nodes s n) = vpn"
  shows "exact_releasable_loop s vpn limit ns = Some n"
  using assms
proof (induction ns)
  case (Cons m ns)
  show ?case
  proof (cases "m = n")
    case False
    then have n: "n \<in> set ns" using Cons.prems(3) by simp
    have r: "hi s m \<le> lo s n" "lo s m < hi s m" "lo s n < hi s n" using Cons.prems(1) n by (auto simp: ranges_ok_def)
    have u: "unat (node_usable_base_vpn (nodes s k)) = lo s k + unat (guard_page_count (nodes s k))"
        "unat (guard_page_count (nodes s k)) < hi s k - lo s k" if "k = m \<or> k = n" for k
      using that Cons.prems(2,3) usable_base [of "nodes s k"] by (auto simp: guards_ok_def)
    have v: "lo s n \<le> unat vpn" using Cons.prems(5) u(1) [of n] by auto
    have "limit_vpn (nodes s m) \<noteq> limit" using ranges_ok_hi_unique Cons.prems(1,3,4) False by fastforce
    moreover have "\<not> base_vpn (nodes s m) > vpn" using v r by (simp add: word_nat)
    moreover have "exact_releasable_loop s vpn limit ns = Some n"
      using Cons.IH Cons.prems n by (simp add: guards_ok_def)
    ultimately show ?thesis by (simp add: Let_def)
  qed (use Cons.prems in \<open>auto simp: Let_def\<close>)
qed simp

section \<open>First fit\<close>

lemma first_fit_loop_spec:
  assumes "ranges_ok s ns" "\<forall>n\<in>set ns. hi s n \<le> unat limit" "c < limit" "count \<noteq> 0"
  shows "case first_fit_loop s limit count c ns of
      Inr r \<Rightarrow> unat c \<le> unat r \<and> unat r + unat count \<le> unat limit \<and> clear_at s ns (unat count) (unat r) \<and>
        (\<forall>q. unat c \<le> q \<and> q < unat r \<longrightarrow> \<not> clear_at s ns (unat count) q)
    | Inl st \<Rightarrow> st = STATUS_INSUFFICIENT_MEMORY \<and>
        (\<forall>q. unat c \<le> q \<and> q + unat count \<le> unat limit \<longrightarrow> \<not> clear_at s ns (unat count) q)"
  using assms
proof (induction ns arbitrary: c)
  case Nil
  then show ?case by (auto simp: word_nat unat_sub64)
next
  case (Cons n ns)
  let ?l = "limit_vpn (nodes s n)"
  let ?b = "base_vpn (nodes s n)"
  have cnt: "0 < unat count" using Cons.prems(4) by (simp add: unat_gt_0)
  show ?case
  proof (cases "?l \<le> c")
    case True
    then have eq: "clear_at s (n # ns) (unat count) q \<longleftrightarrow> clear_at s ns (unat count) q" if "unat c \<le> q" for q
      using that by (auto simp: word_nat)
    have "first_fit_loop s limit count c (n # ns) = first_fit_loop s limit count c ns" using True by (simp add: Let_def)
    then show ?thesis using Cons.IH [of c] Cons.prems eq
      by (auto simp del: clear_at_simps(2) first_fit_loop.simps split: sum.splits)
  next
    case l: False
    show ?thesis
    proof (cases "c < ?b \<and> count \<le> ?b - c")
      case True
      then have b: "unat c + unat count \<le> lo s n" by (auto simp: word_nat unat_sub64)
      then have "clear_at s (n # ns) (unat count) (unat c)" using Cons.prems(1) by (intro clear_before) auto
      moreover have "unat c + unat count \<le> unat limit" using b Cons.prems(1,2) by fastforce
      moreover have "first_fit_loop s limit count c (n # ns) = Inr c" using True l by (simp add: Let_def)
      ultimately show ?thesis by auto
    next
      case False
      have gap: "\<not> clear_at s (n # ns) (unat count) q" if "unat c \<le> q" "q < hi s n" for q
        using False that cnt by (cases "c < ?b") (auto simp: word_nat unat_sub64)
      have step: "first_fit_loop s limit count c (n # ns) =
          (if ?l \<ge> limit then Inl STATUS_INSUFFICIENT_MEMORY else first_fit_loop s limit count ?l ns)"
        using False l by (auto simp: Let_def)
      show ?thesis
      proof (cases "?l \<ge> limit")
        case True
        then have "\<not> clear_at s (n # ns) (unat count) q" if "unat c \<le> q" "q + unat count \<le> unat limit" for q
          using gap [of q] that cnt by (simp add: word_nat)
        then show ?thesis using True step by simp
      next
        case lim: False
        then have eq: "clear_at s (n # ns) (unat count) q \<longleftrightarrow> clear_at s ns (unat count) q" if "hi s n \<le> q" for q
          using that by simp
        have lc: "unat c \<le> hi s n" using l by (simp add: word_nat)
        have IH: "case first_fit_loop s limit count ?l ns of
            Inr r \<Rightarrow> hi s n \<le> unat r \<and> unat r + unat count \<le> unat limit \<and> clear_at s ns (unat count) (unat r) \<and>
              (\<forall>q. hi s n \<le> q \<and> q < unat r \<longrightarrow> \<not> clear_at s ns (unat count) q)
          | Inl st \<Rightarrow> st = STATUS_INSUFFICIENT_MEMORY \<and>
              (\<forall>q. hi s n \<le> q \<and> q + unat count \<le> unat limit \<longrightarrow> \<not> clear_at s ns (unat count) q)"
          using Cons.IH [of ?l] Cons.prems lim by simp
        show ?thesis
        proof (cases "first_fit_loop s limit count ?l ns")
          case (Inl st)
          have "\<not> clear_at s (n # ns) (unat count) q" if "unat c \<le> q" "q + unat count \<le> unat limit" for q
            using gap [of q] eq [of q] IH Inl that by (cases "q < hi s n") auto
          then show ?thesis using IH Inl step lim by simp
        next
          case (Inr r)
          have "\<not> clear_at s (n # ns) (unat count) q" if "unat c \<le> q" "q < unat r" for q
            using gap [of q] eq [of q] IH Inr that by (cases "q < hi s n") auto
          then show ?thesis using IH Inr step lim lc by simp
        qed
      qed
    qed
  qed
qed

section \<open>Last fit\<close>

text \<open>The places between \<open>g\<close> and \<open>limit\<close> that are clear of the reservations.\<close>

definition places :: "vmm \<Rightarrow> node_ptr list \<Rightarrow> nat \<Rightarrow> nat \<Rightarrow> nat \<Rightarrow> nat set" where
  "places s ns count g limit = {q. g \<le> q \<and> q + count \<le> limit \<and> clear_at s ns count q}"

definition is_last :: "nat set \<Rightarrow> uint64_t option \<Rightarrow> uint64_t option \<Rightarrow> bool" where
  "is_last Q best r \<longleftrightarrow> (if Q = {} then r = best else \<exists>p. r = Some p \<and> unat p \<in> Q \<and> (\<forall>q\<in>Q. q \<le> unat p))"

lemma is_last_Un:
  assumes "is_last Q1 best b1" "is_last Q2 b1 r" "\<And>p q. p \<in> Q1 \<Longrightarrow> q \<in> Q2 \<Longrightarrow> p \<le> q"
  shows "is_last (Q1 \<union> Q2) best r"
proof (cases "Q2 = {}")
  case True
  then show ?thesis using assms(1,2) by (simp add: is_last_def)
next
  case False
  then obtain p where p: "r = Some p" "unat p \<in> Q2" "\<forall>q\<in>Q2. q \<le> unat p" using assms(2) by (auto simp: is_last_def)
  then have "\<forall>q\<in>Q1 \<union> Q2. q \<le> unat p" using assms(3) by blast
  then show ?thesis using p by (auto simp: is_last_def)
qed

lemma last_fit_gap_spec:
  assumes "count \<noteq> 0"
  shows "is_last {q. unat g \<le> q \<and> q + unat count \<le> unat e} best (last_fit_gap count g e best)"
proof (cases "g < e \<and> count \<le> e - g")
  case True
  then have le: "unat g + unat count \<le> unat e" by (auto simp: word_nat unat_sub64)
  then have "unat (e - count) = unat e - unat count" by (simp add: unat_sub64)
  then have "is_last {q. unat g \<le> q \<and> q + unat count \<le> unat e} best (Some (e - count))"
    using le unfolding is_last_def by (auto intro: exI [of _ "unat g"])
  then show ?thesis using True by (simp add: last_fit_gap_def)
next
  case False
  have "0 < unat count" using assms by (simp add: unat_gt_0)
  then have "{q. unat g \<le> q \<and> q + unat count \<le> unat e} = {}"
    using False by (cases "g < e") (auto simp: word_nat unat_sub64)
  then show ?thesis using False by (auto simp: last_fit_gap_def is_last_def)
qed

lemma last_fit_loop_spec:
  assumes "ranges_ok s ns" "count \<noteq> 0"
  shows "is_last (places s ns (unat count) (unat g) (unat limit)) best (last_fit_loop s limit count g best ns)"
  using assms
proof (induction ns arbitrary: g best)
  case Nil
  then show ?case using last_fit_gap_spec [of count g limit best] by (simp add: places_def)
next
  case (Cons n ns)
  let ?l = "limit_vpn (nodes s n)"
  let ?b = "base_vpn (nodes s n)"
  let ?c = "unat count"
  have cnt: "0 < ?c" using Cons.prems(2) by (simp add: unat_gt_0)
  show ?case
  proof (cases "limit \<le> ?b")
    case True
    then have "clear_at s (n # ns) ?c q" if "q + ?c \<le> unat limit" for q
      using that Cons.prems(1) by (intro clear_before) (simp_all add: word_nat)
    then have "places s (n # ns) ?c (unat g) (unat limit) = {q. unat g \<le> q \<and> q + ?c \<le> unat limit}"
      unfolding places_def by blast
    then show ?thesis using True last_fit_gap_spec [OF Cons.prems(2), of g limit best] by (simp add: Let_def)
  next
    case b: False
    show ?thesis
    proof (cases "?l \<le> g")
      case True
      then have "places s (n # ns) ?c (unat g) (unat limit) = places s ns ?c (unat g) (unat limit)"
        by (auto simp: places_def word_nat)
      then show ?thesis using True b Cons.IH [of g best] Cons.prems by (simp add: Let_def)
    next
      case l: False
      let ?best = "last_fit_gap count g ?b best"
      have step: "last_fit_loop s limit count g best (n # ns) =
          (if ?l \<ge> limit then last_fit_gap count ?l limit ?best else last_fit_loop s limit count ?l ?best ns)"
        using b l by (auto simp: Let_def)
      have below: "clear_at s (n # ns) ?c q" if "q + ?c \<le> lo s n" for q
        using that Cons.prems(1) by (intro clear_before)
      have bl: "lo s n \<le> unat limit" "unat g \<le> hi s n" using b l by (simp_all add: word_nat)
      have split: "places s (n # ns) ?c (unat g) (unat limit) =
          {q. unat g \<le> q \<and> q + ?c \<le> lo s n} \<union> places s ns ?c (hi s n) (unat limit)"
        using below bl unfolding places_def by auto
      have front: "is_last {q. unat g \<le> q \<and> q + ?c \<le> lo s n} best ?best"
        by (rule last_fit_gap_spec [OF Cons.prems(2)])
      have "is_last (places s ns ?c (hi s n) (unat limit)) ?best (last_fit_loop s limit count g best (n # ns))"
      proof (cases "?l \<ge> limit")
        case True
        then have "places s ns ?c (hi s n) (unat limit) = {}" using cnt by (auto simp: places_def word_nat)
        moreover have "\<not> ?l < limit" using True by simp
        then have "last_fit_gap count ?l limit ?best = ?best" by (simp only: last_fit_gap_def [of _ ?l]) simp
        ultimately show ?thesis unfolding step using True by (simp add: is_last_def)
      next
        case False
        then show ?thesis unfolding step using Cons.IH [of ?l ?best] Cons.prems by simp
      qed
      then show ?thesis unfolding split using Cons.prems(1)
        by (intro is_last_Un [OF front]) (auto simp: places_def)
    qed
  qed
qed

section \<open>Unmapped ranges\<close>

lemma is_range_unmapped_iff:
  "is_range_unmapped slot vpn n s \<longleftrightarrow>
     (\<forall>i<n. slot_page_status slot (vpn + of_nat i) s = Inl STATUS_PAGE_NOT_PRESENT)"
proof (induction n arbitrary: vpn)
  case (Suc n)
  have "(\<forall>i<Suc n. slot_page_status slot (vpn + of_nat i) s = Inl STATUS_PAGE_NOT_PRESENT) \<longleftrightarrow>
     slot_page_status slot vpn s = Inl STATUS_PAGE_NOT_PRESENT \<and>
     (\<forall>i<n. slot_page_status slot (vpn + 1 + of_nat i) s = Inl STATUS_PAGE_NOT_PRESENT)"
    by (simp add: All_less_Suc2 add.assoc)
  then show ?case using Suc by simp
qed simp

end
