(* ===== verification/Vmm_Place.thy ===== *)
theory Vmm_Place
  imports Vmm_Search
begin

text \<open>
  The invariant of the virtual memory manager and the search for a place: on a state that meets the
  invariant, validation passes, the searches return, and a candidate lies in the domain, is
  clear of the reservations and has no page mapped.
\<close>

section \<open>The invariant\<close>

definition handed_out :: "vmm \<Rightarrow> node_ptr \<Rightarrow> bool" where
  "handed_out s n =
     (case n of
        EarlyNode k \<Rightarrow> k < early_reservation_node_pool_used_count s
      | DynNode f i \<Rightarrow> f \<in> set (dynamic_reservation_node_slabs s) \<and> i < NODES_PER_PAGE)"

definition node_ok :: "vm_slot \<Rightarrow> vmm \<Rightarrow> node_ptr \<Rightarrow> bool" where
  "node_ok slot s n \<longleftrightarrow>
     handed_out s n \<and> is_live (nodes s n) \<and>
     unat (slot_base slot s) \<le> lo s n \<and> hi s n \<le> unat (slot_limit slot s) + 1 \<and>
     node_asp (nodes s n) = slot_asp slot \<and> node_domain (nodes s n) = slot_domain slot"

definition slot_list :: "vm_slot \<Rightarrow> node_ptr list \<Rightarrow> vmm \<Rightarrow> bool" where
  "slot_list slot ns s \<longleftrightarrow>
     linked (nodes s) None (slot_head slot s) ns \<and> distinct ns \<and> (\<forall>n\<in>set ns. node_ok slot s n) \<and>
     ranges_ok s ns \<and> guards_ok s ns \<and>
     slot_base slot s \<le> slot_limit slot s \<and> slot_limit slot s \<noteq> - 1 \<and>
     (\<Sum>n\<leftarrow>ns. hi s n - lo s n) + unat (slot_free_count slot s) =
       unat (slot_limit slot s) - unat (slot_base slot s) + 1"

definition pool_ok :: "vmm \<Rightarrow> bool" where
  "pool_ok s \<longleftrightarrow>
     early_reservation_node_pool_used_count s \<le> EARLY_RESERVATION_NODE_POOL_COUNT \<and>
     dynamic_reservation_node_total_count s = NODES_PER_PAGE * length (dynamic_reservation_node_slabs s) \<and>
     (\<exists>fl. free_linked (nodes s) (dynamic_reservation_node_freelist s) fl \<and> distinct fl \<and>
        length fl = dynamic_reservation_node_free_count s \<and>
        (\<forall>n\<in>set fl. (\<exists>f i. n = DynNode f i) \<and> handed_out s n \<and> \<not> is_live (nodes s n)))"

text \<open>\<open>S\<close> is the set of domains and address spaces in use.\<close>

definition vmm_inv :: "vm_slot set \<Rightarrow> vmm \<Rightarrow> bool" where
  "vmm_inv S s \<longleftrightarrow> pool_ok s \<and> (\<forall>slot\<in>S. \<exists>ns. slot_list slot ns s)"

lemmas slot_listD = slot_list_def [THEN iffD1]

lemma slot_list_parts:
  assumes "slot_list slot ns s"
  shows "linked (nodes s) None (slot_head slot s) ns" "distinct ns" "\<And>n. n \<in> set ns \<Longrightarrow> node_ok slot s n"
    "ranges_ok s ns" "guards_ok s ns" "slot_base slot s \<le> slot_limit slot s" "slot_limit slot s \<noteq> - 1"
  using assms by (simp_all add: slot_list_def)

lemma slot_identity: "slot_asp a = slot_asp b \<Longrightarrow> slot_domain a = slot_domain b \<Longrightarrow> a = b"
  by (cases a; cases b) simp_all

text \<open>A node belongs to one slot, and to one list of it.\<close>

lemma node_in_one_slot: "node_ok a s n \<Longrightarrow> node_ok b s n \<Longrightarrow> a = b"
  by (auto simp: node_ok_def intro: slot_identity)

lemma slot_list_unique:
  assumes "slot_list slot ns s" "slot_list slot ms s"
  shows "ns = ms"
proof -
  have "linked N p h ns \<Longrightarrow> linked N p h ms \<Longrightarrow> ns = ms" for N p h
  proof (induction ns arbitrary: p h ms)
    case Nil
    then show ?case by (cases ms) auto
  next
    case (Cons n ns)
    then show ?case by (cases ms) auto
  qed
  then show ?thesis using slot_list_parts(1) assms by blast
qed

section \<open>The length of a list\<close>

lemma handed_out_subset:
  "{n. handed_out s n} \<subseteq> EarlyNode ` {..<early_reservation_node_pool_used_count s} \<union>
     (\<lambda>(f, i). DynNode f i) ` (set (dynamic_reservation_node_slabs s) \<times> {..<NODES_PER_PAGE})"
proof
  fix n
  assume "n \<in> {n. handed_out s n}"
  then show "n \<in> EarlyNode ` {..<early_reservation_node_pool_used_count s} \<union>
      (\<lambda>(f, i). DynNode f i) ` (set (dynamic_reservation_node_slabs s) \<times> {..<NODES_PER_PAGE})"
    by (cases n) (auto simp: handed_out_def)
qed

lemma card_handed_out:
  "finite {n. handed_out s n}"
  "card {n. handed_out s n} \<le> early_reservation_node_pool_used_count s + NODES_PER_PAGE * length (dynamic_reservation_node_slabs s)"
proof -
  let ?E = "EarlyNode ` {..<early_reservation_node_pool_used_count s}"
  let ?D = "(\<lambda>(f, i). DynNode f i) ` (set (dynamic_reservation_node_slabs s) \<times> {..<NODES_PER_PAGE})"
  have f: "finite (?E \<union> ?D)" by simp
  then show "finite {n. handed_out s n}" using handed_out_subset finite_subset by blast
  have "card ?E \<le> early_reservation_node_pool_used_count s"
    using card_image_le [of "{..<early_reservation_node_pool_used_count s}" EarlyNode] by simp
  moreover have "card ?D \<le> card (set (dynamic_reservation_node_slabs s)) * NODES_PER_PAGE"
    using card_image_le [of "set (dynamic_reservation_node_slabs s) \<times> {..<NODES_PER_PAGE}" "\<lambda>(f, i). DynNode f i"]
    by (simp add: card_cartesian_product)
  moreover have "card (set (dynamic_reservation_node_slabs s)) * NODES_PER_PAGE \<le> NODES_PER_PAGE * length (dynamic_reservation_node_slabs s)"
    using card_length [of "dynamic_reservation_node_slabs s"] by (simp add: mult.commute)
  moreover have "card {n. handed_out s n} \<le> card ?E + card ?D"
    using card_mono [OF f handed_out_subset] card_Un_le [of ?E ?D] by linarith
  ultimately show "card {n. handed_out s n} \<le> early_reservation_node_pool_used_count s + NODES_PER_PAGE * length (dynamic_reservation_node_slabs s)"
    by linarith
qed

lemma slot_list_length:
  assumes "slot_list slot ns s" "pool_ok s"
  shows "length ns < node_bound s"
proof -
  have "set ns \<subseteq> {n. handed_out s n}" using slot_list_parts(3) [OF assms(1)] by (auto simp: node_ok_def)
  then have "card (set ns) \<le> card {n. handed_out s n}" using card_mono card_handed_out(1) by blast
  moreover have "card (set ns) = length ns" using slot_list_parts(2) [OF assms(1)] by (rule distinct_card)
  ultimately show ?thesis using card_handed_out(2) [of s] assms(2) by (simp add: node_bound_def pool_ok_def)
qed

lemma slot_chain:
  assumes "slot_list slot ns s" "pool_ok s"
  shows "node_chain s (slot_head slot s) = Returned ns"
  unfolding node_chain_def
  using slot_list_length [OF assms] slot_list_parts(1) [OF assms(1)] by (intro linked_chain) simp_all

section \<open>Validation passes\<close>

lemma handed_out_in_pool:
  assumes "pool_ok s" "handed_out s n"
  shows "is_node_in_pool n s"
proof (cases n)
  case (EarlyNode k)
  then show ?thesis using assms by (simp add: handed_out_def pool_ok_def)
next
  case (DynNode f i)
  then have "f \<in> set (dynamic_reservation_node_slabs s)" "i < 28"
    using assms(2) by (simp_all add: handed_out_def NODES_PER_PAGE_def PAGE_SIZE_def SIZEOF_NODE_def)
  then show ?thesis using DynNode by (simp add: PAGE_SIZE_def SIZEOF_NODE_def)
qed

lemma validate_loop_ok:
  assumes "pool_ok s" "linked (nodes s) prev h ns" "length ns \<le> guard"
    and "\<And>n. n \<in> set ns \<Longrightarrow> node_ok slot s n" "ranges_ok s ns"
    and "\<And>p n. prev = Some p \<Longrightarrow> n \<in> set ns \<Longrightarrow> lo s p < lo s n"
  shows "validate_loop s guard prev h"
  using assms(2-)
proof (induction ns arbitrary: prev h guard)
  case (Cons n ns)
  then obtain k where k: "guard = Suc k" by (cases guard) auto
  have h: "h = Some n" "domain_prev (nodes s n) = prev" "linked (nodes s) (Some n) (domain_next (nodes s n)) ns"
    using Cons.prems(1) by simp_all
  have ok: "is_node_in_pool n s" "is_live (nodes s n)"
    using Cons.prems(3) [of n] handed_out_in_pool assms(1) by (simp_all add: node_ok_def)
  have "\<not> limit_vpn (nodes s n) \<le> base_vpn (nodes s n)" using Cons.prems(4) by (simp add: word_nat)
  moreover have "\<not> (case prev of None \<Rightarrow> False | Some p \<Rightarrow> base_vpn (nodes s n) \<le> base_vpn (nodes s p))"
    using Cons.prems(5) [of _ n] by (auto simp: word_nat split: option.splits)
  moreover have "\<not> (case domain_next (nodes s n) of None \<Rightarrow> False | Some m \<Rightarrow> \<not> is_node_in_pool m s)"
    using h(3) Cons.prems(3) handed_out_in_pool assms(1) by (cases ns) (auto simp: node_ok_def)
  moreover have "validate_loop s k (Some n) (domain_next (nodes s n))"
  proof (rule Cons.IH [OF h(3)])
    fix p m
    assume "Some n = Some p" "m \<in> set ns"
    then show "lo s p < lo s m" using Cons.prems(4) by fastforce
  qed (use Cons.prems k in auto)
  ultimately show ?case using h ok by (simp add: k Let_def)
qed simp

lemma slot_validates:
  assumes "slot_list slot ns s" "pool_ok s"
  shows "validate_domain_list (slot_head slot s) s = (s, True)"
proof -
  have "validate_loop s (node_bound s) None (slot_head slot s)"
    using slot_list_parts [OF assms(1)] slot_list_length [OF assms]
    by (intro validate_loop_ok [OF assms(2), of _ _ ns _ slot]) simp_all
  then show ?thesis by (simp add: validate_domain_list_def)
qed

section \<open>The search for a place\<close>

text \<open>A place for \<open>count\<close> pages: in the domain, clear of the reservations, and with no page mapped.\<close>

definition vacant :: "vm_slot \<Rightarrow> node_ptr list \<Rightarrow> uint64_t \<Rightarrow> vmm \<Rightarrow> uint64_t \<Rightarrow> bool" where
  "vacant slot ns count s q \<longleftrightarrow>
     unat (slot_base slot s) \<le> unat q \<and> unat q + unat count \<le> unat (slot_limit slot s) + 1 \<and>
     clear_at s ns (unat count) (unat q) \<and> is_range_unmapped slot q (unat count) s"

lemma slot_hi: "slot_list slot ns s \<Longrightarrow> n \<in> set ns \<Longrightarrow> hi s n \<le> unat (slot_limit slot s + 1)"
  using slot_list_parts(3,7) by (auto simp: node_ok_def unat_inc)

lemma find_first_fit_spec:
  assumes "slot_list slot ns s" "pool_ok s" "count \<noteq> 0"
  obtains (found) r where "find_first_fit_from (slot_head slot s) (slot_base slot s) (slot_limit slot s) count start s = Returned (Inr r)"
      "start \<le> r" "slot_base slot s \<le> r" "unat r + unat count \<le> unat (slot_limit slot s) + 1"
      "clear_at s ns (unat count) (unat r)"
      "\<And>q. start \<le> q \<Longrightarrow> q < r \<Longrightarrow> \<not> vacant slot ns count s q"
  | (none) "find_first_fit_from (slot_head slot s) (slot_base slot s) (slot_limit slot s) count start s = Returned (Inl STATUS_INSUFFICIENT_MEMORY)"
      "\<And>q. start \<le> q \<Longrightarrow> \<not> vacant slot ns count s q"
proof -
  let ?c = "if start > slot_base slot s then start else slot_base slot s"
  let ?l = "slot_limit slot s + 1"
  have l: "slot_limit slot s \<noteq> - 1" "unat ?l = unat (slot_limit slot s) + 1"
    using slot_list_parts(7) [OF assms(1)] by (simp_all add: unat_inc)
  have c: "unat ?c \<le> unat q" if "start \<le> q" "vacant slot ns count s q" for q
    using that by (auto simp: vacant_def word_nat)
  have cnt: "0 < unat count" using assms(3) by (simp add: unat_gt_0)
  show thesis
  proof (cases "?c \<ge> ?l")
    case True
    then have e: "find_first_fit_from (slot_head slot s) (slot_base slot s) (slot_limit slot s) count start s = Returned (Inl STATUS_INSUFFICIENT_MEMORY)"
      using assms(3) l(1) by (simp add: find_first_fit_from_def make_domain_limit_exclusive_def)
    have "\<not> vacant slot ns count s q" if "start \<le> q" for q
    proof
      assume v: "vacant slot ns count s q"
      have "unat ?l \<le> unat ?c" using True by (simp only: word_le_nat_alt)
      then show False using c [OF that v] v cnt l(2) by (simp add: vacant_def)
    qed
    then show thesis using none e by blast
  next
    case False
    then have lt: "?c < ?l" by simp
    have e: "find_first_fit_from (slot_head slot s) (slot_base slot s) (slot_limit slot s) count start s =
        Returned (first_fit_loop s ?l count ?c ns)"
      using assms(3) l(1) False slot_chain [OF assms(1,2)]
      by (simp add: find_first_fit_from_def make_domain_limit_exclusive_def)
    note spec = first_fit_loop_spec [OF slot_list_parts(4) [OF assms(1)] _ lt assms(3)]
    have h: "\<forall>n\<in>set ns. hi s n \<le> unat ?l" using slot_hi [OF assms(1)] by blast
    show thesis
    proof (cases "first_fit_loop s ?l count ?c ns")
      case (Inl st)
      then have st: "st = STATUS_INSUFFICIENT_MEMORY"
          "\<And>q. unat ?c \<le> q \<Longrightarrow> q + unat count \<le> unat ?l \<Longrightarrow> \<not> clear_at s ns (unat count) q"
        using spec [OF h] by auto
      have "\<not> vacant slot ns count s q" if "start \<le> q" for q
        using c [OF that] st(2) [of "unat q"] l(2) by (auto simp: vacant_def)
      then show thesis using none e Inl st(1) by simp
    next
      case (Inr r)
      then have r: "unat ?c \<le> unat r" "unat r + unat count \<le> unat ?l" "clear_at s ns (unat count) (unat r)"
          "\<And>q. unat ?c \<le> q \<Longrightarrow> q < unat r \<Longrightarrow> \<not> clear_at s ns (unat count) q"
        using spec [OF h] by auto
      have "start \<le> r" "slot_base slot s \<le> r" using r(1) by (auto simp: word_nat split: if_split_asm)
      moreover have "\<not> vacant slot ns count s q" if "start \<le> q" "q < r" for q
        using c [OF that(1)] r(4) [of "unat q"] that(2) by (auto simp: vacant_def word_nat)
      ultimately show thesis using found [of r] e Inr r(2,3) l(2) by simp
    qed
  qed
qed

lemma search_up:
  assumes "slot_list slot ns s" "pool_ok s" "count \<noteq> 0"
  shows "\<exists>r. search_candidate slot False count start search_limit s = Returned r \<and>
    (case r of
       Inr c \<Rightarrow> vacant slot ns count s c \<and> start \<le> c \<and> (\<forall>q. start \<le> q \<and> q < c \<longrightarrow> \<not> vacant slot ns count s q)
     | Inl st \<Rightarrow> st = STATUS_INSUFFICIENT_MEMORY \<and> (\<forall>q. start \<le> q \<longrightarrow> \<not> vacant slot ns count s q))"
  (is "?P start")
proof (induction start rule: measure_induct_rule [of "\<lambda>start. 2 ^ 64 - unat start"])
  case (less start)
  note step = search_candidate.simps [of slot False count start search_limit s]
  have cnt: "0 < unat count" using assms(3) by (simp add: unat_gt_0)
  show ?case
  proof (cases rule: find_first_fit_spec [OF assms, of start, case_names found none])
    case (found r)
    show ?thesis
    proof (cases "is_range_unmapped slot r (unat count) s")
      case True
      then have "vacant slot ns count s r" using found by (simp add: vacant_def word_nat)
      then show ?thesis using step found True by simp
    next
      case False
      then have nv: "\<not> vacant slot ns count s r" by (simp add: vacant_def)
      show ?thesis
      proof (cases "r \<ge> slot_limit slot s")
        case True
        have "\<not> vacant slot ns count s q" if "start \<le> q" for q
        proof (cases "q < r")
          case False
          then have "q = r \<or> unat (slot_limit slot s) + 1 \<le> unat q"
            using True by (cases "q = r") (auto simp: word_nat word_unat_eq_iff)
          then show ?thesis using nv cnt by (auto simp: vacant_def)
        qed (use found(6) that in blast)
        then show ?thesis using step found(1) False True by simp
      next
        case lim: False
        then have "r < slot_limit slot s" by simp
        then have "2 ^ 64 - unat (r + 1) < (2 ^ 64 - unat start :: nat)" using found(2) inc_measure by blast
        from less.IH [OF this] obtain x where x: "search_candidate slot False count (r + 1) search_limit s = Returned x"
          "case x of
             Inr c \<Rightarrow> vacant slot ns count s c \<and> r + 1 \<le> c \<and> (\<forall>q. r + 1 \<le> q \<and> q < c \<longrightarrow> \<not> vacant slot ns count s q)
           | Inl st \<Rightarrow> st = STATUS_INSUFFICIENT_MEMORY \<and> (\<forall>q. r + 1 \<le> q \<longrightarrow> \<not> vacant slot ns count s q)"
          by blast
        have e: "search_candidate slot False count start search_limit s = Returned x"
          using step found(1) False lim x(1) by simp
        have r1: "unat (r + 1) = Suc (unat r)" using \<open>r < slot_limit slot s\<close> by (metis unat_inc word_order.extremum_strict)
        have skip: "\<not> vacant slot ns count s q" if "start \<le> q" "\<not> r + 1 \<le> q" for q
        proof (cases "q = r")
          case False
          then have "q < r" using that(2) r1 by (auto simp: word_nat word_unat_eq_iff)
          then show ?thesis using that(1) found(6) by blast
        qed (simp add: nv)
        show ?thesis
        proof (cases x)
          case (Inl st)
          then show ?thesis using x(2) e skip by auto
        next
          case (Inr c)
          then have "start \<le> c" using x(2) r1 found(2) by (simp add: word_nat)
          then show ?thesis using x(2) e skip Inr by auto
        qed
      qed
    qed
  next
    case none
    then show ?thesis using step by simp
  qed
qed

lemma find_last_fit_spec:
  assumes "slot_list slot ns s" "pool_ok s" "count \<noteq> 0"
  obtains (found) r where "find_last_fit_before (slot_head slot s) (slot_base slot s) (slot_limit slot s) count search_limit s = Returned (Inr r)"
      "slot_base slot s \<le> r" "unat r + unat count \<le> unat (slot_limit slot s) + 1" "clear_at s ns (unat count) (unat r)"
  | (none) "find_last_fit_before (slot_head slot s) (slot_base slot s) (slot_limit slot s) count search_limit s = Returned (Inl STATUS_INSUFFICIENT_MEMORY)"
proof -
  let ?l = "slot_limit slot s + 1"
  let ?c = "if search_limit > ?l then ?l else search_limit"
  have l: "slot_limit slot s \<noteq> - 1" "unat ?l = unat (slot_limit slot s) + 1"
    using slot_list_parts(7) [OF assms(1)] by (simp_all add: unat_inc)
  note def = find_last_fit_before_def make_domain_limit_exclusive_def slot_chain [OF assms(1,2)]
  show thesis
  proof (cases "?c \<le> slot_base slot s")
    case True
    then show thesis using none assms(3) l(1) by (simp add: def)
  next
    case False
    let ?r = "last_fit_loop s ?c count (slot_base slot s) None ns"
    have e: "find_last_fit_before (slot_head slot s) (slot_base slot s) (slot_limit slot s) count search_limit s =
        Returned (case ?r of None \<Rightarrow> Inl STATUS_INSUFFICIENT_MEMORY | Some vpn \<Rightarrow> Inr vpn)"
      using False assms(3) l(1) by (simp add: def)
    have last: "is_last (places s ns (unat count) (unat (slot_base slot s)) (unat ?c)) None ?r"
      by (rule last_fit_loop_spec [OF slot_list_parts(4) [OF assms(1)] assms(3)])
    show thesis
    proof (cases ?r)
      case None
      then show thesis using none e by simp
    next
      case (Some r)
      then have "unat r \<in> places s ns (unat count) (unat (slot_base slot s)) (unat ?c)"
        using last by (auto simp: is_last_def split: if_split_asm)
      moreover have "unat ?c \<le> unat ?l" by (auto simp: word_nat)
      ultimately have "slot_base slot s \<le> r" "unat r + unat count \<le> unat (slot_limit slot s) + 1"
          "clear_at s ns (unat count) (unat r)"
        using l(2) by (auto simp: places_def word_nat)
      then show thesis using found [of r] e Some by simp
    qed
  qed
qed

lemma search_down:
  assumes "slot_list slot ns s" "pool_ok s" "count \<noteq> 0"
  shows "\<exists>r. search_candidate slot True count start search_limit s = Returned r \<and>
    (case r of Inr c \<Rightarrow> vacant slot ns count s c | Inl st \<Rightarrow> st = STATUS_INSUFFICIENT_MEMORY)"
proof (induction search_limit rule: measure_induct_rule [of unat])
  case (less search_limit)
  note step = search_candidate.simps [of slot True count start search_limit s]
  show ?case
  proof (cases rule: find_last_fit_spec [OF assms, of search_limit, case_names found none])
    case (found r)
    show ?thesis
    proof (cases "is_range_unmapped slot r (unat count) s")
      case True
      then have "vacant slot ns count s r" using found by (simp add: vacant_def word_nat)
      then show ?thesis using step found True by simp
    next
      case False
      have "unat r < unat search_limit" using find_last_fit_less [OF found(1)] by (simp add: word_nat)
      from less.IH [OF this] show ?thesis using step found(1) False by (cases "r \<le> slot_base slot s") simp_all
    qed
  next
    case none
    then show ?thesis using step by simp
  qed
qed

lemma search_candidate_spec:
  assumes "slot_list slot ns s" "pool_ok s" "count \<noteq> 0"
  obtains (found) c where "search_candidate slot topdown count start search_limit s = Returned (Inr c)" "vacant slot ns count s c"
      "\<And>q. \<not> topdown \<Longrightarrow> start \<le> q \<Longrightarrow> q < c \<Longrightarrow> \<not> vacant slot ns count s q"
  | (none) "search_candidate slot topdown count start search_limit s = Returned (Inl STATUS_INSUFFICIENT_MEMORY)"
      "\<And>q. \<not> topdown \<Longrightarrow> start \<le> q \<Longrightarrow> \<not> vacant slot ns count s q"
proof (cases topdown)
  case True
  obtain r where "search_candidate slot True count start search_limit s = Returned r"
      "case r of Inr c \<Rightarrow> vacant slot ns count s c | Inl st \<Rightarrow> st = STATUS_INSUFFICIENT_MEMORY"
    using search_down [OF assms, of start search_limit] by blast
  then show thesis using found none True by (cases r) auto
next
  case False
  obtain r where "search_candidate slot False count start search_limit s = Returned r"
      "case r of
         Inr c \<Rightarrow> vacant slot ns count s c \<and> start \<le> c \<and> (\<forall>q. start \<le> q \<and> q < c \<longrightarrow> \<not> vacant slot ns count s q)
       | Inl st \<Rightarrow> st = STATUS_INSUFFICIENT_MEMORY \<and> (\<forall>q. start \<le> q \<longrightarrow> \<not> vacant slot ns count s q)"
    using search_up [OF assms, of start search_limit] by blast
  then show thesis using found none False by (cases r) auto
qed

end
