(* ===== verification/Vmm_Ops.thy ===== *)
theory Vmm_Ops
  imports Vmm_Place
begin

text \<open>
  The operations on nodes keep the invariant of the virtual memory manager: taking a node
  from the pools, entering it into the lists of its owner and its domain, and taking it
  out again.
\<close>

section \<open>Accessors\<close>

named_theorems vm_simps \<open>accessors of the state of the virtual memory manager after an update\<close>

lemma slot_head_set [vm_simps]:
  "slot_head b (set_slot_head a h s) = (if a = b then h else slot_head b s)"
  "slot_head b (set_slot_free_count a c s) = slot_head b s"
  by (cases a; cases b; simp)+

lemma slot_base_set [vm_simps]:
  "slot_base b (set_slot_head a h s) = slot_base b s"
  "slot_base b (set_slot_free_count a c s) = slot_base b s"
  by (cases a; cases b; simp)+

lemma slot_limit_set [vm_simps]:
  "slot_limit b (set_slot_head a h s) = slot_limit b s"
  "slot_limit b (set_slot_free_count a c s) = slot_limit b s"
  by (cases a; cases b; simp)+

lemma slot_free_count_set [vm_simps]:
  "slot_free_count b (set_slot_head a h s) = slot_free_count b s"
  "slot_free_count b (set_slot_free_count a c s) = (if a = b then c else slot_free_count b s)"
  by (cases a; cases b; simp)+

text \<open>The fields of the state besides the nodes, the domains and the address spaces.\<close>

definition pool_view :: "vmm \<Rightarrow> nat \<times> node_ptr option \<times> nat \<times> nat \<times> nat list" where
  "pool_view s = (early_reservation_node_pool_used_count s, dynamic_reservation_node_freelist s,
     dynamic_reservation_node_free_count s, dynamic_reservation_node_total_count s,
     dynamic_reservation_node_slabs s)"

text \<open>The bounds and the owner of every slot, which no operation on reservations changes.\<close>

fun slot_ready :: "vm_slot \<Rightarrow> vmm \<Rightarrow> bool" where
  "slot_ready (GlobalSlot d) s = dom_initialized (reservation_domain_list s d)"
| "slot_ready (LocalSlot a) s = True"

fun slot_owner :: "vm_slot \<Rightarrow> nat option \<Rightarrow> vmm \<Rightarrow> nat option" where
  "slot_owner (GlobalSlot d) owner s = owner"
| "slot_owner (LocalSlot a) owner s = alloc_owner (asps s a)"

definition domain_view :: "vmm \<Rightarrow> vm_slot \<Rightarrow> uint64_t \<times> uint64_t \<times> bool \<times> (nat option \<Rightarrow> nat option)" where
  "domain_view s slot = (slot_base slot s, slot_limit slot s, slot_ready slot s, \<lambda>owner. slot_owner slot owner s)"

lemma domain_view_cong:
  "reservation_domain_list s' = reservation_domain_list s \<Longrightarrow> asps s' = asps s \<Longrightarrow> domain_view s' = domain_view s"
  by (rule ext, case_tac x) (simp_all add: domain_view_def)

lemma domain_view_simps [simp]:
  "domain_view (upd_node n f s) = domain_view s" "domain_view (s\<lparr>first_vmm_reservation := x\<rparr>) = domain_view s"
  "domain_view (s\<lparr>last_vmm_reservation := x\<rparr>) = domain_view s" "domain_view (s\<lparr>vm_mmu := m\<rparr>) = domain_view s"
  "domain_view (s\<lparr>interrupts_enabled := i\<rparr>) = domain_view s" "domain_view (s\<lparr>nodes := N\<rparr>) = domain_view s"
  "domain_view (s\<lparr>early_reservation_node_pool_used_count := k\<rparr>) = domain_view s"
  "domain_view (s\<lparr>dynamic_reservation_node_freelist := h\<rparr>) = domain_view s"
  "domain_view (s\<lparr>dynamic_reservation_node_free_count := k\<rparr>) = domain_view s"
  by (rule domain_view_cong; simp add: upd_node_def)+

lemma domain_view_set [simp]:
  "domain_view (set_slot_head a h s) = domain_view s" "domain_view (set_slot_free_count a c s) = domain_view s"
  by (rule ext, case_tac x; cases a; simp add: domain_view_def)+

text \<open>What an operation on reservations leaves alone: the page tables, the state of the processor, and
  the slots' bounds and owners.\<close>

definition cpu_view :: "vmm \<Rightarrow> (nat \<Rightarrow> nat \<Rightarrow> uint64_t) \<times> (nat \<Rightarrow> nat) \<times> uint32_t \<times> bool \<times>
    (vm_slot \<Rightarrow> uint64_t \<times> uint64_t \<times> bool \<times> (nat option \<Rightarrow> nat option))" where
  "cpu_view s = (phys_mem (vm_mmu s), root_table_pfn (vm_mmu s), preemption_depth (vm_pmm s), interrupts_enabled s, domain_view s)"

lemma set_slot_fields [vm_simps]:
  "nodes (set_slot_head a h s) = nodes s" "nodes (set_slot_free_count a c s) = nodes s"
  "vm_mmu (set_slot_head a h s) = vm_mmu s" "vm_mmu (set_slot_free_count a c s) = vm_mmu s"
  "interrupts_enabled (set_slot_head a h s) = interrupts_enabled s"
  "interrupts_enabled (set_slot_free_count a c s) = interrupts_enabled s"
  "pool_view (set_slot_head a h s) = pool_view s" "pool_view (set_slot_free_count a c s) = pool_view s"
  by (cases a; simp add: pool_view_def)+

lemma set_slot_cpu_view [vm_simps]:
  "cpu_view (set_slot_head a h s) = cpu_view s" "cpu_view (set_slot_free_count a c s) = cpu_view s"
  by (simp_all add: cpu_view_def vm_pmm_def vm_simps)

lemma upd_node_fields [vm_simps]:
  "nodes (upd_node n f s) = (nodes s)(n := f (nodes s n))"
  "slot_head b (upd_node n f s) = slot_head b s" "slot_base b (upd_node n f s) = slot_base b s"
  "slot_limit b (upd_node n f s) = slot_limit b s" "slot_free_count b (upd_node n f s) = slot_free_count b s"
  "vm_mmu (upd_node n f s) = vm_mmu s" "pool_view (upd_node n f s) = pool_view s"
  "vm_pmm (upd_node n f s) = vm_pmm s" "interrupts_enabled (upd_node n f s) = interrupts_enabled s"
  by (cases b; simp add: upd_node_def pool_view_def vm_pmm_def)+

lemma upd_node_cpu_view [vm_simps]: "cpu_view (upd_node n f s) = cpu_view s"
  by (simp add: cpu_view_def vm_simps)

text \<open>What the invariant reads of a node.\<close>

definition node_view :: "vmm_reservation_node \<Rightarrow>
    uint64_t \<times> uint64_t \<times> node_ptr option \<times> node_ptr option \<times> bool \<times> uint64_t \<times> nat option \<times> nat" where
  "node_view nd = (base_vpn nd, limit_vpn nd, domain_prev nd, domain_next nd, is_live nd,
     guard_page_count nd, node_asp nd, node_domain nd)"

text \<open>The figures of a slot.\<close>

definition slot_view :: "vm_slot \<Rightarrow> vmm \<Rightarrow> node_ptr option \<times> uint64_t \<times> uint64_t \<times> uint64_t" where
  "slot_view slot s = (slot_head slot s, slot_base slot s, slot_limit slot s, slot_free_count slot s)"

lemma handed_out_cong: "pool_view s' = pool_view s \<Longrightarrow> handed_out s' = handed_out s"
  by (rule ext) (simp add: handed_out_def pool_view_def split: node_ptr.split)

lemma ranges_ok_cong:
  "(\<And>n. n \<in> set ns \<Longrightarrow> lo s' n = lo s n \<and> hi s' n = hi s n) \<Longrightarrow> ranges_ok s' ns = ranges_ok s ns"
  by (induction ns) auto

lemma slot_list_cong:
  assumes "\<And>n. n \<in> set ns \<Longrightarrow> node_view (nodes s' n) = node_view (nodes s n)"
    and "slot_view slot s' = slot_view slot s" "\<And>n. handed_out s n \<Longrightarrow> handed_out s' n"
    and "slot_list slot ns s"
  shows "slot_list slot ns s'"
proof -
  have v: "lo s' n = lo s n" "hi s' n = hi s n" "domain_prev (nodes s' n) = domain_prev (nodes s n)"
      "domain_next (nodes s' n) = domain_next (nodes s n)" "is_live (nodes s' n) = is_live (nodes s n)"
      "guard_page_count (nodes s' n) = guard_page_count (nodes s n)" "node_asp (nodes s' n) = node_asp (nodes s n)"
      "node_domain (nodes s' n) = node_domain (nodes s n)" if "n \<in> set ns" for n
    using assms(1) [OF that] by (simp_all add: node_view_def)
  have sl: "slot_head slot s' = slot_head slot s" "slot_base slot s' = slot_base slot s"
      "slot_limit slot s' = slot_limit slot s" "slot_free_count slot s' = slot_free_count slot s"
    using assms(2) by (simp_all add: slot_view_def)
  have "linked (nodes s') None (slot_head slot s) ns = linked (nodes s) None (slot_head slot s) ns"
    using v by (intro linked_cong) simp
  moreover have "ranges_ok s' ns = ranges_ok s ns"
    using v by (intro ranges_ok_cong) auto
  moreover have "guards_ok s' ns = guards_ok s ns" unfolding guards_ok_def using v by simp
  moreover have "(\<Sum>n\<leftarrow>ns. hi s' n - lo s' n) = (\<Sum>n\<leftarrow>ns. hi s n - lo s n)"
    using v by (intro arg_cong [where f = sum_list] map_cong) auto
  moreover have "node_ok slot s' n" if "n \<in> set ns" "node_ok slot s n" for n
    using that v assms(3) sl by (simp add: node_ok_def)
  ultimately show ?thesis using assms(4) sl by (simp add: slot_list_def)
qed

lemma pool_ok_cong:
  assumes "pool_view s' = pool_view s"
    and "\<And>n. \<not> is_live (nodes s n) \<Longrightarrow> is_live (nodes s' n) = is_live (nodes s n) \<and> domain_next (nodes s' n) = domain_next (nodes s n)"
    and "pool_ok s"
  shows "pool_ok s'"
proof -
  obtain fl where fl: "free_linked (nodes s) (dynamic_reservation_node_freelist s) fl" "distinct fl"
      "length fl = dynamic_reservation_node_free_count s"
      "\<forall>n\<in>set fl. (\<exists>f i. n = DynNode f i) \<and> handed_out s n \<and> \<not> is_live (nodes s n)"
    using assms(3) by (auto simp: pool_ok_def)
  have "free_linked (nodes s') (dynamic_reservation_node_freelist s) fl"
    using fl(1,4) assms(2) by (subst free_linked_cong [of fl "nodes s'" "nodes s"]) auto
  moreover have "\<forall>n\<in>set fl. (\<exists>f i. n = DynNode f i) \<and> handed_out s' n \<and> \<not> is_live (nodes s' n)"
    using fl(4) assms(2) by (simp add: handed_out_cong [OF assms(1)])
  ultimately show ?thesis using fl(2,3) assms(1,3) unfolding pool_ok_def pool_view_def by auto
qed

section \<open>Owner lists leave the domains alone\<close>

text \<open>Nothing but the owners and the links of the owner lists differs.\<close>

definition same_domains :: "vmm \<Rightarrow> vmm \<Rightarrow> bool" where
  "same_domains s s' \<longleftrightarrow> (\<forall>n. node_view (nodes s' n) = node_view (nodes s n)) \<and>
     (\<forall>slot. slot_view slot s' = slot_view slot s) \<and> pool_view s' = pool_view s \<and> cpu_view s' = cpu_view s"

lemma same_domains_refl [simp]: "same_domains s s" by (simp add: same_domains_def)

lemma same_domains_trans: "same_domains s s1 \<Longrightarrow> same_domains s1 s2 \<Longrightarrow> same_domains s s2"
  by (simp add: same_domains_def)

lemma same_domains_upd:
  "(\<And>nd. node_view (f nd) = node_view nd) \<Longrightarrow> same_domains s (upd_node n f s)"
  by (simp add: same_domains_def slot_view_def vm_simps)

lemma same_domains_owner_ends [simp]:
  "same_domains s (s\<lparr>first_vmm_reservation := x\<rparr>)" "same_domains s (s\<lparr>last_vmm_reservation := x\<rparr>)"
  by (simp_all add: same_domains_def slot_view_def pool_view_def cpu_view_def vm_pmm_def, (intro allI, case_tac slot, simp_all)+)

lemma same_domains_owners [simp]:
  "same_domains s (set_vm_pmm ((vm_pmm s)\<lparr>owners := x\<rparr>) s)"
  by (simp add: same_domains_def slot_view_def pool_view_def cpu_view_def vm_pmm_def set_vm_pmm_def) (intro allI, case_tac slot, simp_all)

lemma attach_same_domains: "attach_owner_node n owner s = (s', st) \<Longrightarrow> same_domains s s'"
proof -
  assume a: "attach_owner_node n owner s = (s', st)"
  let ?s1 = "upd_node n (\<lambda>nd. nd\<lparr>node_owner := None, owner_prev := None, owner_next := None\<rparr>) s"
  have 1: "same_domains s ?s1" by (rule same_domains_upd) (simp add: node_view_def)
  show ?thesis
  proof (cases owner)
    case None
    then show ?thesis using a 1 by (simp add: attach_owner_node_def)
  next
    case (Some ow)
    show ?thesis
    proof (cases "StAllocationOwner_IsClosed (owners (vm_pmm ?s1) ow)")
      case True
      then show ?thesis using a 1 Some by (simp add: attach_owner_node_def)
    next
      case False
      let ?s2 = "set_vm_pmm ((vm_pmm ?s1)\<lparr>owners := (owners (vm_pmm ?s1))
                      (ow := StAllocationOwner_Acquire (owners (vm_pmm ?s1) ow))\<rparr>) ?s1"
      let ?s3 = "upd_node n (\<lambda>nd. nd\<lparr>node_owner := Some ow, owner_prev := last_vmm_reservation ?s2 ow\<rparr>) ?s2"
      let ?s4 = "case last_vmm_reservation ?s2 ow of
                       Some l \<Rightarrow> upd_node l (owner_next_update (\<lambda>_. Some n)) ?s3
                     | None \<Rightarrow> ?s3\<lparr>first_vmm_reservation := (first_vmm_reservation ?s3)(ow := Some n)\<rparr>"
      have 2: "same_domains ?s1 ?s2" by simp
      have 3: "same_domains ?s2 ?s3" by (rule same_domains_upd) (simp add: node_view_def)
      have 4: "same_domains ?s3 ?s4"
        by (cases "last_vmm_reservation ?s2 ow") (auto intro!: same_domains_upd simp: node_view_def)
      have "s' = ?s4\<lparr>last_vmm_reservation := (last_vmm_reservation ?s4)(ow := Some n)\<rparr>"
        using a False Some by (simp add: attach_owner_node_def Let_def)
      then show ?thesis using same_domains_trans [OF 1 same_domains_trans [OF 2 same_domains_trans [OF 3 same_domains_trans [OF 4]]]]
        by simp
    qed
  qed
qed

lemma detach_same_domains: "same_domains s (detach_owner_node n s)"
proof (cases "node_owner (nodes s n)")
  case None
  then show ?thesis by (simp add: detach_owner_node_def)
next
  case (Some ow)
  let ?prev = "owner_prev (nodes s n)"
  let ?nxt = "owner_next (nodes s n)"
  let ?s1 = "case ?prev of
                     Some p \<Rightarrow> upd_node p (owner_next_update (\<lambda>_. ?nxt)) s
                   | None \<Rightarrow> s\<lparr>first_vmm_reservation := (first_vmm_reservation s)(ow := ?nxt)\<rparr>"
  let ?s2 = "case ?nxt of
                     Some m \<Rightarrow> upd_node m (owner_prev_update (\<lambda>_. ?prev)) ?s1
                   | None \<Rightarrow> ?s1\<lparr>last_vmm_reservation := (last_vmm_reservation ?s1)(ow := ?prev)\<rparr>"
  let ?s3 = "upd_node n (\<lambda>nd. nd\<lparr>node_owner := None, owner_prev := None, owner_next := None\<rparr>) ?s2"
  have 1: "same_domains s ?s1" by (cases ?prev) (auto intro!: same_domains_upd simp: node_view_def)
  have 2: "same_domains ?s1 ?s2" by (cases ?nxt) (auto intro!: same_domains_upd simp: node_view_def)
  have 3: "same_domains ?s2 ?s3" by (rule same_domains_upd) (simp add: node_view_def)
  have "detach_owner_node n s = set_vm_pmm ((vm_pmm ?s3)\<lparr>owners := (owners (vm_pmm ?s3))
               (ow := StAllocationOwner_Release (owners (vm_pmm ?s3) ow))\<rparr>) ?s3"
    using Some by (simp add: detach_owner_node_def Let_def)
  then show ?thesis using same_domains_trans [OF 1 same_domains_trans [OF 2 same_domains_trans [OF 3]]] by simp
qed

lemma same_domainsD:
  assumes "same_domains s s'"
  shows "node_view (nodes s' n) = node_view (nodes s n)" "slot_view slot s' = slot_view slot s"
    "pool_view s' = pool_view s" "cpu_view s' = cpu_view s" "handed_out s' = handed_out s"
  using assms handed_out_cong [of s' s] by (simp_all add: same_domains_def)

lemma same_domains_slot_list:
  assumes "same_domains s s'" "slot_list slot ns s"
  shows "slot_list slot ns s'"
proof (rule slot_list_cong [OF _ _ _ assms(2)])
  show "node_view (nodes s' n) = node_view (nodes s n)" for n by (rule same_domainsD [OF assms(1)])
  show "slot_view slot s' = slot_view slot s" by (rule same_domainsD [OF assms(1)])
  show "handed_out s n \<Longrightarrow> handed_out s' n" for n by (simp add: same_domainsD [OF assms(1)])
qed

lemma same_domains_pool:
  assumes "same_domains s s'" "pool_ok s"
  shows "pool_ok s'"
proof (rule pool_ok_cong [OF _ _ assms(2)])
  show "pool_view s' = pool_view s" by (rule same_domainsD [OF assms(1)])
  show "is_live (nodes s' n) = is_live (nodes s n) \<and> domain_next (nodes s' n) = domain_next (nodes s n)" for n
    using same_domainsD(1) [OF assms(1), of n] by (simp add: node_view_def)
qed

end
