(* ===== verification/Vmm_Keep.thy ===== *)
theory Vmm_Keep
  imports Vmm_Ops
begin

text \<open>
  Reservation and release keep the invariant of the virtual memory manager: nodes move between the
  pools and the lists, the lists stay linked, sorted and disjoint, and the free counts stay right.
\<close>

section \<open>The free list of the dynamic pool\<close>

definition pool_list :: "node_ptr list \<Rightarrow> vmm \<Rightarrow> bool" where
  "pool_list fl s \<longleftrightarrow>
     early_reservation_node_pool_used_count s \<le> EARLY_RESERVATION_NODE_POOL_COUNT \<and>
     dynamic_reservation_node_total_count s = NODES_PER_PAGE * length (dynamic_reservation_node_slabs s) \<and>
     free_linked (nodes s) (dynamic_reservation_node_freelist s) fl \<and> distinct fl \<and>
     length fl = dynamic_reservation_node_free_count s \<and>
     (\<forall>n\<in>set fl. (\<exists>f i. n = DynNode f i) \<and> handed_out s n \<and> \<not> is_live (nodes s n))"

lemma pool_ok_list: "pool_ok s \<longleftrightarrow> (\<exists>fl. pool_list fl s)"
  by (auto simp: pool_ok_def pool_list_def)

lemma pool_listI:
  assumes "pool_list fl s" "pool_view s' = pool_view s"
    and "\<And>n. n \<in> set fl \<Longrightarrow> \<not> is_live (nodes s' n) \<and> domain_next (nodes s' n) = domain_next (nodes s n)"
  shows "pool_list fl s'"
proof -
  have "free_linked (nodes s') (dynamic_reservation_node_freelist s) fl"
    using assms(1,3) by (subst free_linked_cong [of fl "nodes s'" "nodes s"]) (auto simp: pool_list_def)
  then show ?thesis
    using assms(1,3) handed_out_cong [OF assms(2)] assms(2) by (simp add: pool_list_def pool_view_def)
qed

text \<open>A node can be had without asking for a frame.\<close>

definition node_ready :: "vmm \<Rightarrow> bool" where
  "node_ready s \<longleftrightarrow>
     (\<exists>i<early_reservation_node_pool_used_count s. \<not> is_live (nodes s (EarlyNode i))) \<or>
     early_reservation_node_pool_used_count s < EARLY_RESERVATION_NODE_POOL_COUNT \<or>
     DYNAMIC_RESERVATION_NODE_LOW_WATERMARK < dynamic_reservation_node_free_count s"

text \<open>What the making of a node does: the node was not in use and is not on the free list.\<close>

definition made_node :: "vmm \<Rightarrow> node_ptr \<Rightarrow> vmm \<Rightarrow> bool" where
  "made_node s n s' \<longleftrightarrow>
     nodes s' = (nodes s)(n := zero_node) \<and> handed_out s' n \<and> (handed_out s n \<longrightarrow> \<not> is_live (nodes s n)) \<and>
     (\<forall>m. handed_out s m \<longrightarrow> handed_out s' m) \<and>
     (\<forall>slot. slot_view slot s' = slot_view slot s) \<and> cpu_view s' = cpu_view s \<and> vm_mmu s' = vm_mmu s \<and>
     (\<exists>fl. pool_list fl s' \<and> n \<notin> set fl)"

lemma slot_view_other [simp]:
  "slot_view slot (s\<lparr>early_reservation_node_pool_used_count := x\<rparr>) = slot_view slot s"
  "slot_view slot (s\<lparr>dynamic_reservation_node_freelist := p, dynamic_reservation_node_free_count := c\<rparr>) = slot_view slot s"
  by (cases slot; simp add: slot_view_def)+

lemma slot_view_upd_node [simp]: "slot_view slot (upd_node n f s) = slot_view slot s"
  by (simp add: slot_view_def vm_simps)

lemma made_early:
  assumes "pool_list fl s" "i \<le> early_reservation_node_pool_used_count s" "i < EARLY_RESERVATION_NODE_POOL_COUNT"
    and "handed_out s (EarlyNode i) \<Longrightarrow> \<not> is_live (nodes s (EarlyNode i))"
    and "u = max (early_reservation_node_pool_used_count s) (i + 1)"
  shows "made_node s (EarlyNode i) ((upd_node (EarlyNode i) (\<lambda>_. zero_node) s)\<lparr>early_reservation_node_pool_used_count := u\<rparr>)"
    (is "made_node s ?n ?s'")
proof -
  have h: "handed_out ?s' m = (m = ?n \<or> handed_out s m)" for m
    using assms(2,5) by (cases m) (auto simp: handed_out_def upd_node_def)
  have n: "nodes ?s' = (nodes s)(?n := zero_node)" by (simp add: upd_node_def)
  have fl: "?n \<notin> set fl" using assms(1) by (auto simp: pool_list_def)
  have "free_linked (nodes ?s') (dynamic_reservation_node_freelist s) fl"
    using assms(1) fl by (subst free_linked_cong [of fl "nodes ?s'" "nodes s"]) (auto simp: n pool_list_def)
  then have "pool_list fl ?s'"
    using assms(1,3,5) fl h unfolding pool_list_def n by (auto simp: upd_node_def)
  moreover have "cpu_view ?s' = cpu_view s" "vm_mmu ?s' = vm_mmu s" by (simp_all add: cpu_view_def upd_node_def vm_pmm_def)
  ultimately show ?thesis using assms(4) fl h n unfolding made_node_def by auto
qed

lemma pop_made:
  assumes "pool_list (n # fl) s"
  shows "\<exists>s'. pop_dynamic_reservation_node s = (Some n, s') \<and> made_node s n (upd_node n (\<lambda>_. zero_node) s')"
proof -
  let ?s1 = "(upd_node n (domain_next_update (\<lambda>_. None)) s)
             \<lparr>dynamic_reservation_node_freelist := domain_next (nodes s n),
              dynamic_reservation_node_free_count := dynamic_reservation_node_free_count s - 1\<rparr>"
  let ?s' = "upd_node n (\<lambda>_. zero_node) ?s1"
  have p: "dynamic_reservation_node_freelist s = Some n" "free_linked (nodes s) (domain_next (nodes s n)) fl"
      "n \<notin> set fl" "handed_out s n" "\<not> is_live (nodes s n)"
    using assms by (auto simp: pool_list_def)
  have n: "nodes ?s' = (nodes s)(n := zero_node)" by (simp add: upd_node_def)
  have h: "handed_out ?s' = handed_out s"
    by (rule ext) (simp add: handed_out_def upd_node_def split: node_ptr.split)
  have "free_linked (nodes ?s') (domain_next (nodes s n)) fl"
    using p(2,3) by (subst free_linked_cong [of fl "nodes ?s'" "nodes s"]) (auto simp: upd_node_def)
  then have "pool_list fl ?s'" using assms p(3) h unfolding pool_list_def by (auto simp: upd_node_def)
  moreover have "cpu_view ?s' = cpu_view s" "vm_mmu ?s' = vm_mmu s" by (simp_all add: cpu_view_def upd_node_def vm_pmm_def)
  moreover have "slot_view slot ?s' = slot_view slot s" for slot by simp
  ultimately have "made_node s n ?s'" using p(3-5) h n unfolding made_node_def by metis
  then show ?thesis using p(1) by (simp add: pop_dynamic_reservation_node_def)
qed

lemma create_node:
  assumes "pool_ok s" "node_ready s"
  shows "\<exists>s' n. create_reservation_node s = Returned (s', Inr n) \<and> made_node s n s'"
proof -
  obtain fl where fl: "pool_list fl s" using assms(1) by (auto simp: pool_ok_list)
  let ?u = "early_reservation_node_pool_used_count s"
  have u: "?u \<le> EARLY_RESERVATION_NODE_POOL_COUNT" using fl by (simp add: pool_list_def)
  show ?thesis
  proof (cases "find (\<lambda>i. \<not> is_live (nodes s (EarlyNode i))) [0..<?u]")
    case (Some i)
    then have i: "i < ?u" "\<not> is_live (nodes s (EarlyNode i))" by (auto simp: find_Some_iff)
    have "made_node s (EarlyNode i) ((upd_node (EarlyNode i) (\<lambda>_. zero_node) s)\<lparr>early_reservation_node_pool_used_count := ?u\<rparr>)"
      by (rule made_early [OF fl]) (use i u in auto)
    moreover have "(upd_node (EarlyNode i) (\<lambda>_. zero_node) s)\<lparr>early_reservation_node_pool_used_count := ?u\<rparr>
        = upd_node (EarlyNode i) (\<lambda>_. zero_node) s" by (simp add: upd_node_def)
    ultimately show ?thesis using Some by (simp add: create_reservation_node_def)
  next
    case None
    show ?thesis
    proof (cases "?u < EARLY_RESERVATION_NODE_POOL_COUNT")
      case True
      have "made_node s (EarlyNode ?u) ((upd_node (EarlyNode ?u) (\<lambda>_. zero_node) s)\<lparr>early_reservation_node_pool_used_count := ?u + 1\<rparr>)"
        by (rule made_early [OF fl]) (use True in \<open>auto simp: handed_out_def\<close>)
      then show ?thesis using None True by (simp add: create_reservation_node_def Let_def)
    next
      case False
      then have c: "DYNAMIC_RESERVATION_NODE_LOW_WATERMARK < dynamic_reservation_node_free_count s"
        using assms(2) None by (auto simp: node_ready_def find_None_iff)
      then obtain n fl' where "fl = n # fl'" using fl by (cases fl) (auto simp: pool_list_def)
      then obtain s' where "pop_dynamic_reservation_node s = (Some n, s')" "made_node s n (upd_node n (\<lambda>_. zero_node) s')"
        using pop_made fl by blast
      then show ?thesis using None False c
        by (auto simp: create_reservation_node_def maybe_topup_dynamic_reservation_node_pool_def Let_def)
    qed
  qed
qed

section \<open>Entering a node into a list\<close>

text \<open>What the invariant reads of a node besides its links.\<close>

definition node_data :: "vmm_reservation_node \<Rightarrow> uint64_t \<times> uint64_t \<times> bool \<times> uint64_t \<times> nat option \<times> nat" where
  "node_data nd = (base_vpn nd, limit_vpn nd, is_live nd, guard_page_count nd, node_asp nd, node_domain nd)"

lemma node_view_data: "node_view nd' = node_view nd \<longleftrightarrow>
    node_data nd' = node_data nd \<and> domain_prev nd' = domain_prev nd \<and> domain_next nd' = domain_next nd"
  by (auto simp: node_view_def node_data_def)

lemma insert_position_split:
  assumes "ranges_ok s ns" "clear_at s ns c (unat v)" "0 < c"
  shows "\<exists>xs ys. ns = xs @ ys \<and> insert_position s v p ns = (last_ptr p xs, head_ptr ys) \<and>
    (\<forall>m\<in>set xs. hi s m \<le> unat v) \<and> (\<forall>m\<in>set ys. unat v + c \<le> lo s m)"
  using assms
proof (induction ns arbitrary: p)
  case (Cons n ns)
  have n: "lo s n < hi s n" "\<forall>m\<in>set ns. hi s n \<le> lo s m" "unat v + c \<le> lo s n \<or> hi s n \<le> unat v"
    using Cons.prems by simp_all
  show ?case
  proof (cases "base_vpn (nodes s n) < v")
    case True
    then have "hi s n \<le> unat v" using n(1,3) by (auto simp: word_nat)
    moreover obtain xs ys where "ns = xs @ ys" "insert_position s v (Some n) ns = (last_ptr (Some n) xs, head_ptr ys)"
        "\<forall>m\<in>set xs. hi s m \<le> unat v" "\<forall>m\<in>set ys. unat v + c \<le> lo s m"
      using Cons.IH [of "Some n"] Cons.prems by auto
    ultimately have "n # ns = (n # xs) @ ys \<and> insert_position s v p (n # ns) = (last_ptr p (n # xs), head_ptr ys) \<and>
        (\<forall>m\<in>set (n # xs). hi s m \<le> unat v) \<and> (\<forall>m\<in>set ys. unat v + c \<le> lo s m)"
      using True by simp
    then show ?thesis by blast
  next
    case False
    then have ge: "unat v + c \<le> lo s n" using n(1,3) Cons.prems(3) by (auto simp: word_nat)
    then have "unat v + c \<le> lo s m" if "m \<in> set ns" for m using n(1,2) that by fastforce
    then have "n # ns = [] @ (n # ns) \<and> insert_position s v p (n # ns) = (last_ptr p [], head_ptr (n # ns)) \<and>
        (\<forall>m\<in>set []. hi s m \<le> unat v) \<and> (\<forall>m\<in>set (n # ns). unat v + c \<le> lo s m)"
      using False ge by simp
    then show ?thesis by blast
  qed
qed simp

text \<open>The links after a node is entered between \<open>xs\<close> and \<open>ys\<close>.\<close>

definition entered :: "vm_slot \<Rightarrow> node_ptr list \<Rightarrow> node_ptr \<Rightarrow> node_ptr list \<Rightarrow> vmm \<Rightarrow> vmm \<Rightarrow> bool" where
  "entered slot xs n ys s s' \<longleftrightarrow>
     (\<forall>m. node_data (nodes s' m) = node_data (nodes s m)) \<and>
     domain_prev (nodes s' n) = last_ptr None xs \<and> domain_next (nodes s' n) = head_ptr ys \<and>
     (\<forall>m. m \<noteq> n \<longrightarrow>
        domain_next (nodes s' m) = (if xs \<noteq> [] \<and> m = last xs then Some n else domain_next (nodes s m)) \<and>
        domain_prev (nodes s' m) = (if ys \<noteq> [] \<and> m = hd ys then Some n else domain_prev (nodes s m))) \<and>
     slot_head slot s' = (if xs = [] then Some n else slot_head slot s) \<and>
     (\<forall>b. slot_base b s' = slot_base b s \<and> slot_limit b s' = slot_limit b s \<and> slot_free_count b s' = slot_free_count b s) \<and>
     (\<forall>b. b \<noteq> slot \<longrightarrow> slot_head b s' = slot_head b s) \<and>
     pool_view s' = pool_view s \<and> cpu_view s' = cpu_view s"

lemma insert_entered:
  assumes "node_chain s (slot_head slot s) = Returned (xs @ ys)" "n \<notin> set (xs @ ys)" "distinct (xs @ ys)"
    and "insert_position s (base_vpn (nodes s n)) None (xs @ ys) = (last_ptr None xs, head_ptr ys)"
    and "\<And>m. m \<in> set ys \<Longrightarrow> base_vpn (nodes s m) \<noteq> base_vpn (nodes s n)"
  shows "\<exists>s'. insert_domain_node_sorted slot n s = Returned (s', STATUS_SUCCESS) \<and> entered slot xs n ys s s'"
proof -
  let ?s1 = "upd_node n (\<lambda>nd. nd\<lparr>domain_prev := last_ptr None xs, domain_next := head_ptr ys\<rparr>) s"
  let ?s2 = "case last_ptr None xs of
               Some p \<Rightarrow> upd_node p (domain_next_update (\<lambda>_. Some n)) ?s1
             | None \<Rightarrow> set_slot_head slot (Some n) ?s1"
  let ?s3 = "case head_ptr ys of
               Some c \<Rightarrow> upd_node c (domain_prev_update (\<lambda>_. Some n)) ?s2
             | None \<Rightarrow> ?s2"
  have "\<not> (case head_ptr ys of None \<Rightarrow> False | Some c \<Rightarrow> base_vpn (nodes s c) = base_vpn (nodes s n))"
    using assms(5) by (cases ys) auto
  then have "insert_domain_node_sorted slot n s = Returned (?s3, STATUS_SUCCESS)"
    using assms(1,4) by (simp add: insert_domain_node_sorted_def Let_def)
  moreover have "entered slot xs n ys s ?s3"
  proof (cases "xs = []")
    case True
    then show ?thesis using assms(2)
      by (cases ys) (auto simp: entered_def vm_simps node_data_def)
  next
    case False
    then have "last xs \<in> set xs" by simp
    then have "last xs \<noteq> n" "last xs \<notin> set ys" using assms(2,3) unfolding distinct_append set_append by blast+
    moreover have "last_ptr None xs = Some (last xs)" using False by (simp add: last_ptr_def)
    ultimately show ?thesis using assms(2) False
      by (cases ys) (auto simp: entered_def vm_simps node_data_def)
  qed
  ultimately show ?thesis by blast
qed

text \<open>A list with a new node is a list of the slot again.\<close>

lemma slot_list_entered:
  assumes "slot_list slot (xs @ ys) s" "entered slot xs n ys s s1" "n \<notin> set (xs @ ys)"
    and "unat (base_vpn (nodes s n)) < unat (limit_vpn (nodes s n))"
    and "\<forall>m\<in>set xs. hi s m \<le> lo s n" "\<forall>m\<in>set ys. hi s n \<le> lo s m"
    and "node_ok slot s n" "unat (guard_page_count (nodes s n)) < hi s n - lo s n"
    and "hi s n - lo s n \<le> unat (slot_free_count slot s)"
    and "unat c = unat (slot_free_count slot s) - (hi s n - lo s n)"
  shows "slot_list slot (xs @ n # ys) (set_slot_free_count slot c s1)"
proof -
  let ?s' = "set_slot_free_count slot c s1"
  note e = assms(2) [unfolded entered_def]
  have d: "lo ?s' m = lo s m" "hi ?s' m = hi s m" "is_live (nodes ?s' m) = is_live (nodes s m)"
      "guard_page_count (nodes ?s' m) = guard_page_count (nodes s m)" "node_asp (nodes ?s' m) = node_asp (nodes s m)"
      "node_domain (nodes ?s' m) = node_domain (nodes s m)" for m
    using e by (simp_all add: vm_simps node_data_def)
  have sl: "slot_head slot ?s' = (if xs = [] then Some n else slot_head slot s)" "slot_base slot ?s' = slot_base slot s"
      "slot_limit slot ?s' = slot_limit slot s" "slot_free_count slot ?s' = c"
    using e by (simp_all add: vm_simps)
  have h: "handed_out ?s' = handed_out s" by (rule handed_out_cong) (use e in \<open>simp add: vm_simps\<close>)
  note l = slot_list_parts [OF assms(1)]
  have dist: "distinct (xs @ n # ys)" using l(2) assms(3) by auto
  have "linked (nodes ?s') None (slot_head slot ?s') (xs @ n # ys)"
    unfolding sl(1)
  proof (rule linked_insert [OF l(1,2)])
    show "domain_prev (nodes ?s' n) = last_ptr None xs" "domain_next (nodes ?s' n) = head_ptr ys"
      using e by (simp_all add: vm_simps)
    fix m
    show "domain_prev (nodes ?s' m) = domain_prev (nodes s m) \<and>
        domain_next (nodes ?s' m) = (if m = last xs then Some n else domain_next (nodes s m))" if "m \<in> set xs"
    proof -
      have "m \<noteq> n" "\<not> (ys \<noteq> [] \<and> m = hd ys)" "xs \<noteq> []" using that dist hd_in_set [of ys] by auto
      then show ?thesis using e by (auto simp: vm_simps)
    qed
    show "domain_next (nodes ?s' m) = domain_next (nodes s m) \<and>
        domain_prev (nodes ?s' m) = (if m = hd ys then Some n else domain_prev (nodes s m))" if "m \<in> set ys"
    proof -
      have "m \<noteq> n" "\<not> (xs \<noteq> [] \<and> m = last xs)" "ys \<noteq> []" using that dist by (auto simp: disjoint_iff)
      then show ?thesis using e by (auto simp: vm_simps)
    qed
  qed
  moreover have "node_ok slot ?s' m" if "m \<in> set (xs @ n # ys)" for m
    using l(3) [of m] assms(7) that d h sl by (auto simp: node_ok_def)
  moreover have "ranges_ok ?s' (xs @ n # ys)"
    using l(4) assms(4-6) ranges_ok_cong [of _ ?s' s] d by (simp add: ranges_ok_append)
  moreover have "guards_ok ?s' (xs @ n # ys)" using l(5) assms(8) d by (auto simp: guards_ok_def)
  moreover have "(\<Sum>m\<leftarrow>xs @ n # ys. hi ?s' m - lo ?s' m) + unat c = unat (slot_limit slot s) - unat (slot_base slot s) + 1"
    using assms(1,9,10) d by (simp add: slot_list_def)
  ultimately show ?thesis using l(6,7) sl dist by (simp add: slot_list_def)
qed

section \<open>Releasing a node\<close>

lemma release_node:
  assumes "pool_list fl s" "n \<notin> set fl" "handed_out s n"
  shows "pool_ok (release_reservation_node n s)" "\<And>m. m \<noteq> n \<Longrightarrow> nodes (release_reservation_node n s) m = nodes s m"
    "slot_view slot (release_reservation_node n s) = slot_view slot s"
    "cpu_view (release_reservation_node n s) = cpu_view s" "handed_out (release_reservation_node n s) = handed_out s"
proof -
  let ?s1 = "upd_node n (is_live_update (\<lambda>_. False)) s"
  let ?s' = "release_reservation_node n s"
  have p1: "pool_list fl ?s1"
    by (rule pool_listI [OF assms(1)]) (use assms(1,2) in \<open>auto simp: vm_simps pool_list_def\<close>)
  show "handed_out ?s' = handed_out s"
    by (rule ext) (simp add: release_reservation_node_def push_dynamic_reservation_node_def handed_out_def upd_node_def Let_def
      split: node_ptr.split)
  show m: "nodes ?s' m = nodes s m" if "m \<noteq> n" for m
    using that by (simp add: release_reservation_node_def push_dynamic_reservation_node_def upd_node_def Let_def)
  show "slot_view slot ?s' = slot_view slot s"
    by (simp add: release_reservation_node_def push_dynamic_reservation_node_def Let_def)
  show "cpu_view ?s' = cpu_view s"
    by (simp add: release_reservation_node_def push_dynamic_reservation_node_def Let_def cpu_view_def upd_node_def vm_pmm_def)
  show "pool_ok ?s'"
  proof (cases n)
    case (EarlyNode i)
    then have "?s' = ?s1" by (simp add: release_reservation_node_def)
    then show ?thesis using p1 by (auto simp: pool_ok_list)
  next
    case (DynNode f i)
    then have "is_node_in_dynamic_pool n ?s1"
      using assms(3) by (simp add: handed_out_def upd_node_def NODES_PER_PAGE_def PAGE_SIZE_def SIZEOF_NODE_def)
    then have e: "?s' = push_dynamic_reservation_node n ?s1" by (simp add: release_reservation_node_def Let_def)
    have h: "handed_out ?s' k = handed_out s k" for k
      by (simp add: e push_dynamic_reservation_node_def handed_out_def upd_node_def split: node_ptr.split)
    have nd: "nodes ?s' k = (if k = n then (nodes s n)\<lparr>is_live := False, domain_next := dynamic_reservation_node_freelist s\<rparr>
        else nodes s k)" for k
      by (simp add: e push_dynamic_reservation_node_def upd_node_def)
    have "free_linked (nodes ?s') (dynamic_reservation_node_freelist s) fl"
      using assms(1,2) by (subst free_linked_cong [of fl "nodes ?s'" "nodes s"]) (auto simp: nd pool_list_def)
    moreover have f: "dynamic_reservation_node_freelist ?s' = Some n"
        "dynamic_reservation_node_free_count ?s' = dynamic_reservation_node_free_count s + 1"
        "early_reservation_node_pool_used_count ?s' = early_reservation_node_pool_used_count s"
        "dynamic_reservation_node_total_count ?s' = dynamic_reservation_node_total_count s"
        "dynamic_reservation_node_slabs ?s' = dynamic_reservation_node_slabs s"
      by (simp_all add: e push_dynamic_reservation_node_def upd_node_def)
    moreover have "\<exists>f i. n = DynNode f i" using DynNode by blast
    moreover have "\<forall>k\<in>set fl. (\<exists>f i. k = DynNode f i) \<and> handed_out s k \<and> \<not> is_live (nodes s k) \<and> k \<noteq> n"
      using assms(1,2) by (auto simp: pool_list_def)
    ultimately have "pool_list (n # fl) ?s'"
      using assms by (simp add: pool_list_def h nd)
    then show ?thesis by (auto simp: pool_ok_list)
  qed
qed

section \<open>Placing a reservation\<close>

lemma not_listed:
  assumes "slot_list c ms s" "handed_out s n \<longrightarrow> \<not> is_live (nodes s n)"
  shows "n \<notin> set ms"
  using slot_list_parts(3) [OF assms(1), of n] assms(2) by (auto simp: node_ok_def)

lemma slot_list_elsewhere:
  assumes "slot_list c ms s" "\<And>m. m \<in> set ms \<Longrightarrow> nodes s' m = nodes s m" "slot_view c s' = slot_view c s"
    and "\<And>m. handed_out s m \<Longrightarrow> handed_out s' m"
  shows "slot_list c ms s'"
  by (rule slot_list_cong [OF _ assms(3,4,1)]) (simp_all add: assms(2))

text \<open>The state in which the new node is ready to be entered.\<close>

definition prepared :: "vmm \<Rightarrow> node_ptr \<Rightarrow> node_ptr list \<Rightarrow> vmm \<Rightarrow> bool" where
  "prepared s n fl s' \<longleftrightarrow>
     pool_list fl s' \<and> n \<notin> set fl \<and> handed_out s' n \<and> (\<forall>m. m \<noteq> n \<longrightarrow> node_view (nodes s' m) = node_view (nodes s m)) \<and>
     (handed_out s n \<longrightarrow> \<not> is_live (nodes s n)) \<and> (\<forall>m. handed_out s m \<longrightarrow> handed_out s' m) \<and>
     (\<forall>slot. slot_view slot s' = slot_view slot s) \<and> cpu_view s' = cpu_view s"

lemma prepared_lists:
  assumes "prepared s n fl s'" "slot_list c ms s"
  shows "slot_list c ms s'" "n \<notin> set ms"
proof -
  show n: "n \<notin> set ms" using not_listed [OF assms(2)] assms(1) by (simp add: prepared_def)
  show "slot_list c ms s'"
    by (rule slot_list_cong [OF _ _ _ assms(2)]) (use n assms(1) in \<open>auto simp: prepared_def\<close>)
qed

lemma made_prepared:
  assumes "made_node s n s1"
  obtains fl where "prepared s n fl (upd_node n F s1)"
proof -
  obtain fl where fl: "pool_list fl s1" "n \<notin> set fl" using assms by (auto simp: made_node_def)
  have "pool_list fl (upd_node n F s1)"
    by (rule pool_listI [OF fl(1)]) (use fl in \<open>auto simp: vm_simps pool_list_def\<close>)
  moreover have "handed_out (upd_node n F s1) = handed_out s1" by (rule handed_out_cong) (simp add: vm_simps)
  ultimately have "prepared s n fl (upd_node n F s1)"
    using assms fl(2) by (simp add: prepared_def made_node_def vm_simps)
  then show thesis by (rule that)
qed

lemma prepared_same:
  assumes "prepared s n fl s1" "same_domains s1 s2"
  shows "prepared s n fl s2"
proof -
  have "pool_list fl s2"
    by (rule pool_listI [of fl s1])
      (use assms(1) same_domainsD [OF assms(2)] in \<open>auto simp: prepared_def pool_list_def node_view_def\<close>)
  then show ?thesis using assms(1) same_domainsD [OF assms(2)] by (simp add: prepared_def)
qed

lemma entered_view:
  assumes "entered slot xs n ys s s'" "m \<notin> set (xs @ n # ys)"
  shows "node_view (nodes s' m) = node_view (nodes s m)"
proof -
  have "m \<noteq> n" "\<not> (xs \<noteq> [] \<and> m = last xs)" "\<not> (ys \<noteq> [] \<and> m = hd ys)" using assms(2) by auto
  then show ?thesis using assms(1) unfolding entered_def node_view_data by auto
qed

lemma entered_others:
  assumes "entered slot xs n ys s s1" "slot_list slot (xs @ ys) s" "slot_list c ms s" "n \<notin> set ms" "c \<noteq> slot"
  shows "slot_list c ms (set_slot_free_count slot k s1)"
proof (rule slot_list_cong [OF _ _ _ assms(3)])
  show "node_view (nodes (set_slot_free_count slot k s1) m) = node_view (nodes s m)" if "m \<in> set ms" for m
  proof -
    have "m \<notin> set (xs @ ys)"
      using node_in_one_slot slot_list_parts(3) [OF assms(2), of m] slot_list_parts(3) [OF assms(3) that] assms(5) by blast
    then have "m \<notin> set (xs @ n # ys)" using assms(4) that by auto
    then show ?thesis using entered_view [OF assms(1)] by (simp add: vm_simps)
  qed
  show "slot_view c (set_slot_free_count slot k s1) = slot_view c s"
    using assms(1,5) by (simp add: slot_view_def vm_simps entered_def)
  show "handed_out (set_slot_free_count slot k s1) m" if "handed_out s m" for m
    using that handed_out_cong [of "set_slot_free_count slot k s1" s] assms(1) by (simp add: vm_simps entered_def)
qed

lemma entered_pool:
  assumes "entered slot xs n ys s s1" "slot_list slot (xs @ ys) s" "pool_list fl s" "n \<notin> set fl"
  shows "pool_list fl (set_slot_free_count slot k s1)"
proof (rule pool_listI [OF assms(3)])
  show "pool_view (set_slot_free_count slot k s1) = pool_view s" using assms(1) by (simp add: vm_simps entered_def)
  fix m
  assume m: "m \<in> set fl"
  then have "\<not> is_live (nodes s m)" using assms(3) by (simp add: pool_list_def)
  moreover then have "m \<notin> set (xs @ n # ys)"
    using slot_list_parts(3) [OF assms(2), of m] assms(4) m by (auto simp: node_ok_def)
  ultimately show "\<not> is_live (nodes (set_slot_free_count slot k s1) m) \<and>
      domain_next (nodes (set_slot_free_count slot k s1) m) = domain_next (nodes s m)"
    using entered_view [OF assms(1)] by (simp add: vm_simps node_view_def)
qed

text \<open>The state after a reservation is entered, against the one before: \<open>placed\<close> with the new node, and
  \<open>undisturbed\<close> when no node was entered.\<close>

definition undisturbed :: "vmm \<Rightarrow> vmm \<Rightarrow> bool" where
  "undisturbed s s' \<longleftrightarrow> pool_ok s' \<and> cpu_view s' = cpu_view s \<and>
     (\<forall>c ms. slot_list c ms s \<longrightarrow> slot_list c ms s' \<and> (\<forall>m\<in>set ms. node_data (nodes s' m) = node_data (nodes s m)))"

definition placed :: "vm_slot \<Rightarrow> node_ptr list \<Rightarrow> node_ptr \<Rightarrow> vmm \<Rightarrow> vmm \<Rightarrow> bool" where
  "placed slot ns n s s' \<longleftrightarrow> pool_ok s' \<and> cpu_view s' = cpu_view s \<and>
     (\<exists>xs ys. ns = xs @ ys \<and> slot_list slot (xs @ n # ys) s') \<and> n \<notin> set ns \<and>
     (\<forall>m\<in>set ns. node_data (nodes s' m) = node_data (nodes s m)) \<and>
     (\<forall>c ms. c \<noteq> slot \<longrightarrow> slot_list c ms s \<longrightarrow> slot_list c ms s' \<and> (\<forall>m\<in>set ms. node_data (nodes s' m) = node_data (nodes s m)))"

lemma prepared_released:
  assumes "prepared s n fl s1"
  shows "undisturbed s (release_reservation_node n s1)"
proof -
  have p: "pool_list fl s1" "n \<notin> set fl" "handed_out s1 n" using assms by (simp_all add: prepared_def)
  note r = release_node [OF p]
  have "slot_list c ms (release_reservation_node n s1) \<and> (\<forall>m\<in>set ms. node_data (nodes (release_reservation_node n s1) m) = node_data (nodes s m))"
    if "slot_list c ms s" for c ms
  proof -
    note l = prepared_lists [OF assms that]
    have "slot_list c ms (release_reservation_node n s1)"
    proof (rule slot_list_elsewhere [OF l(1)])
      show "nodes (release_reservation_node n s1) m = nodes s1 m" if "m \<in> set ms" for m
        using r(2) [of m] l(2) that by blast
    qed (simp_all add: r(3,5))
    moreover have "node_data (nodes (release_reservation_node n s1) m) = node_data (nodes s m)" if "m \<in> set ms" for m
    proof -
      have "m \<noteq> n" using l(2) that by auto
      then show ?thesis using r(2) [of m] assms by (simp add: prepared_def node_view_data)
    qed
    ultimately show ?thesis by blast
  qed
  moreover have "cpu_view (release_reservation_node n s1) = cpu_view s" using r(4) assms by (simp add: prepared_def)
  ultimately show ?thesis using r(1) by (simp add: undisturbed_def)
qed

lemma prepared_placed:
  assumes "prepared s n fl s1" "slot_list slot ns s" "node_ok slot s1 n" "lo s1 n < hi s1 n"
    and "clear_at s ns (hi s1 n - lo s1 n) (lo s1 n)" "unat (guard_page_count (nodes s1 n)) < hi s1 n - lo s1 n"
    and "hi s1 n - lo s1 n \<le> unat (slot_free_count slot s)" "unat total_count = hi s1 n - lo s1 n"
  shows "\<exists>s2. insert_domain_node_sorted slot n s1 = Returned (s2, STATUS_SUCCESS) \<and>
    placed slot ns n s (set_slot_free_count slot (slot_free_count slot s2 - total_count) s2) \<and>
    node_data (nodes s2 n) = node_data (nodes s1 n)"
proof -
  note l = prepared_lists [OF assms(1,2)]
  have p: "pool_list fl s1" "n \<notin> set fl" "pool_ok s1" "cpu_view s1 = cpu_view s" "slot_view slot s1 = slot_view slot s"
    using assms(1) by (auto simp: prepared_def pool_ok_list)
  have view: "node_view (nodes s1 m) = node_view (nodes s m)" if "m \<noteq> n" for m
    using assms(1) that by (simp add: prepared_def)
  then have data: "node_data (nodes s1 m) = node_data (nodes s m)" if "m \<noteq> n" for m using that by (simp add: node_view_data)
  have lohi: "lo s1 m = lo s m" "hi s1 m = hi s m" if "m \<in> set ns" for m
    using data [of m] l(2) that by (cases "m = n"; simp add: node_data_def)+
  have "clear_at s1 ns (hi s1 n - lo s1 n) (lo s1 n)" using assms(5) lohi by (simp add: clear_at_def)
  then obtain xs ys where ns: "ns = xs @ ys" "insert_position s1 (base_vpn (nodes s1 n)) None ns = (last_ptr None xs, head_ptr ys)"
      "\<forall>m\<in>set xs. hi s1 m \<le> lo s1 n" "\<forall>m\<in>set ys. lo s1 n + (hi s1 n - lo s1 n) \<le> lo s1 m"
    using insert_position_split [OF slot_list_parts(4) [OF l(1)]] assms(4) by (metis zero_less_diff)
  have ys: "hi s1 n \<le> lo s1 m" if "m \<in> set ys" for m using ns(4) assms(4) that by auto
  have "base_vpn (nodes s1 m) \<noteq> base_vpn (nodes s1 n)" if "m \<in> set ys" for m using ys [OF that] assms(4) by auto
  then obtain s2 where s2: "insert_domain_node_sorted slot n s1 = Returned (s2, STATUS_SUCCESS)" "entered slot xs n ys s1 s2"
    using insert_entered [of s1 slot xs ys n] slot_chain [OF l(1) p(3)] slot_list_parts(2) [OF l(1)] l(2) ns(1,2) by blast
  let ?k = "slot_free_count slot s2 - total_count"
  have fc: "slot_free_count slot s2 = slot_free_count slot s" "slot_free_count slot s1 = slot_free_count slot s"
    using s2(2) p(5) by (simp_all add: entered_def slot_view_def)
  then have k: "unat ?k = unat (slot_free_count slot s1) - (hi s1 n - lo s1 n)" using assms(7,8) by (simp add: unat_sub64)
  have "slot_list slot (xs @ n # ys) (set_slot_free_count slot ?k s2)"
    by (rule slot_list_entered [OF _ s2(2) _ assms(4) ns(3) _ assms(3,6) _ k]) (use l ns(1) ys assms(7) fc in auto)
  moreover have "pool_list fl (set_slot_free_count slot ?k s2)"
    by (rule entered_pool [OF s2(2) _ p(1,2)]) (use l(1) ns(1) in simp)
  moreover have "slot_list c ms (set_slot_free_count slot ?k s2)" if "c \<noteq> slot" "slot_list c ms s" for c ms
    by (rule entered_others [OF s2(2)]) (use l(1) ns(1) that prepared_lists [OF assms(1) that(2)] in auto)
  moreover have kept: "\<forall>m\<in>set ms. node_data (nodes s2 m) = node_data (nodes s m)" if "slot_list c ms s" for c ms
  proof
    fix m
    assume "m \<in> set ms"
    then have "m \<noteq> n" using prepared_lists(2) [OF assms(1) that] by auto
    then show "node_data (nodes s2 m) = node_data (nodes s m)" using data s2(2) by (simp add: entered_def)
  qed
  moreover note kept [OF assms(2)]
  moreover have "cpu_view (set_slot_free_count slot ?k s2) = cpu_view s"
    using s2(2) p(4) by (simp add: vm_simps entered_def)
  ultimately have "placed slot ns n s (set_slot_free_count slot ?k s2)"
    using ns(1) l(2) unfolding placed_def pool_ok_list by (auto simp: vm_simps)
  moreover have "node_data (nodes s2 n) = node_data (nodes s1 n)" using s2(2) by (simp add: entered_def)
  ultimately show ?thesis using s2(1) by blast
qed

end
