(* ===== verification/Mm.thy ===== *)
theory Mm
  imports Vmm_Api
begin

text \<open>
  The memory manager proper (\<^verbatim>\<open>strata/mm/mm.c\<close>), which ties frames, page tables and reservations
  together: mapping, contiguous and sparse allocation, reservation and commitment, page faults,
  release, and the closing of an allocation owner. The copies in and out of an address space
  (\<^verbatim>\<open>strata/arch/amd64/pc/mm.c\<close>) are here because they call the fault handler.

  The functions for global domains and for address spaces that differ only in the calls they make
  share the parts that take a slot.
\<close>

section \<open>Calls of the layers below\<close>

definition on_mmu :: "(mmu \<Rightarrow> (mmu \<times> 'a) outcome) \<Rightarrow> vmm \<Rightarrow> (vmm \<times> 'a) outcome" where
  "on_mmu f s = obind (f (vm_mmu s)) (\<lambda>(m, r). Returned (s\<lparr>vm_mmu := m\<rparr>, r))"

definition mm_allocate ::
  "nat \<Rightarrow> uint64_t \<Rightarrow> nat option \<Rightarrow> uint32_t \<Rightarrow> vmm \<Rightarrow> (vmm \<times> StStatus \<times> nat) outcome" where
  "mm_allocate pfn count owner alloc_flags s =
     obind (StPmm_AllocateContiguousFrame pfn (unat count) owner alloc_flags (vm_pmm s))
       (\<lambda>(p, status, pfn). Returned (set_vm_pmm p s, status, pfn))"

definition mm_free :: "nat \<Rightarrow> vmm \<Rightarrow> vmm outcome" where
  "mm_free pfn s = obind (StPmm_FreeContiguousFrame pfn (vm_pmm s)) (\<lambda>p. Returned (set_vm_pmm p s))"

fun slot_map :: "vm_slot \<Rightarrow> nat \<Rightarrow> uint64_t \<Rightarrow> uint64_t \<Rightarrow> uint32_t \<Rightarrow> vmm \<Rightarrow> (vmm \<times> StStatus) outcome" where
  "slot_map (GlobalSlot d) pfn vpn count map_flags s =
     on_mmu (StMmP_MapGlobalContiguousMemory (of_nat pfn) vpn count map_flags) s"
| "slot_map (LocalSlot a) pfn vpn count map_flags s =
     on_mmu (StMmP_MapLocalContiguousMemory a (of_nat pfn) vpn count map_flags) s"

fun slot_unmap :: "vm_slot \<Rightarrow> uint64_t \<Rightarrow> uint64_t \<Rightarrow> vmm \<Rightarrow> vmm outcome" where
  "slot_unmap (GlobalSlot d) vpn count s =
     obind (StMmP_UnmapGlobalContiguousMemory vpn count (vm_mmu s)) (\<lambda>m. Returned (s\<lparr>vm_mmu := m\<rparr>))"
| "slot_unmap (LocalSlot a) vpn count s =
     obind (StMmP_UnmapLocalContiguousMemory a vpn count (vm_mmu s)) (\<lambda>m. Returned (s\<lparr>vm_mmu := m\<rparr>))"

fun slot_release :: "vm_slot \<Rightarrow> uint64_t \<Rightarrow> uint64_t \<Rightarrow> vmm \<Rightarrow> vmm outcome" where
  "slot_release (GlobalSlot d) vpn count s = StVmm_ReleaseGlobalPage d vpn count s"
| "slot_release (LocalSlot a) vpn count s = StVmm_ReleaseLocalPage (Some a) vpn count s"

fun slot_reserve_to ::
  "vm_slot \<Rightarrow> uint64_t \<Rightarrow> uint64_t \<Rightarrow> nat option \<Rightarrow> uint32_t \<Rightarrow> uint32_t \<Rightarrow> vmm \<Rightarrow> (vmm \<times> StStatus) outcome" where
  "slot_reserve_to (GlobalSlot d) vpn count owner alloc_flags map_flags s =
     StVmm_ReserveGlobalPageTo d vpn count owner alloc_flags map_flags s"
| "slot_reserve_to (LocalSlot a) vpn count owner alloc_flags map_flags s =
     StVmm_ReserveLocalPageTo (Some a) vpn count alloc_flags map_flags s"

fun slot_reserve ::
  "vm_slot \<Rightarrow> uint64_t \<Rightarrow> nat option \<Rightarrow> uint32_t \<Rightarrow> uint32_t \<Rightarrow> vmm
     \<Rightarrow> (vmm \<times> (StStatus + uint64_t)) outcome" where
  "slot_reserve (GlobalSlot d) count owner alloc_flags map_flags s =
     StVmm_ReserveGlobalPage d count owner alloc_flags map_flags s"
| "slot_reserve (LocalSlot a) count owner alloc_flags map_flags s =
     StVmm_ReserveLocalPage (Some a) count alloc_flags map_flags s"

definition StMm_Init :: "vmm \<Rightarrow> vmm \<times> StStatus" where
  "StMm_Init s = (case StAddressSpaceP_InitBase (vm_mmu s) of (m, status) \<Rightarrow> (s\<lparr>vm_mmu := m\<rparr>, status))"

definition StMm_GlobalVirtPageToPhysFrame :: "uint64_t \<Rightarrow> vmm \<Rightarrow> StStatus + nat" where
  "StMm_GlobalVirtPageToPhysFrame vpn s = StMmP_GlobalVirtPageToPhysFrame vpn (vm_mmu s)"

definition StMm_LocalVirtPageToPhysFrame :: "nat \<Rightarrow> uint64_t \<Rightarrow> vmm \<Rightarrow> StStatus + nat" where
  "StMm_LocalVirtPageToPhysFrame a vpn s = StMmP_LocalVirtPageToPhysFrame a vpn (vm_mmu s)"

section \<open>Mapping given frames\<close>

text \<open>A reservation at a place the VMM chooses, mapped to the given frames; the reservation is given
  up when the mapping fails.\<close>

definition map_reserved ::
  "vm_slot \<Rightarrow> nat \<Rightarrow> uint64_t \<Rightarrow> nat option \<Rightarrow> uint32_t \<Rightarrow> uint32_t \<Rightarrow> vmm
     \<Rightarrow> (vmm \<times> (StStatus + uint64_t)) outcome" where
  "map_reserved slot pfn count owner alloc_flags map_flags s =
     obind (slot_reserve slot count owner (alloc_flags OR AF_VMM_RESERVATION_MAP) map_flags s) (\<lambda>(s, r).
       case r of
         Inl status \<Rightarrow> Returned (s, Inl status)
       | Inr vpn \<Rightarrow>
           obind (slot_map slot pfn vpn count map_flags s) (\<lambda>(s, status).
             if \<not> CHECK_SUCCESS status
             then obind (slot_release slot vpn count s) (\<lambda>s. Returned (s, Inl status))
             else Returned (s, Inr vpn)))"

definition map_reserved_to ::
  "vm_slot \<Rightarrow> uint64_t \<Rightarrow> nat \<Rightarrow> uint64_t \<Rightarrow> nat option \<Rightarrow> uint32_t \<Rightarrow> uint32_t \<Rightarrow> vmm
     \<Rightarrow> (vmm \<times> StStatus) outcome" where
  "map_reserved_to slot vpn pfn count owner alloc_flags map_flags s =
     on_success (slot_reserve_to slot vpn count owner (alloc_flags OR AF_VMM_RESERVATION_MAP) map_flags s) (\<lambda>s.
       obind (slot_map slot pfn vpn count map_flags s) (\<lambda>(s, status).
         if \<not> CHECK_SUCCESS status
         then obind (slot_release slot vpn count s) (\<lambda>s. Returned (s, status))
         else Returned (s, STATUS_SUCCESS)))"

definition StMm_MapGlobal ::
  "nat \<Rightarrow> nat \<Rightarrow> uint64_t \<Rightarrow> nat option \<Rightarrow> uint32_t \<Rightarrow> uint32_t \<Rightarrow> vmm
     \<Rightarrow> (vmm \<times> (StStatus + uint64_t)) outcome" where
  "StMm_MapGlobal domain pfn count owner alloc_flags map_flags =
     map_reserved (GlobalSlot domain) pfn count owner alloc_flags map_flags"

definition StMm_MapLocal ::
  "nat option \<Rightarrow> nat \<Rightarrow> uint64_t \<Rightarrow> uint32_t \<Rightarrow> uint32_t \<Rightarrow> vmm \<Rightarrow> (vmm \<times> (StStatus + uint64_t)) outcome" where
  "StMm_MapLocal asp pfn count alloc_flags map_flags s =
     (case asp of
        None \<Rightarrow> Returned (s, Inl STATUS_INVALID_VALUE)
      | Some a \<Rightarrow> map_reserved (LocalSlot a) pfn count None alloc_flags map_flags s)"

definition StMm_MapGlobalTo ::
  "nat \<Rightarrow> uint64_t \<Rightarrow> nat \<Rightarrow> uint64_t \<Rightarrow> nat option \<Rightarrow> uint32_t \<Rightarrow> uint32_t \<Rightarrow> vmm \<Rightarrow> (vmm \<times> StStatus) outcome" where
  "StMm_MapGlobalTo domain vpn pfn count owner alloc_flags map_flags =
     map_reserved_to (GlobalSlot domain) vpn pfn count owner alloc_flags map_flags"

definition StMm_MapLocalTo ::
  "nat option \<Rightarrow> uint64_t \<Rightarrow> nat \<Rightarrow> uint64_t \<Rightarrow> uint32_t \<Rightarrow> uint32_t \<Rightarrow> vmm \<Rightarrow> (vmm \<times> StStatus) outcome" where
  "StMm_MapLocalTo asp vpn pfn count alloc_flags map_flags s =
     (case asp of
        None \<Rightarrow> Returned (s, STATUS_INVALID_VALUE)
      | Some a \<Rightarrow> map_reserved_to (LocalSlot a) vpn pfn count None alloc_flags map_flags s)"

definition StMm_UnmapGlobal :: "nat \<Rightarrow> uint64_t \<Rightarrow> uint64_t \<Rightarrow> vmm \<Rightarrow> vmm outcome" where
  "StMm_UnmapGlobal domain vpn count s =
     obind (slot_unmap (GlobalSlot domain) vpn count s) (slot_release (GlobalSlot domain) vpn count)"

definition StMm_UnmapLocal :: "nat option \<Rightarrow> uint64_t \<Rightarrow> uint64_t \<Rightarrow> vmm \<Rightarrow> vmm outcome" where
  "StMm_UnmapLocal asp vpn count s =
     (case asp of
        None \<Rightarrow> Returned s
      | Some a \<Rightarrow> obind (slot_unmap (LocalSlot a) vpn count s) (slot_release (LocalSlot a) vpn count))"

section \<open>Contiguous allocation\<close>

text \<open>The label \<^verbatim>\<open>has_error\<close>: the reservation, if there is one, and the frames are given back.\<close>

definition undo_contiguous ::
  "vm_slot \<Rightarrow> (uint64_t \<times> uint64_t) option \<Rightarrow> nat \<Rightarrow> vmm \<Rightarrow> vmm outcome" where
  "undo_contiguous slot reserved pfn s =
     obind (case reserved of None \<Rightarrow> Returned s | Some (vpn, count) \<Rightarrow> slot_release slot vpn count s)
       (\<lambda>s. if pfn \<noteq> INVALID_PFN then mm_free pfn s else Returned s)"

definition allocate_contiguous ::
  "vm_slot \<Rightarrow> uint64_t \<Rightarrow> nat option \<Rightarrow> uint32_t \<Rightarrow> uint32_t \<Rightarrow> uint32_t \<Rightarrow> vmm
     \<Rightarrow> (vmm \<times> (StStatus + uint64_t)) outcome" where
  "allocate_contiguous slot count owner alloc_flags reserve_flags map_flags s =
     obind (mm_allocate INVALID_PFN count owner alloc_flags s) (\<lambda>(s, status, pfn).
       if \<not> CHECK_SUCCESS status
       then obind (undo_contiguous slot None pfn s) (\<lambda>s. Returned (s, Inl status))
       else obind (slot_reserve slot count owner reserve_flags map_flags s) (\<lambda>(s, r).
         case r of
           Inl status \<Rightarrow> obind (undo_contiguous slot None pfn s) (\<lambda>s. Returned (s, Inl status))
         | Inr vpn \<Rightarrow>
             obind (slot_map slot pfn vpn count map_flags s) (\<lambda>(s, status).
               if \<not> CHECK_SUCCESS status
               then obind (undo_contiguous slot (Some (vpn, count)) pfn s) (\<lambda>s. Returned (s, Inl status))
               else Returned (s, Inr vpn))))"

definition StMm_AllocateGlobalContiguous ::
  "nat \<Rightarrow> uint64_t \<Rightarrow> nat option \<Rightarrow> uint32_t \<Rightarrow> uint32_t \<Rightarrow> vmm
     \<Rightarrow> (vmm \<times> (StStatus + uint64_t)) outcome" where
  "StMm_AllocateGlobalContiguous domain count owner alloc_flags map_flags =
     allocate_contiguous (GlobalSlot domain) count owner alloc_flags
       (alloc_flags OR AF_VMM_RESERVATION_SPARSE) map_flags"

definition StMm_AllocateLocalContiguous ::
  "nat option \<Rightarrow> uint64_t \<Rightarrow> uint32_t \<Rightarrow> uint32_t \<Rightarrow> vmm \<Rightarrow> (vmm \<times> (StStatus + uint64_t)) outcome" where
  "StMm_AllocateLocalContiguous asp count alloc_flags map_flags s =
     (case asp of
        None \<Rightarrow> Returned (s, Inl STATUS_INVALID_VALUE)
      | Some a \<Rightarrow>
          allocate_contiguous (LocalSlot a) count (alloc_owner (asps s a)) alloc_flags alloc_flags
            map_flags s)"

definition allocate_contiguous_to ::
  "vm_slot \<Rightarrow> uint64_t \<Rightarrow> uint64_t \<Rightarrow> nat option \<Rightarrow> uint32_t \<Rightarrow> uint32_t \<Rightarrow> uint32_t \<Rightarrow> vmm
     \<Rightarrow> (vmm \<times> StStatus) outcome" where
  "allocate_contiguous_to slot vpn count owner alloc_flags reserve_flags map_flags s =
     obind (mm_allocate INVALID_PFN count owner alloc_flags s) (\<lambda>(s, status, pfn).
       if \<not> CHECK_SUCCESS status
       then obind (undo_contiguous slot None pfn s) (\<lambda>s. Returned (s, status))
       else obind (slot_reserve_to slot vpn count owner reserve_flags map_flags s) (\<lambda>(s, status).
         if \<not> CHECK_SUCCESS status
         then obind (undo_contiguous slot None pfn s) (\<lambda>s. Returned (s, status))
         else obind (slot_map slot pfn vpn count map_flags s) (\<lambda>(s, status).
           if \<not> CHECK_SUCCESS status
           then obind (undo_contiguous slot (Some (vpn, count)) pfn s) (\<lambda>s. Returned (s, status))
           else Returned (s, STATUS_SUCCESS))))"

definition StMm_AllocateGlobalContiguousTo ::
  "nat \<Rightarrow> uint64_t \<Rightarrow> uint64_t \<Rightarrow> nat option \<Rightarrow> uint32_t \<Rightarrow> uint32_t \<Rightarrow> vmm \<Rightarrow> (vmm \<times> StStatus) outcome" where
  "StMm_AllocateGlobalContiguousTo domain vpn count owner alloc_flags map_flags s =
     (if \<not> IS_GLOBAL_VPN vpn then Returned (s, STATUS_INVALID_VALUE)
      else allocate_contiguous_to (GlobalSlot domain) vpn count owner alloc_flags
             (alloc_flags OR AF_VMM_RESERVATION_SPARSE) map_flags s)"

definition StMm_AllocateLocalContiguousTo ::
  "nat option \<Rightarrow> uint64_t \<Rightarrow> uint64_t \<Rightarrow> uint32_t \<Rightarrow> uint32_t \<Rightarrow> vmm \<Rightarrow> (vmm \<times> StStatus) outcome" where
  "StMm_AllocateLocalContiguousTo asp vpn count alloc_flags map_flags s =
     (case asp of
        None \<Rightarrow> Returned (s, STATUS_INVALID_VALUE)
      | Some a \<Rightarrow>
          if \<not> IS_LOCAL_VPN vpn then Returned (s, STATUS_INVALID_VALUE)
          else allocate_contiguous_to (LocalSlot a) vpn count (alloc_owner (asps s a)) alloc_flags
                 alloc_flags map_flags s)"

section \<open>Reservations without frames\<close>

definition StMm_ReserveGlobalContiguous ::
  "nat \<Rightarrow> uint64_t \<Rightarrow> nat option \<Rightarrow> uint32_t \<Rightarrow> uint32_t \<Rightarrow> vmm
     \<Rightarrow> (vmm \<times> (StStatus + uint64_t)) outcome" where
  "StMm_ReserveGlobalContiguous domain count owner alloc_flags map_flags =
     StVmm_ReserveGlobalPage domain count owner alloc_flags map_flags"

definition StMm_ReserveLocalContiguous ::
  "nat option \<Rightarrow> uint64_t \<Rightarrow> uint32_t \<Rightarrow> uint32_t \<Rightarrow> vmm \<Rightarrow> (vmm \<times> (StStatus + uint64_t)) outcome" where
  "StMm_ReserveLocalContiguous asp count alloc_flags map_flags =
     StVmm_ReserveLocalPage asp count alloc_flags map_flags"

definition StMm_ReserveGlobalSparse ::
  "nat \<Rightarrow> uint64_t \<Rightarrow> nat option \<Rightarrow> uint32_t \<Rightarrow> uint32_t \<Rightarrow> vmm
     \<Rightarrow> (vmm \<times> (StStatus + uint64_t)) outcome" where
  "StMm_ReserveGlobalSparse domain count owner alloc_flags map_flags =
     StVmm_ReserveGlobalPage domain count owner (alloc_flags OR AF_VMM_RESERVATION_SPARSE) map_flags"

definition StMm_ReserveLocalSparse ::
  "nat option \<Rightarrow> uint64_t \<Rightarrow> uint32_t \<Rightarrow> uint32_t \<Rightarrow> vmm \<Rightarrow> (vmm \<times> (StStatus + uint64_t)) outcome" where
  "StMm_ReserveLocalSparse asp count alloc_flags map_flags =
     StVmm_ReserveLocalPage asp count (alloc_flags OR AF_VMM_RESERVATION_SPARSE) map_flags"

definition StMm_ReserveGlobalContiguousTo ::
  "nat \<Rightarrow> uint64_t \<Rightarrow> uint64_t \<Rightarrow> nat option \<Rightarrow> uint32_t \<Rightarrow> uint32_t \<Rightarrow> vmm \<Rightarrow> (vmm \<times> StStatus) outcome" where
  "StMm_ReserveGlobalContiguousTo domain vpn count owner alloc_flags map_flags =
     StVmm_ReserveGlobalPageTo domain vpn count owner alloc_flags map_flags"

definition StMm_ReserveLocalContiguousTo ::
  "nat option \<Rightarrow> uint64_t \<Rightarrow> uint64_t \<Rightarrow> uint32_t \<Rightarrow> uint32_t \<Rightarrow> vmm \<Rightarrow> (vmm \<times> StStatus) outcome" where
  "StMm_ReserveLocalContiguousTo asp vpn count alloc_flags map_flags =
     StVmm_ReserveLocalPageTo asp vpn count alloc_flags map_flags"

definition StMm_ReserveGlobalSparseTo ::
  "nat \<Rightarrow> uint64_t \<Rightarrow> uint64_t \<Rightarrow> nat option \<Rightarrow> uint32_t \<Rightarrow> uint32_t \<Rightarrow> vmm \<Rightarrow> (vmm \<times> StStatus) outcome" where
  "StMm_ReserveGlobalSparseTo domain vpn count owner alloc_flags map_flags =
     StVmm_ReserveGlobalPageTo domain vpn count owner (alloc_flags OR AF_VMM_RESERVATION_SPARSE) map_flags"

definition StMm_ReserveLocalSparseTo ::
  "nat option \<Rightarrow> uint64_t \<Rightarrow> uint64_t \<Rightarrow> uint32_t \<Rightarrow> uint32_t \<Rightarrow> vmm \<Rightarrow> (vmm \<times> StStatus) outcome" where
  "StMm_ReserveLocalSparseTo asp vpn count alloc_flags map_flags =
     StVmm_ReserveLocalPageTo asp vpn count (alloc_flags OR AF_VMM_RESERVATION_SPARSE) map_flags"

section \<open>Map flags\<close>

definition StMm_SetGlobalPageMapFlags ::
  "uint64_t \<Rightarrow> uint64_t \<Rightarrow> uint32_t \<Rightarrow> vmm \<Rightarrow> (vmm \<times> StStatus) outcome" where
  "StMm_SetGlobalPageMapFlags vpn count mapflags s =
     (if \<not> IS_GLOBAL_VPN vpn then Returned (s, STATUS_INVALID_VALUE)
      else on_success (on_mmu (StMmP_RemapGlobalContiguousMemory vpn count mapflags) s)
             (\<lambda>s. Returned (s, STATUS_SUCCESS)))"

definition StMm_SetLocalPageMapFlags ::
  "nat option \<Rightarrow> uint64_t \<Rightarrow> uint64_t \<Rightarrow> uint32_t \<Rightarrow> vmm \<Rightarrow> (vmm \<times> StStatus) outcome" where
  "StMm_SetLocalPageMapFlags asp vpn count mapflags s =
     (if \<not> IS_LOCAL_VPN vpn then Returned (s, STATUS_INVALID_VALUE)
      else on_success (StVmm_SetLocalPageReservationMapFlags asp vpn count mapflags s) (\<lambda>s.
        case asp of
          None \<Rightarrow> Undefined
        | Some a \<Rightarrow>
            on_success (on_mmu (StMmP_RemapLocalContiguousMemory a vpn count mapflags) s)
              (\<lambda>s. Returned (s, STATUS_SUCCESS))))"

definition StMm_GetGlobalPageMapFlags :: "uint64_t \<Rightarrow> vmm \<Rightarrow> StStatus + uint32_t" where
  "StMm_GetGlobalPageMapFlags vpn s =
     (if \<not> IS_GLOBAL_VPN vpn then Inl STATUS_INVALID_VALUE
      else StMmP_GetGlobalPageMapFlags vpn (vm_mmu s))"

definition StMm_GetLocalPageMapFlags :: "nat \<Rightarrow> uint64_t \<Rightarrow> vmm \<Rightarrow> StStatus + uint32_t" where
  "StMm_GetLocalPageMapFlags a vpn s =
     (if \<not> IS_LOCAL_VPN vpn then Inl STATUS_INVALID_VALUE
      else StMmP_GetLocalPageMapFlags a vpn (vm_mmu s))"

end
