(* ===== verification/Mm_Sparse.thy ===== *)
theory Mm_Sparse
  imports Mm
begin

text \<open>
  Sparse allocation and commitment, page faults, release and the closing of an owner
  (\<^verbatim>\<open>strata/mm/mm.c\<close>), and the copies in and out of an address space
  (\<^verbatim>\<open>strata/arch/amd64/pc/mm.c\<close>).
\<close>

section \<open>Batches of frames\<close>

definition get_sparse_alloc_batch_count :: "uint64_t \<Rightarrow> uint64_t" where
  "get_sparse_alloc_batch_count remaining_count =
     (if remaining_count = 0 then 0 else push_bit (63 - St_CountLeadingZeros64 (unat remaining_count)) 1)"

lemma batch_count_bounds:
  assumes "c \<noteq> 0"
  shows "0 < unat (get_sparse_alloc_batch_count c)" "unat (get_sparse_alloc_batch_count c) \<le> unat c"
proof -
  let ?k = "bit_length (unat c) - 1"
  have c: "0 < unat c" "unat c < 2 ^ 64" using assms unsigned_less [of c] by (simp_all add: unat_gt_0)
  have le: "2 ^ ?k \<le> unat c" using bit_length_bounds(2) c(1) by simp
  have k: "?k < 64"
  proof (rule ccontr)
    assume "\<not> ?k < 64"
    then have "(2 :: nat) ^ 64 \<le> 2 ^ ?k" by (intro power_increasing) auto
    then show False using le c(2) by linarith
  qed
  have "bit_length (unat c) \<noteq> 0" using bit_length_bounds(1) [of "unat c"] c(1) by (cases "bit_length (unat c)") auto
  then have e: "63 - St_CountLeadingZeros64 (unat c) = ?k" using k by (simp add: St_CountLeadingZeros64_def)
  then have "unat (get_sparse_alloc_batch_count c) = 2 ^ ?k"
    using assms k by (simp add: get_sparse_alloc_batch_count_def push_bit_eq_mult unat_power_lower64)
  then show "0 < unat (get_sparse_alloc_batch_count c)" "unat (get_sparse_alloc_batch_count c) \<le> unat c"
    using le by simp_all
qed

text \<open>The loop halves the batch while memory is insufficient.\<close>

function sparse_batch_loop ::
  "nat \<Rightarrow> uint64_t \<Rightarrow> nat option \<Rightarrow> uint32_t \<Rightarrow> vmm \<Rightarrow> (vmm \<times> (StStatus + uint64_t) \<times> nat) outcome" where
  "sparse_batch_loop pfn batch_count owner alloc_flags s =
     (if batch_count = 0 then Returned (s, Inl STATUS_INSUFFICIENT_MEMORY, pfn)
      else obind (mm_allocate pfn batch_count owner (alloc_flags AND NOT AF_ALIGN_MASK) s) (\<lambda>(s, status, pfn).
        if CHECK_SUCCESS status then Returned (s, Inr batch_count, pfn)
        else if status \<noteq> STATUS_INSUFFICIENT_MEMORY then Returned (s, Inl status, pfn)
        else sparse_batch_loop pfn (drop_bit 1 batch_count) owner alloc_flags s))"
  by pat_completeness auto
termination
  by (relation "measure (\<lambda>(pfn, batch_count, owner, alloc_flags, s). unat batch_count)")
    (auto simp: unat_div unat_gt_0 drop_bit_eq_div)

declare sparse_batch_loop.simps [simp del]

definition allocate_sparse_frame_batch ::
  "nat \<Rightarrow> uint64_t \<Rightarrow> nat option \<Rightarrow> uint32_t \<Rightarrow> vmm \<Rightarrow> (vmm \<times> (StStatus + uint64_t) \<times> nat) outcome" where
  "allocate_sparse_frame_batch pfn remaining_count owner alloc_flags =
     sparse_batch_loop pfn (get_sparse_alloc_batch_count remaining_count) owner alloc_flags"

lemma sparse_batch_loop_count:
  "sparse_batch_loop pfn n owner fl s = Returned (s', Inr b, q) \<Longrightarrow> 0 < unat b \<and> unat b \<le> unat n"
proof (induction pfn n owner fl s arbitrary: s' q rule: sparse_batch_loop.induct)
  case (1 pfn n owner fl s)
  show ?case
  proof (cases "n = 0")
    case True
    then show ?thesis using "1.prems" by (simp add: sparse_batch_loop.simps [of pfn 0 owner fl s])
  next
    case False
    then obtain s1 st p where a: "mm_allocate pfn n owner (fl AND NOT AF_ALIGN_MASK) s = Returned (s1, st, p)"
      using "1.prems" by (auto simp: sparse_batch_loop.simps [of pfn n owner fl s])
    show ?thesis
    proof (cases "CHECK_SUCCESS st")
      case True
      then have "b = n" using "1.prems" a False by (simp add: sparse_batch_loop.simps [of pfn n owner fl s] del: CHECK_SUCCESS_iff)
      then show ?thesis using False by (simp add: unat_gt_0)
    next
      case f: False
      then have st: "st = STATUS_INSUFFICIENT_MEMORY"
          "sparse_batch_loop p (drop_bit 1 n) owner fl s1 = Returned (s', Inr b, q)"
        using "1.prems" a False by (simp_all add: sparse_batch_loop.simps [of pfn n owner fl s] del: CHECK_SUCCESS_iff split: if_split_asm)
      have "0 < unat b \<and> unat b \<le> unat (drop_bit 1 n)"
        using "1.IH" [OF False a refl refl f _ st(2)] st(1) by simp
      moreover have "unat (drop_bit 1 n) \<le> unat n" by (simp add: unat_div drop_bit_eq_div div_le_dividend)
      ultimately show ?thesis by linarith
    qed
  qed
qed

section \<open>Sparse loops\<close>

text \<open>The check that the pages of a batch have no translation: the status of the first page that does
  not report \<^verbatim>\<open>STATUS_PAGE_NOT_PRESENT\<close>, as the allocation and the commitment treat it.\<close>

fun first_present_status :: "vm_slot \<Rightarrow> uint64_t \<Rightarrow> nat \<Rightarrow> vmm \<Rightarrow> StStatus option" where
  "first_present_status slot vpn 0 s = None"
| "first_present_status slot vpn (Suc n) s =
     (case slot_page_status slot vpn s of
        Inl STATUS_PAGE_NOT_PRESENT \<Rightarrow> first_present_status slot (vpn + 1) n s
      | Inl status \<Rightarrow> Some status
      | Inr _ \<Rightarrow> Some STATUS_SUCCESS)"

lemma batch_progress:
  assumes "done_count < (count :: uint64_t)" "0 < unat b" "unat b \<le> unat (count - done_count)"
  shows "unat count - unat (done_count + b) < unat count - unat done_count"
    "unat (done_count + b) \<le> unat count"
proof -
  have d: "unat (count - done_count) = unat count - unat done_count" "unat done_count < unat count"
    using assms(1) unat_sub [of done_count count] by (simp_all add: word_less_nat_alt word_le_nat_alt)
  moreover have "unat count < 2 ^ 64" using unsigned_less [of count] by simp
  ultimately have "unat (done_count + b) = unat done_count + unat b"
    using assms(3) by (intro unat_add64) simp
  then show "unat count - unat (done_count + b) < unat count - unat done_count"
    "unat (done_count + b) \<le> unat count" using d assms(2,3) by auto
qed

lemma allocate_sparse_frame_batch_count:
  assumes "allocate_sparse_frame_batch pfn c owner fl s = Returned (s', Inr b, q)" "c \<noteq> 0"
  shows "0 < unat b" "unat b \<le> unat c"
  using sparse_batch_loop_count assms batch_count_bounds(2) [OF assms(2)]
  unfolding allocate_sparse_frame_batch_def by fastforce+

text \<open>The loop of the sparse functions; \<open>commit\<close> tells a mapped page apart from an error. The result is
  the status and the number of pages done.\<close>

function sparse_loop ::
  "bool \<Rightarrow> vm_slot \<Rightarrow> uint64_t \<Rightarrow> uint64_t \<Rightarrow> nat option \<Rightarrow> uint32_t \<Rightarrow> uint32_t \<Rightarrow> nat \<Rightarrow> uint64_t \<Rightarrow> vmm
     \<Rightarrow> (vmm \<times> StStatus option \<times> uint64_t) outcome" where
  "sparse_loop commit slot vpn count owner alloc_flags map_flags pfn done_count s =
     (if done_count < count then
        case first_present_status slot (vpn + done_count)
               (unat (get_sparse_alloc_batch_count (count - done_count))) s of
          Some status \<Rightarrow>
            Returned (s, Some (if commit \<and> CHECK_SUCCESS status then STATUS_DUPLICATE_ENTRY else status),
                      done_count)
        | None \<Rightarrow>
            obind (allocate_sparse_frame_batch pfn (count - done_count) owner alloc_flags s) (\<lambda>(s, r, pfn).
              case r of
                Inl status \<Rightarrow> Returned (s, Some status, done_count)
              | Inr batch_count \<Rightarrow>
                  obind (slot_map slot pfn (vpn + done_count) batch_count map_flags s) (\<lambda>(s, status).
                    if \<not> CHECK_SUCCESS status
                    then obind (mm_free pfn s) (\<lambda>s. Returned (s, Some status, done_count))
                    else sparse_loop commit slot vpn count owner alloc_flags map_flags pfn
                           (done_count + batch_count) s))
      else Returned (s, None, done_count))"
  by pat_completeness auto

termination
proof (relation "measure (\<lambda>(commit, slot, vpn, count, owner, af, mf, pfn, done_count, s). unat count - unat done_count)", goal_cases)
  case (2 commit slot vpn count owner af mf pfn done_count s x a b p q ba m st)
  have c: "count - done_count \<noteq> 0" using 2(1) by auto
  obtain r where "allocate_sparse_frame_batch pfn (count - done_count) owner af s = Returned (a, Inr ba, r)"
    using 2 by auto
  then have "0 < unat ba" "unat ba \<le> unat (count - done_count)"
    using allocate_sparse_frame_batch_count c by blast+
  then show ?case using batch_progress(1) 2(1) by simp
qed simp

declare sparse_loop.simps [simp del]

text \<open>The frames of the pages done are freed block by block, as their metadata tells. The count of a
  round is at least one; the fuel only runs out when a metadata order makes the sum wrap.\<close>

definition metadata_pages :: "nat \<Rightarrow> vmm \<Rightarrow> uint64_t outcome" where
  "metadata_pages pfn s =
     (if \<not> md_accessible (vm_pmm s) pfn then Undefined
      else let order = unat (md_order (metadata (vm_pmm s) pfn)) in
      if order \<ge> 64 then Undefined else Returned (push_bit order 1))"

fun rollback_loop :: "nat \<Rightarrow> vm_slot \<Rightarrow> uint64_t \<Rightarrow> uint64_t \<Rightarrow> uint64_t \<Rightarrow> vmm \<Rightarrow> vmm outcome" where
  "rollback_loop 0 slot vpn count i s = (if i < count then OutOfFuel else Returned s)"
| "rollback_loop (Suc fuel) slot vpn count i s =
     (if i < count then
        case slot_page_status slot (vpn + i) s of
          Inl _ \<Rightarrow> rollback_loop fuel slot vpn count (i + 1) s
        | Inr pfn \<Rightarrow>
            obind (metadata_pages pfn s) (\<lambda>n.
            obind (mm_free pfn s) (rollback_loop fuel slot vpn count (i + n)))
      else Returned s)"

definition rollback_sparse_allocation :: "vm_slot \<Rightarrow> uint64_t \<Rightarrow> uint64_t \<Rightarrow> vmm \<Rightarrow> vmm outcome" where
  "rollback_sparse_allocation slot vpn allocated_count =
     rollback_loop (unat allocated_count) slot vpn allocated_count 0"

section \<open>Sparse allocation\<close>

text \<open>The label \<^verbatim>\<open>has_error\<close> of the allocating functions.\<close>

definition undo_sparse :: "vm_slot \<Rightarrow> uint64_t \<Rightarrow> uint64_t \<Rightarrow> uint64_t \<Rightarrow> vmm \<Rightarrow> vmm outcome" where
  "undo_sparse slot vpn count done_count s =
     obind (rollback_sparse_allocation slot vpn done_count s) (\<lambda>s.
     obind (slot_unmap slot vpn done_count s) (slot_release slot vpn count))"

definition fill_sparse ::
  "vm_slot \<Rightarrow> uint64_t \<Rightarrow> uint64_t \<Rightarrow> nat option \<Rightarrow> uint32_t \<Rightarrow> uint32_t \<Rightarrow> vmm \<Rightarrow> (vmm \<times> StStatus option) outcome" where
  "fill_sparse slot vpn count owner alloc_flags map_flags s =
     obind (sparse_loop False slot vpn count owner alloc_flags map_flags INVALID_PFN 0 s) (\<lambda>(s, r, done_count).
       case r of
         None \<Rightarrow> Returned (s, None)
       | Some status \<Rightarrow>
           obind (undo_sparse slot vpn count done_count s) (\<lambda>s. Returned (s, Some status)))"

text \<open>When the reservation itself fails nothing has been done: the rollback covers no page, the
  unmapping of no page leaves the tables alone. For a global domain it still takes the lock and
  moves the quarantined frames when the processor has no \<^verbatim>\<open>invlpg\<close>; the page number \<^verbatim>\<open>-1\<close> of a
  failed choice is beyond \<^verbatim>\<open>VIRT_PAGE_MAX\<close> and makes it return at once.\<close>

definition StMm_AllocateGlobalSparse ::
  "nat \<Rightarrow> uint64_t \<Rightarrow> nat option \<Rightarrow> uint32_t \<Rightarrow> uint32_t \<Rightarrow> vmm
     \<Rightarrow> (vmm \<times> (StStatus + uint64_t option)) outcome" where
  "StMm_AllocateGlobalSparse domain count owner alloc_flags map_flags s =
     obind (StVmm_ReserveGlobalPage domain count owner alloc_flags map_flags s) (\<lambda>(s, r).
       case r of
         Inl status \<Rightarrow> Returned (s, Inl status)
       | Inr vpn \<Rightarrow>
           obind (fill_sparse (GlobalSlot domain) vpn count owner alloc_flags map_flags s) (\<lambda>(s, r).
             case r of
               None \<Rightarrow> Returned (s, Inr (Some vpn))
             | Some status \<Rightarrow>
                 Returned (s, if CHECK_SUCCESS status then Inr None else Inl status)))"

definition reserve_lazily ::
  "nat \<Rightarrow> uint64_t \<Rightarrow> uint64_t \<Rightarrow> uint32_t \<Rightarrow> vmm \<Rightarrow> (vmm \<times> StStatus) outcome" where
  "reserve_lazily a vpn count map_flags s =
     obind (on_mmu (StMmP_MapLocalSparseMemory a vpn count map_flags) s) (\<lambda>(s, status).
       if \<not> CHECK_SUCCESS status then
         obind (slot_release (LocalSlot a) vpn count
                  (s\<lparr>vm_mmu := StMmP_UnmapLocalSparseMemory a vpn count (vm_mmu s)\<rparr>))
           (\<lambda>s. Returned (s, status))
       else Returned (s, STATUS_SUCCESS))"

definition StMm_AllocateLocalSparse ::
  "nat option \<Rightarrow> uint64_t \<Rightarrow> uint32_t \<Rightarrow> uint32_t \<Rightarrow> vmm
     \<Rightarrow> (vmm \<times> (StStatus + uint64_t option)) outcome" where
  "StMm_AllocateLocalSparse asp count alloc_flags map_flags s =
     (case asp of
        None \<Rightarrow> Returned (s, Inl STATUS_INVALID_VALUE)
      | Some a \<Rightarrow>
          if \<not> flag_set map_flags MF_IMMEDIATE then
            obind (StVmm_ReserveLocalPage asp count
                     (alloc_flags OR AF_VMM_RESERVATION_SPARSE OR AF_VMM_RESERVATION_ON_DEMAND) map_flags s)
              (\<lambda>(s, r). case r of
                 Inl status \<Rightarrow> Returned (s, Inl status)
               | Inr vpn \<Rightarrow>
                   obind (reserve_lazily a vpn count map_flags s) (\<lambda>(s, status).
                     Returned (s, if CHECK_SUCCESS status then Inr (Some vpn) else Inl status)))
          else
            obind (StVmm_ReserveLocalPage asp count (alloc_flags OR AF_VMM_RESERVATION_SPARSE) map_flags s)
              (\<lambda>(s, r). case r of
                 Inl status \<Rightarrow> Returned (s, Inl status)
               | Inr vpn \<Rightarrow>
                   obind (fill_sparse (LocalSlot a) vpn count (alloc_owner (asps s a)) alloc_flags map_flags s)
                     (\<lambda>(s, r). case r of
                        None \<Rightarrow> Returned (s, Inr (Some vpn))
                      | Some status \<Rightarrow>
                          Returned (s, if CHECK_SUCCESS status then Inr None else Inl status))))"

text \<open>Here the page number of a failed reservation is the caller's, so the unmapping of no page runs.\<close>

definition StMm_AllocateGlobalSparseTo ::
  "nat \<Rightarrow> uint64_t \<Rightarrow> uint64_t \<Rightarrow> nat option \<Rightarrow> uint32_t \<Rightarrow> uint32_t \<Rightarrow> vmm \<Rightarrow> (vmm \<times> StStatus) outcome" where
  "StMm_AllocateGlobalSparseTo domain vpn count owner alloc_flags map_flags s =
     (if \<not> IS_GLOBAL_VPN vpn then Returned (s, STATUS_INVALID_VALUE)
      else obind (StVmm_ReserveGlobalPageTo domain vpn count owner alloc_flags map_flags s) (\<lambda>(s, status).
        if \<not> CHECK_SUCCESS status
        then obind (slot_unmap (GlobalSlot domain) vpn 0 s) (\<lambda>s. Returned (s, status))
        else obind (fill_sparse (GlobalSlot domain) vpn count owner alloc_flags map_flags s) (\<lambda>(s, r).
          Returned (s, case r of None \<Rightarrow> STATUS_SUCCESS | Some status \<Rightarrow> status))))"

definition StMm_AllocateLocalSparseTo ::
  "nat option \<Rightarrow> uint64_t \<Rightarrow> uint64_t \<Rightarrow> uint32_t \<Rightarrow> uint32_t \<Rightarrow> vmm \<Rightarrow> (vmm \<times> StStatus) outcome" where
  "StMm_AllocateLocalSparseTo asp vpn count alloc_flags map_flags s =
     (case asp of
        None \<Rightarrow> Returned (s, STATUS_INVALID_VALUE)
      | Some a \<Rightarrow>
          if \<not> IS_LOCAL_VPN vpn then Returned (s, STATUS_INVALID_VALUE)
          else if \<not> flag_set map_flags MF_IMMEDIATE then
            on_success (StVmm_ReserveLocalPageTo asp vpn count
                (alloc_flags OR AF_VMM_RESERVATION_SPARSE OR AF_VMM_RESERVATION_ON_DEMAND) map_flags s)
              (reserve_lazily a vpn count map_flags)
          else
            obind (StVmm_ReserveLocalPageTo asp vpn count (alloc_flags OR AF_VMM_RESERVATION_SPARSE) map_flags s)
              (\<lambda>(s, status).
                if \<not> CHECK_SUCCESS status
                then obind (slot_unmap (LocalSlot a) vpn 0 s) (\<lambda>s. Returned (s, status))
                else obind (fill_sparse (LocalSlot a) vpn count (alloc_owner (asps s a)) alloc_flags map_flags s)
                  (\<lambda>(s, r). Returned (s, case r of None \<Rightarrow> STATUS_SUCCESS | Some status \<Rightarrow> status))))"

section \<open>Images\<close>

definition validate_image_backing :: "uint64_t \<Rightarrow> uint64_t \<Rightarrow> StMm_ImageBacking \<Rightarrow> StStatus" where
  "validate_image_backing vpn count img =
     (if count = 0 then STATUS_INVALID_VALUE
      else if count > 0xFFFFFFFFFFFFFFFF div 4096 then STATUS_TOO_LARGE
      else let range_start = vpn * 4096; range_size = count * 4096 in
      if range_size > 0xFFFFFFFFFFFFFFFF - range_start then STATUS_INVALID_VALUE
      else let range_end = range_start + range_size in
      if content_size img \<noteq> 0 \<and> img_base img = None then STATUS_INVALID_VALUE
      else if content_offset img > img_size img then STATUS_INVALID_VALUE
      else if content_size img > img_size img - content_offset img then STATUS_INVALID_VALUE
      else if content_size img > 0xFFFFFFFFFFFFFFFF - content_addr img then STATUS_INVALID_VALUE
      else let content_end = content_addr img + content_size img in
      if content_addr img < range_start then STATUS_INVALID_VALUE
      else if content_end > range_end then STATUS_INVALID_VALUE
      else STATUS_SUCCESS)"

definition StMm_AllocateLocalImageTo ::
  "nat option \<Rightarrow> uint64_t \<Rightarrow> uint64_t \<Rightarrow> StMm_ImageBacking \<Rightarrow> uint32_t \<Rightarrow> uint32_t \<Rightarrow> vmm
     \<Rightarrow> (vmm \<times> StStatus) outcome" where
  "StMm_AllocateLocalImageTo asp vpn count image_backing alloc_flags map_flags s =
     (case asp of
        None \<Rightarrow> Returned (s, STATUS_INVALID_VALUE)
      | Some a \<Rightarrow>
          if \<not> IS_LOCAL_VPN vpn then Returned (s, STATUS_INVALID_VALUE)
          else if flag_set map_flags MF_IMMEDIATE then Returned (s, STATUS_INVALID_VALUE)
          else let status = validate_image_backing vpn count image_backing in
          if \<not> CHECK_SUCCESS status then Returned (s, status)
          else on_success (StVmm_ReserveLocalImagePageTo asp vpn count image_backing
                   (alloc_flags OR AF_VMM_RESERVATION_SPARSE) map_flags s)
                 (reserve_lazily a vpn count map_flags))"

section \<open>Commitment\<close>

definition slot_reserved_range ::
  "vm_slot \<Rightarrow> uint64_t \<Rightarrow> vmm \<Rightarrow> (vmm \<times> (StStatus + uint64_t \<times> uint64_t)) outcome" where
  "slot_reserved_range slot vpn s =
     (case slot of
        GlobalSlot d \<Rightarrow> StVmm_GetGlobalReservedRange d vpn s
      | LocalSlot a \<Rightarrow> StVmm_GetLocalReservedRange (Some a) vpn s)"

definition slot_page_info :: "vm_slot \<Rightarrow> uint64_t \<Rightarrow> vmm \<Rightarrow> (vmm \<times> (StStatus + StVmm_PageInfo)) outcome" where
  "slot_page_info slot vpn s =
     (case slot of
        GlobalSlot d \<Rightarrow> StVmm_GetGlobalPageInfo d vpn s
      | LocalSlot a \<Rightarrow> StVmm_GetLocalPageInfo (Some a) vpn s)"

definition validate_commit_range ::
  "vm_slot \<Rightarrow> uint64_t \<Rightarrow> uint64_t \<Rightarrow> vmm \<Rightarrow> (vmm \<times> (StStatus + StVmm_PageInfo)) outcome" where
  "validate_commit_range slot vpn count s =
     (if count = 0 then Returned (s, Inl STATUS_INVALID_VALUE)
      else obind (slot_reserved_range slot vpn s) (\<lambda>(s, r).
        case r of
          Inl status \<Rightarrow> Returned (s, Inl status)
        | Inr (begin_vpn, end_vpn) \<Rightarrow>
            if vpn < begin_vpn \<or> end_vpn - vpn < count then Returned (s, Inl STATUS_INVALID_VALUE)
            else obind (slot_page_info slot vpn s) (\<lambda>(s, r).
              case r of
                Inl status \<Rightarrow> Returned (s, Inl status)
              | Inr info \<Rightarrow>
                  if flag_set (info_alloc_flags info) AF_VMM_RESERVATION_MAP
                  then Returned (s, Inl STATUS_NOT_PERMITTED)
                  else if policy_type (info_mapping_policy info) \<noteq> VMM_PAGE_MAPPING_PHYSICAL
                  then Returned (s, Inl STATUS_NOT_PERMITTED)
                  else Returned (s, Inr info))))"

definition commit_contiguous ::
  "vm_slot \<Rightarrow> uint64_t \<Rightarrow> uint64_t \<Rightarrow> StVmm_PageInfo \<Rightarrow> vmm \<Rightarrow> (vmm \<times> StStatus) outcome" where
  "commit_contiguous slot vpn count info s =
     (case first_present_status slot vpn (unat count) s of
        Some status \<Rightarrow> Returned (s, if CHECK_SUCCESS status then STATUS_DUPLICATE_ENTRY else status)
      | None \<Rightarrow>
          obind (mm_allocate INVALID_PFN count (info_owner info)
                   (info_alloc_flags info AND NOT AF_VMM_RESERVATION_MASK) s) (\<lambda>(s, status, pfn).
            if \<not> CHECK_SUCCESS status then Returned (s, status)
            else obind (slot_map slot pfn vpn count (info_map_flags info) s) (\<lambda>(s, status).
              if \<not> CHECK_SUCCESS status then obind (mm_free pfn s) (\<lambda>s. Returned (s, status))
              else Returned (s, STATUS_SUCCESS))))"

definition commit_sparse ::
  "vm_slot \<Rightarrow> uint64_t \<Rightarrow> uint64_t \<Rightarrow> StVmm_PageInfo \<Rightarrow> vmm \<Rightarrow> (vmm \<times> StStatus) outcome" where
  "commit_sparse slot vpn count info s =
     obind (sparse_loop True slot vpn count (info_owner info)
              (info_alloc_flags info AND NOT AF_VMM_RESERVATION_MASK) (info_map_flags info) INVALID_PFN 0 s)
       (\<lambda>(s, r, committed_count).
         case r of
           None \<Rightarrow> Returned (s, STATUS_SUCCESS)
         | Some status \<Rightarrow>
             if committed_count > 0 then
               obind (rollback_sparse_allocation slot vpn committed_count s) (\<lambda>s.
               obind (slot_unmap slot vpn committed_count s) (\<lambda>s. Returned (s, status)))
             else Returned (s, status))"

definition commit_range :: "vm_slot \<Rightarrow> uint64_t \<Rightarrow> uint64_t \<Rightarrow> vmm \<Rightarrow> (vmm \<times> StStatus) outcome" where
  "commit_range slot vpn count s =
     obind (validate_commit_range slot vpn count s) (\<lambda>(s, r).
       case r of
         Inl status \<Rightarrow> Returned (s, status)
       | Inr info \<Rightarrow>
           if physical_layout info = VMM_PHYSICAL_LAYOUT_CONTIGUOUS
           then commit_contiguous slot vpn count info s
           else commit_sparse slot vpn count info s)"

definition StMm_CommitGlobal :: "nat \<Rightarrow> uint64_t \<Rightarrow> uint64_t \<Rightarrow> vmm \<Rightarrow> (vmm \<times> StStatus) outcome" where
  "StMm_CommitGlobal domain = commit_range (GlobalSlot domain)"

definition StMm_CommitLocal :: "nat option \<Rightarrow> uint64_t \<Rightarrow> uint64_t \<Rightarrow> vmm \<Rightarrow> (vmm \<times> StStatus) outcome" where
  "StMm_CommitLocal asp vpn count s =
     (case asp of
        None \<Rightarrow> Returned (s, STATUS_INVALID_VALUE)
      | Some a \<Rightarrow> commit_range (LocalSlot a) vpn count s)"

end
