(* ===== verification/Mm_Life.thy ===== *)
theory Mm_Life
  imports Mm_Sparse
begin

text \<open>
  Page faults, release of memory and the closing of an allocation owner (\<^verbatim>\<open>strata/mm/mm.c\<close>), and
  the copies in and out of an address space (\<^verbatim>\<open>strata/arch/amd64/pc/mm.c\<close>), which fault pages in.
\<close>

section \<open>Bytes of physical memory\<close>

definition phys_byte :: "nat \<Rightarrow> mmu \<Rightarrow> uint8_t" where
  "phys_byte addr s =
     ucast (drop_bit (8 * (addr mod 8)) (phys_mem s (addr div PAGE_SIZE) (addr mod PAGE_SIZE div 8)))"

definition set_phys_byte :: "nat \<Rightarrow> uint8_t \<Rightarrow> mmu \<Rightarrow> mmu" where
  "set_phys_byte addr b s =
     (let f = addr div PAGE_SIZE; k = addr mod PAGE_SIZE div 8; sh = 8 * (addr mod 8)
      in set_entry f k ((phys_mem s f k AND NOT (push_bit sh 0xFF)) OR push_bit sh (ucast b)) s)"

fun load_bytes :: "nat \<Rightarrow> nat \<Rightarrow> mmu \<Rightarrow> uint8_t list" where
  "load_bytes addr 0 s = []"
| "load_bytes addr (Suc n) s = phys_byte addr s # load_bytes (addr + 1) n s"

fun store_bytes :: "nat \<Rightarrow> uint8_t list \<Rightarrow> mmu \<Rightarrow> mmu" where
  "store_bytes addr [] s = s"
| "store_bytes addr (b # bs) s = store_bytes (addr + 1) bs (set_phys_byte addr b s)"

section \<open>Page faults\<close>

definition PAGE_FAULT_ERROR_PRESENT :: uint64_t where "PAGE_FAULT_ERROR_PRESENT = push_bit 0 1"

definition fill_image_backed_frame :: "nat \<Rightarrow> uint64_t \<Rightarrow> StMm_ImageBacking \<Rightarrow> mmu \<Rightarrow> mmu \<times> StStatus" where
  "fill_image_backed_frame pfn vpn img s =
     (let s = clear_frame pfn s in
      if content_size img = 0 then (s, STATUS_SUCCESS)
      else case img_base img of
        None \<Rightarrow> (s, STATUS_INVALID_VALUE)
      | Some bytes \<Rightarrow>
          if content_offset img > img_size img then (s, STATUS_INVALID_VALUE)
          else if content_size img > img_size img - content_offset img then (s, STATUS_INVALID_VALUE)
          else if content_size img > 0xFFFFFFFFFFFFFFFF - content_addr img then (s, STATUS_INVALID_VALUE)
          else let page_start = vpn * 4096; page_end = page_start + 4096;
                   content_start = content_addr img; content_end = content_addr img + content_size img in
          if page_end \<le> content_start \<or> content_end \<le> page_start then (s, STATUS_SUCCESS)
          else let overlap_start = (if page_start > content_start then page_start else content_start);
                   overlap_end = (if page_end < content_end then page_end else content_end);
                   copy_len = overlap_end - overlap_start;
                   source_offset = content_offset img + (overlap_start - content_start) in
          if source_offset > img_size img then (s, STATUS_INVALID_VALUE)
          else if copy_len > img_size img - source_offset then (s, STATUS_INVALID_VALUE)
          else (store_bytes (pfn * PAGE_SIZE + unat (overlap_start - page_start))
                  (map (\<lambda>k. bytes (unat source_offset + k)) [0..<unat copy_len]) s, STATUS_SUCCESS))"

text \<open>The part after the policy of the page is known: a frame is allocated, mapped and filled.\<close>

definition materialize_page ::
  "nat \<Rightarrow> uint64_t \<Rightarrow> StVmm_PageInfo \<Rightarrow> vmm \<Rightarrow> (vmm \<times> StStatus) outcome" where
  "materialize_page a vpn info s =
     obind (mm_allocate INVALID_PFN 1 (alloc_owner (asps s a))
              (info_alloc_flags info AND NOT AF_VMM_RESERVATION_MASK) s) (\<lambda>(s, status, pfn).
       if \<not> CHECK_SUCCESS status then Returned (s, status)
       else obind (slot_map (LocalSlot a) pfn vpn 1 (info_map_flags info) s) (\<lambda>(s, status).
         if \<not> CHECK_SUCCESS status then obind (mm_free pfn s) (\<lambda>s. Returned (s, status))
         else if policy_type (info_mapping_policy info) = VMM_PAGE_MAPPING_IMAGE then
           case fill_image_backed_frame pfn vpn (policy_image (info_mapping_policy info)) (vm_mmu s) of
             (m, status) \<Rightarrow>
               let s = s\<lparr>vm_mmu := m\<rparr> in
               if \<not> CHECK_SUCCESS status then
                 obind (slot_unmap (LocalSlot a) vpn 1 s) (\<lambda>s.
                 obind (mm_free pfn s) (\<lambda>s. Returned (s, status)))
               else Returned (s, STATUS_SUCCESS)
         else Returned (s, STATUS_SUCCESS)))"

definition StMm_HandlePageFault ::
  "nat option \<Rightarrow> uint64_t \<Rightarrow> uint64_t \<Rightarrow> vmm \<Rightarrow> (vmm \<times> StStatus) outcome" where
  "StMm_HandlePageFault asp fault_addr error_code s =
     (let vpn = fault_addr div 4096 in
      case asp of
        None \<Rightarrow> Returned (s, STATUS_INVALID_VALUE)
      | Some a \<Rightarrow>
          if \<not> IS_LOCAL_VPN vpn then Returned (s, STATUS_PAGE_NOT_PRESENT)
          else if flag_set error_code PAGE_FAULT_ERROR_PRESENT then Returned (s, STATUS_NOT_PERMITTED)
          else on_success (StVmm_ResolveLocalPage asp vpn s) (\<lambda>s.
            obind (StVmm_GetLocalPageInfo asp vpn s) (\<lambda>(s, r).
              case r of
                Inl status \<Rightarrow> Returned (s, status)
              | Inr info \<Rightarrow>
                  if policy_type (info_mapping_policy info) \<noteq> VMM_PAGE_MAPPING_DEMAND_ZERO \<and>
                     policy_type (info_mapping_policy info) \<noteq> VMM_PAGE_MAPPING_IMAGE
                  then Returned (s, STATUS_PAGE_NOT_PRESENT)
                  else case StMm_LocalVirtPageToPhysFrame a vpn s of
                    Inr _ \<Rightarrow> Returned (s, STATUS_SUCCESS)
                  | Inl status \<Rightarrow>
                      if status \<noteq> STATUS_PAGE_NOT_PRESENT then Returned (s, status)
                      else materialize_page a vpn info s)))"

section \<open>Release\<close>

lemma metadata_pages_pos: "metadata_pages pfn s = Returned n \<Longrightarrow> 0 < unat n"
  by (auto simp: metadata_pages_def Let_def push_bit_eq_mult unat_power_lower64 split: if_splits)

text \<open>The loop over the pages of a range. \<open>unmap_each\<close> unmaps every block as it is freed.\<close>

function free_loop ::
  "vm_slot \<Rightarrow> bool \<Rightarrow> bool \<Rightarrow> uint64_t \<Rightarrow> uint64_t \<Rightarrow> uint64_t \<Rightarrow> vmm \<Rightarrow> vmm outcome" where
  "free_loop slot allow_unmapped_pages unmap_each vpn count i s =
     (if i < count then
        case slot_page_status slot (vpn + i) s of
          Inl status \<Rightarrow>
            if status = STATUS_PAGE_NOT_PRESENT \<and> allow_unmapped_pages
            then free_loop slot allow_unmapped_pages unmap_each vpn count (i + 1) s
            else Panicked STATUS_CONFLICTING_STATE
        | Inr pfn \<Rightarrow>
            obind (metadata_pages pfn s) (\<lambda>n.
              let page_count_to_free = (if n > count - i then count - i else n) in
              obind (mm_free pfn s) (\<lambda>s.
              obind (if unmap_each then slot_unmap slot (vpn + i) page_count_to_free s else Returned s)
                (free_loop slot allow_unmapped_pages unmap_each vpn count (i + page_count_to_free))))
      else Returned s)"
  by pat_completeness auto

termination
proof (relation "measure (\<lambda>(slot, allow, each, vpn, count, i, s). unat count - unat i)", goal_cases)
  case (2 slot allow each vpn count i s status)
  then show ?case using batch_progress(1) [of i count 1] by (simp add: unat_sub64 word_nat)
next
  case (3 slot allow each vpn count i s pfn n k s1 s2)
  have d: "unat (count - i) = unat count - unat i" "unat i < unat count"
    using 3(1) by (simp_all add: unat_sub64 word_nat)
  have "0 < unat n" using 3(3) by (rule metadata_pages_pos)
  then have "0 < unat k" "unat k \<le> unat (count - i)" using 3(4) d by (auto simp: word_nat)
  then show ?case using batch_progress(1) 3(1) by simp
qed simp

declare free_loop.simps [simp del]

definition StMm_FreeGlobal :: "nat \<Rightarrow> uint64_t \<Rightarrow> uint64_t \<Rightarrow> vmm \<Rightarrow> vmm outcome" where
  "StMm_FreeGlobal domain vpn count s =
     (if \<not> IS_GLOBAL_VPN vpn then Returned s
      else obind (StVmm_GetGlobalPageInfo domain vpn s) (\<lambda>(s, r).
        let allow_unmapped_pages =
              (case r of
                 Inl _ \<Rightarrow> False
               | Inr info \<Rightarrow>
                   \<not> flag_set (info_alloc_flags info) AF_VMM_RESERVATION_MAP \<and>
                   policy_type (info_mapping_policy info) = VMM_PAGE_MAPPING_PHYSICAL);
            slot = GlobalSlot domain in
        obind (free_loop slot allow_unmapped_pages allow_unmapped_pages vpn count 0 s) (\<lambda>s.
        obind (if \<not> allow_unmapped_pages then slot_unmap slot vpn count s else Returned s)
          (slot_release slot vpn count))))"

text \<open>A guarded reservation is freed as a whole.\<close>

definition free_local_range ::
  "nat \<Rightarrow> uint64_t \<Rightarrow> uint64_t \<Rightarrow> vmm \<Rightarrow> (vmm \<times> uint64_t \<times> uint64_t \<times> bool) outcome" where
  "free_local_range a vpn count s =
     obind (StVmm_GetLocalPageInfo (Some a) vpn s) (\<lambda>(s, r).
       case r of
         Inl _ \<Rightarrow> Returned (s, vpn, count, False)
       | Inr info \<Rightarrow>
           let t = policy_type (info_mapping_policy info);
               allow_unmapped_pages =
                 (t = VMM_PAGE_MAPPING_DEMAND_ZERO \<or> t = VMM_PAGE_MAPPING_IMAGE \<or>
                  t = VMM_PAGE_MAPPING_GUARD \<or>
                  (\<not> flag_set (info_alloc_flags info) AF_VMM_RESERVATION_MAP \<and>
                   t = VMM_PAGE_MAPPING_PHYSICAL)) in
           if allow_unmapped_pages \<and> flag_set (info_map_flags info) MF_GUARD then
             obind (StVmm_GetLocalReservedRange (Some a) vpn s) (\<lambda>(s, r).
               case r of
                 Inl _ \<Rightarrow> Panicked STATUS_CONFLICTING_STATE
               | Inr (begin_vpn, end_vpn) \<Rightarrow>
                   if end_vpn \<le> begin_vpn then Panicked STATUS_CONFLICTING_STATE
                   else Returned (s, begin_vpn, end_vpn - begin_vpn, allow_unmapped_pages))
           else Returned (s, vpn, count, allow_unmapped_pages))"

definition StMm_FreeLocal :: "nat \<Rightarrow> uint64_t \<Rightarrow> uint64_t \<Rightarrow> vmm \<Rightarrow> vmm outcome" where
  "StMm_FreeLocal a vpn count s =
     (if \<not> IS_LOCAL_VPN vpn then Returned s
      else obind (free_local_range a vpn count s) (\<lambda>(s, free_vpn, free_count, allow_unmapped_pages).
        obind (free_loop (LocalSlot a) allow_unmapped_pages True free_vpn free_count 0 s) (\<lambda>s.
          let s = (if allow_unmapped_pages
                   then s\<lparr>vm_mmu := StMmP_UnmapLocalSparseMemory a free_vpn free_count (vm_mmu s)\<rparr>
                   else s)
          in slot_release (LocalSlot a) free_vpn free_count s)))"

section \<open>Closing an owner\<close>

text \<open>The loop reads the next node before it frees the current one. Its fuel is the bound on the
  number of nodes.\<close>

definition close_node :: "node_ptr \<Rightarrow> vmm \<Rightarrow> vmm outcome" where
  "close_node n s =
     (let nd = nodes s n; usable_vpn = base_vpn nd + guard_page_count nd;
          usable_count = limit_vpn nd - usable_vpn in
      if reservation_type nd = VMM_RESERVATION_ALLOC then
        case node_asp nd of
          Some a \<Rightarrow> StMm_FreeLocal a usable_vpn usable_count s
        | None \<Rightarrow> StMm_FreeGlobal (node_domain nd) usable_vpn usable_count s
      else
        case node_asp nd of
          Some a \<Rightarrow> StMm_UnmapLocal (Some a) usable_vpn usable_count s
        | None \<Rightarrow> StMm_UnmapGlobal (node_domain nd) usable_vpn usable_count s)"

fun close_loop :: "nat \<Rightarrow> node_ptr option \<Rightarrow> vmm \<Rightarrow> vmm outcome" where
  "close_loop fuel None s = Returned s"
| "close_loop 0 (Some n) s = OutOfFuel"
| "close_loop (Suc fuel) (Some n) s =
     obind (close_node n s) (close_loop fuel (owner_next (nodes s n)))"

definition StAllocationOwner_Close :: "nat option \<Rightarrow> vmm \<Rightarrow> vmm outcome" where
  "StAllocationOwner_Close owner s =
     (case owner of
        None \<Rightarrow> Returned s
      | Some ow \<Rightarrow>
          let p = vm_pmm s;
              s = set_vm_pmm (p\<lparr>owners := (owners p)(ow := (owners p ow)
                    \<lparr>ref_control := StRefControlBlock_MarkDying (ref_control (owners p ow))\<rparr>)\<rparr>) s
          in close_loop (node_bound s) (first_vmm_reservation s ow) s)"

section \<open>Copies in and out of an address space\<close>

text \<open>A span of the address space in the direct map; a missing page is faulted in once.\<close>

definition local_span ::
  "nat \<Rightarrow> uint64_t \<Rightarrow> nat \<Rightarrow> vmm \<Rightarrow> (vmm \<times> (StStatus + nat \<times> nat)) outcome" where
  "local_span a addr len s =
     (case local_addr_to_directmap_span a addr len (vm_mmu s) of
        Inl STATUS_PAGE_NOT_PRESENT \<Rightarrow>
          obind (StMm_HandlePageFault (Some a) addr 0 s) (\<lambda>(s, status).
            if CHECK_SUCCESS status then
              Returned (s, local_addr_to_directmap_span a addr len (vm_mmu s))
            else Returned (s, Inl status))
      | r \<Rightarrow> Returned (s, r))"

lemma contiguous_run_ge: "n \<le> contiguous_run pt pfn n ks"
  by (induction ks arbitrary: n) (auto intro: Suc_leD)

lemma leaf_pages_pos: "0 < leaf_pages vpn l s"
proof (cases l)
  case (LEAF_PDPT e)
  have "vpn AND 0x3FFFF \<le> (0x3FFFF :: uint64_t)" by (rule word_and_le1)
  then have "unat (vpn AND 0x3FFFF) \<le> 0x3FFFF" by (simp add: word_le_nat_alt)
  then show ?thesis using LEAF_PDPT by simp
next
  case (LEAF_PD e)
  have "vpn AND 0x1FF \<le> (0x1FF :: uint64_t)" by (rule word_and_le1)
  then have "unat (vpn AND 0x1FF) \<le> 0x1FF" by (simp add: word_le_nat_alt)
  then show ?thesis using LEAF_PD by simp
next
  case (LEAF_PT pt e)
  then show ?thesis using contiguous_run_ge [of 1 "phys_mem s pt" "pte_frame e"] by (simp add: Suc_le_eq)
qed

lemma page_offset_less: "unat ((addr :: uint64_t) AND 0xFFF) < 4096"
proof -
  have "addr AND 0xFFF \<le> (0xFFF :: uint64_t)" by (rule word_and_le1)
  then have "unat (addr AND 0xFFF) \<le> 0xFFF" by (simp add: word_le_nat_alt)
  then show ?thesis by simp
qed

lemma span_len:
  assumes "local_addr_to_directmap_span a addr len m = Inr (p, n)" "0 < len"
  shows "0 < n" "n \<le> len"
proof -
  obtain l where n: "n = min (leaf_pages (addr div 4096) l m * 4096 - unat (addr AND 0xFFF)) len"
    using assms by (auto simp: local_addr_to_directmap_span_def Let_def PAGE_SIZE_def split: sum.split_asm)
  have "4096 \<le> leaf_pages (addr div 4096) l m * 4096" using leaf_pages_pos by (simp add: Suc_le_eq)
  then show "0 < n" "n \<le> len" using n assms(2) page_offset_less [of addr] by auto
qed

lemma local_span_len:
  assumes "local_span a addr len s = Returned (s', Inr (p, n))" "0 < len"
  shows "0 < n" "n \<le> len"
proof -
  obtain m where "local_addr_to_directmap_span a addr len m = Inr (p, n)"
    using assms(1) by (auto simp: local_span_def split: sum.split_asm StStatus.split_asm if_split_asm)
  then show "0 < n" "n \<le> len" using span_len assms(2) by blast+
qed

text \<open>The loops of \<^verbatim>\<open>StMmP_ReadLocal\<close>, \<^verbatim>\<open>StMmP_WriteLocal\<close> and \<^verbatim>\<open>StMmP_SetLocal\<close>. The bytes read before a
  failure are in the buffer and are returned with the status.\<close>

function StMmP_ReadLocal ::
  "nat \<Rightarrow> uint64_t \<Rightarrow> nat \<Rightarrow> vmm \<Rightarrow> (vmm \<times> StStatus \<times> uint8_t list) outcome" where
  "StMmP_ReadLocal a addr len s =
     (if len = 0 then Returned (s, STATUS_SUCCESS, [])
      else obind (local_span a addr len s) (\<lambda>(s, r).
        case r of
          Inl status \<Rightarrow> Returned (s, status, [])
        | Inr (src, n) \<Rightarrow>
            obind (StMmP_ReadLocal a (addr + of_nat n) (len - n) s) (\<lambda>(s', status, rest).
              Returned (s', status, load_bytes src n (vm_mmu s) @ rest))))"
  by pat_completeness auto
termination
  by (relation "measure (\<lambda>(a, addr, len, s). len)") (auto dest: local_span_len)

declare StMmP_ReadLocal.simps [simp del]

function StMmP_WriteLocal ::
  "nat \<Rightarrow> uint64_t \<Rightarrow> uint8_t list \<Rightarrow> vmm \<Rightarrow> (vmm \<times> StStatus) outcome" where
  "StMmP_WriteLocal a addr buf s =
     (if buf = [] then Returned (s, STATUS_SUCCESS)
      else obind (local_span a addr (length buf) s) (\<lambda>(s, r).
        case r of
          Inl status \<Rightarrow> Returned (s, status)
        | Inr (dest, n) \<Rightarrow>
            StMmP_WriteLocal a (addr + of_nat n) (drop n buf)
              (s\<lparr>vm_mmu := store_bytes dest (take n buf) (vm_mmu s)\<rparr>)))"
  by pat_completeness auto
termination
  by (relation "measure (\<lambda>(a, addr, buf, s). length buf)") (auto dest: local_span_len)

declare StMmP_WriteLocal.simps [simp del]

function StMmP_SetLocal ::
  "nat \<Rightarrow> uint64_t \<Rightarrow> uint8_t \<Rightarrow> nat \<Rightarrow> vmm \<Rightarrow> (vmm \<times> StStatus) outcome" where
  "StMmP_SetLocal a addr v len s =
     (if len = 0 then Returned (s, STATUS_SUCCESS)
      else obind (local_span a addr len s) (\<lambda>(s, r).
        case r of
          Inl status \<Rightarrow> Returned (s, status)
        | Inr (dest, n) \<Rightarrow>
            StMmP_SetLocal a (addr + of_nat n) v (len - n)
              (s\<lparr>vm_mmu := store_bytes dest (replicate n v) (vm_mmu s)\<rparr>)))"
  by pat_completeness auto
termination
  by (relation "measure (\<lambda>(a, addr, v, len, s). len)") (auto dest: local_span_len)

declare StMmP_SetLocal.simps [simp del]

definition StMmP_CopyLocal :: "nat \<Rightarrow> uint64_t \<Rightarrow> nat \<Rightarrow> uint64_t \<Rightarrow> nat \<Rightarrow> StStatus" where
  "StMmP_CopyLocal dest_asp dest src_asp src len = STATUS_NOT_IMPLEMENTED"

end
