(* ===== verification/Vmm_Reserve.thy ===== *)
theory Vmm_Reserve
  imports Vmm_Keep Mm_Life
begin

text \<open>
  Reservation and release of page ranges. A reservation is placed on pages that are in the domain,
  not reserved and not mapped; a release takes exactly one reservation away. The operations
  run with interrupts off and preemption locked and put both back.
\<close>

section \<open>Placing\<close>

definition owner_open :: "nat option \<Rightarrow> vmm \<Rightarrow> bool" where
  "owner_open owner s = (case owner of None \<Rightarrow> True | Some ow \<Rightarrow> \<not> StAllocationOwner_IsClosed (owners (vm_pmm s) ow))"

lemma attach_status:
  "snd (attach_owner_node n owner s) = (if owner_open owner s then STATUS_SUCCESS else STATUS_CONFLICTING_STATE)"
  by (simp add: attach_owner_node_def owner_open_def Let_def vm_simps split: option.split)

lemma place_node_cases:
  assumes "slot_list slot ns s" "pool_ok s" "node_ready s"
    and "unat limit = unat base + unat total_count" "0 < unat total_count"
    and "clear_at s ns (unat total_count) (unat base)" "slot_base slot s \<le> base" "unat limit \<le> unat (slot_limit slot s) + 1"
    and "unat (guard_page_count_from_map_flags map_flags) < unat total_count"
    and "unat total_count \<le> unat (slot_free_count slot s)"
  obtains (ok) s' n where "place_node slot base limit total_count owner alloc_flags map_flags policy s = Returned (s', Inr n)"
      "owner_open owner s" "placed slot ns n s s'"
      "node_data (nodes s' n) = (base, limit, True, guard_page_count_from_map_flags map_flags, slot_asp slot, slot_domain slot)"
  | (closed) s' where "place_node slot base limit total_count owner alloc_flags map_flags policy s = Returned (s', Inl STATUS_CONFLICTING_STATE)"
      "\<not> owner_open owner s" "undisturbed s s'"
proof -
  obtain s1 n where c: "create_reservation_node s = Returned (s1, Inr n)" "made_node s n s1"
    using create_node [OF assms(2,3)] by blast
  define F where "F = (\<lambda>nd. (init_reservation_node_metadata alloc_flags map_flags policy
      (nd\<lparr>base_vpn := base, limit_vpn := limit, node_asp := slot_asp slot, node_domain := slot_domain slot\<rparr>))\<lparr>is_live := True\<rparr>)"
  obtain fl where p2: "prepared s n fl (upd_node n F s1)" using made_prepared [OF c(2)] by blast
  obtain s3 st where a: "attach_owner_node n owner (upd_node n F s1) = (s3, st)" by fastforce
  have p3: "prepared s n fl s3" by (rule prepared_same [OF p2 attach_same_domains [OF a]])
  have "vm_pmm (upd_node n F s1) = vm_pmm s" using c(2) by (simp add: made_node_def vm_pmm_def vm_simps)
  then have "owner_open owner (upd_node n F s1) = owner_open owner s" unfolding owner_open_def by metis
  then have st: "st = (if owner_open owner s then STATUS_SUCCESS else STATUS_CONFLICTING_STATE)"
    using attach_status [of n owner "upd_node n F s1"] a by simp
  have "node_view (nodes s3 n) = node_view (F zero_node)"
    using same_domainsD(1) [OF attach_same_domains [OF a], of n] c(2) by (simp add: vm_simps made_node_def)
  then have d: "node_data (nodes s3 n) = (base, limit, True, guard_page_count_from_map_flags map_flags, slot_asp slot, slot_domain slot)"
    by (simp add: node_view_data node_data_def F_def init_reservation_node_metadata_def)
  have pl: "place_node slot base limit total_count owner alloc_flags map_flags policy s =
      (if \<not> CHECK_SUCCESS st then Returned (release_reservation_node n s3, Inl st)
       else obind (insert_domain_node_sorted slot n s3) (\<lambda>(s, status).
             if \<not> CHECK_SUCCESS status
             then Returned (release_reservation_node n (detach_owner_node n s), Inl status)
             else Returned (set_slot_free_count slot (slot_free_count slot s - total_count) s, Inr n)))"
    using c(1) a by (simp add: place_node_def Let_def F_def del: CHECK_SUCCESS_iff)
  show thesis
  proof (cases "owner_open owner s")
    case False
    then show thesis using closed pl st prepared_released [OF p3] by simp
  next
    case True
    have h: "lo s3 n = unat base" "hi s3 n = unat limit" "guard_page_count (nodes s3 n) = guard_page_count_from_map_flags map_flags"
      using d by (simp_all add: node_data_def)
    have sv: "slot_view slot s3 = slot_view slot s" "handed_out s3 n" using p3 by (simp_all add: prepared_def)
    then have nok: "node_ok slot s3 n" using d assms(7,8) by (simp add: node_ok_def node_data_def slot_view_def word_nat)
    have len: "hi s3 n - lo s3 n = unat total_count" "lo s3 n < hi s3 n" using h assms(4,5) by simp_all
    obtain s4 where i: "insert_domain_node_sorted slot n s3 = Returned (s4, STATUS_SUCCESS)"
        "placed slot ns n s (set_slot_free_count slot (slot_free_count slot s4 - total_count) s4)"
        "node_data (nodes s4 n) = node_data (nodes s3 n)"
      using prepared_placed [OF p3 assms(1) nok len(2), of total_count, unfolded len(1), unfolded h, OF assms(6,9,10)] by blast
    then show thesis using ok pl st True d by (simp add: vm_simps)
  qed
qed

section \<open>The reservations of a slot\<close>

text \<open>The abstract view: the ranges reserved, in the order of the list, each as its first page, the
  number of guard pages at its lower end, and the page past its end.\<close>

type_synonym region = "nat \<times> nat \<times> nat"

definition region_of :: "vmm \<Rightarrow> node_ptr \<Rightarrow> region" where
  "region_of s n = (lo s n, unat (guard_page_count (nodes s n)), hi s n)"

definition reservations :: "vm_slot \<Rightarrow> vmm \<Rightarrow> region list" where
  "reservations slot s =
     (case node_chain s (slot_head slot s) of Returned ns \<Rightarrow> map (region_of s) ns | _ \<Rightarrow> [])"

lemma reservations_list:
  "slot_list slot ns s \<Longrightarrow> pool_ok s \<Longrightarrow> reservations slot s = map (region_of s) ns"
  by (simp add: reservations_def slot_chain)

lemma node_data_region: "node_data (nodes s' m) = node_data (nodes s m) \<Longrightarrow> region_of s' m = region_of s m"
  by (simp add: node_data_def region_of_def)

lemma map_ranges:
  assumes "\<forall>m\<in>set ms. node_data (nodes s' m) = node_data (nodes s m)"
  shows "map (region_of s') ms = map (region_of s) ms"
  using node_data_region [of s' _ s] assms by simp

lemma undisturbed_reservations:
  assumes "undisturbed s s'" "slot_list c ms s" "pool_ok s"
  shows "reservations c s' = reservations c s"
proof -
  have u: "slot_list c ms s'" "pool_ok s'" "\<forall>m\<in>set ms. node_data (nodes s' m) = node_data (nodes s m)"
    using assms(1,2) by (auto simp: undisturbed_def)
  then show ?thesis
    using reservations_list [OF u(1,2)] reservations_list [OF assms(2,3)] map_ranges [OF u(3)] by simp
qed

lemma placed_reservations:
  assumes "placed slot ns n s s'" "slot_list slot ns s" "pool_ok s" "node_data (nodes s' n) = (base, limit, l, g, r)"
  shows "set (reservations slot s') = insert (unat base, unat g, unat limit) (set (reservations slot s))"
    "\<And>c ms. c \<noteq> slot \<Longrightarrow> slot_list c ms s \<Longrightarrow> reservations c s' = reservations c s"
proof -
  obtain xs ys where x: "ns = xs @ ys" "slot_list slot (xs @ n # ys) s'" "pool_ok s'"
      "\<forall>m\<in>set ns. node_data (nodes s' m) = node_data (nodes s m)"
    using assms(1) by (auto simp: placed_def)
  have "region_of s' n = (unat base, unat g, unat limit)" using assms(4) by (simp add: node_data_def region_of_def)
  moreover have "region_of s' ` set ns = region_of s ` set ns"
    using arg_cong [OF map_ranges [OF x(4)], of set] by simp
  ultimately show "set (reservations slot s') = insert (unat base, unat g, unat limit) (set (reservations slot s))"
    using reservations_list [OF x(2,3)] reservations_list [OF assms(2,3)] x(1) by (auto simp: image_Un)
  fix c ms
  assume c: "c \<noteq> slot" "slot_list c ms s"
  then have "slot_list c ms s'" "\<forall>m\<in>set ms. node_data (nodes s' m) = node_data (nodes s m)"
    using assms(1) by (auto simp: placed_def)
  then show "reservations c s' = reservations c s"
    using reservations_list [OF _ x(3)] reservations_list [OF c(2) assms(3)] map_ranges by simp
qed

lemma reservations_sorted:
  assumes "slot_list slot ns s" "pool_ok s"
  shows "sorted_wrt (\<lambda>(_, _, e) (p, _, _). e \<le> p) (reservations slot s)"
    "\<And>p g e. (p, g, e) \<in> set (reservations slot s) \<Longrightarrow> unat (slot_base slot s) \<le> p \<and> p + g < e \<and> e \<le> unat (slot_limit slot s) + 1"
proof -
  note l = slot_list_parts [OF assms(1)]
  show "sorted_wrt (\<lambda>(_, _, e) (p, _, _). e \<le> p) (reservations slot s)"
    using l(4) reservations_list [OF assms] by (simp add: ranges_ok_def sorted_wrt_map region_of_def)
  fix p g e
  assume "(p, g, e) \<in> set (reservations slot s)"
  then obtain n where n: "n \<in> set ns" "p = lo s n" "g = unat (guard_page_count (nodes s n))" "e = hi s n"
    using reservations_list [OF assms] by (auto simp: region_of_def)
  then show "unat (slot_base slot s) \<le> p \<and> p + g < e \<and> e \<le> unat (slot_limit slot s) + 1"
    using l(3) [OF n(1)] l(5) by (auto simp: node_ok_def guards_ok_def word_nat)
qed

section \<open>The lock around an operation\<close>

definition cpu_set :: "uint32_t \<Rightarrow> bool \<Rightarrow> vmm \<Rightarrow> vmm" where
  "cpu_set d i s = s\<lparr>interrupts_enabled := i, vm_mmu := (vm_mmu s)\<lparr>mm_pmm := (mm_pmm (vm_mmu s))\<lparr>preemption_depth := d\<rparr>\<rparr>\<rparr>"

lemma cpu_set_fields [simp]:
  "nodes (cpu_set d i s) = nodes s" "slot_view c (cpu_set d i s) = slot_view c s" "pool_view (cpu_set d i s) = pool_view s"
  "slot_head c (cpu_set d i s) = slot_head c s" "slot_base c (cpu_set d i s) = slot_base c s"
  "slot_limit c (cpu_set d i s) = slot_limit c s" "slot_free_count c (cpu_set d i s) = slot_free_count c s"
  "cpu_view (cpu_set d i s) = (phys_mem (vm_mmu s), root_table_pfn (vm_mmu s), d, i, domain_view s)"
  "asps (cpu_set d i s) = asps s" "reservation_domain_list (cpu_set d i s) = reservation_domain_list s"
  by (cases c; simp add: cpu_set_def slot_view_def pool_view_def cpu_view_def vm_pmm_def)+

lemma slot_list_cpu [simp]: "slot_list c ms (cpu_set d i s) = slot_list c ms s"
proof
  have h: "handed_out (cpu_set d i s) = handed_out s" by (rule handed_out_cong) simp
  show "slot_list c ms (cpu_set d i s) \<Longrightarrow> slot_list c ms s" by (erule slot_list_cong [rotated 3]) (simp_all add: h)
  show "slot_list c ms s \<Longrightarrow> slot_list c ms (cpu_set d i s)" by (erule slot_list_cong [rotated 3]) (simp_all add: h)
qed

lemma pool_ok_cpu [simp]: "pool_ok (cpu_set d i s) = pool_ok s"
proof
  show "pool_ok (cpu_set d i s) \<Longrightarrow> pool_ok s" by (erule pool_ok_cong [rotated 2]) simp_all
  show "pool_ok s \<Longrightarrow> pool_ok (cpu_set d i s)" by (erule pool_ok_cong [rotated 2]) simp_all
qed

lemma walk_pmm [simp]: "walk asp vpn (m\<lparr>mm_pmm := p\<rparr>) = walk asp vpn m"
  by (cases m) (simp only: walk_def mmu.update_convs mmu.select_convs)

lemma page_status_cpu [simp]: "slot_page_status c vpn (cpu_set d i s) = slot_page_status c vpn s"
  by (cases c) (simp_all add: cpu_set_def StMmP_GlobalVirtPageToPhysFrame_def StMmP_LocalVirtPageToPhysFrame_def vpn_to_pfn_def)

lemma node_ready_cpu [simp]: "node_ready (cpu_set d i s) = node_ready s"
  by (simp add: node_ready_def cpu_set_def)

lemma node_bound_cpu [simp]: "node_bound (cpu_set d i s) = node_bound s"
  by (simp add: node_bound_def cpu_set_def)

lemma owner_open_cpu [simp]: "owner_open owner (cpu_set d i s) = owner_open owner s"
  by (simp add: owner_open_def cpu_set_def vm_pmm_def split: option.split)

lemma vacant_cpu [simp]: "vacant c ms count (cpu_set d i s) = vacant c ms count s"
  by (rule ext) (simp add: vacant_def clear_at_def is_range_unmapped_iff)

lemma domain_chain_cpu [simp]: "domain_chain k (cpu_set d i s) h = domain_chain k s h"
  by (induction k s h rule: domain_chain.induct) simp_all

lemma reservations_cpu [simp]: "reservations c (cpu_set d i s) = reservations c s"
  by (simp add: reservations_def node_chain_def region_of_def split: outcome.split)

lemma cpu_view_restored:
  "cpu_view s1 = cpu_view (cpu_set d i s) \<Longrightarrow>
   cpu_view (cpu_set (preemption_depth (vm_pmm s)) (interrupts_enabled s) s1) = cpu_view s"
  by (simp add: cpu_view_def cpu_set_def vm_pmm_def)

lemma undisturbed_cpu:
  "undisturbed (cpu_set d i s) s1 \<Longrightarrow> undisturbed s (cpu_set (preemption_depth (vm_pmm s)) (interrupts_enabled s) s1)"
  unfolding undisturbed_def using cpu_view_restored [of s1 d i s] by simp

lemma placed_cpu:
  "placed slot ns n (cpu_set d i s) s1 \<Longrightarrow> placed slot ns n s (cpu_set (preemption_depth (vm_pmm s)) (interrupts_enabled s) s1)"
  unfolding placed_def using cpu_view_restored [of s1 d i s] by simp

lemma with_irq_locked_returns:
  assumes "preemption_depth (vm_pmm s) \<noteq> 0xFFFFFFFF"
    and "f (cpu_set (preemption_depth (vm_pmm s) + 1) False s) = Returned (s1, r)"
    and "cpu_view s1 = cpu_view (cpu_set (preemption_depth (vm_pmm s) + 1) False s)"
  shows "with_irq_locked f s = Returned (cpu_set (preemption_depth (vm_pmm s)) (interrupts_enabled s) s1, r)"
proof -
  let ?d = "preemption_depth (vm_pmm s)"
  have l: "StThread_LockPreemption ?d = Returned (?d + 1)" using assms(1) by (simp add: StThread_LockPreemption_def)
  have u: "preemption_depth (mm_pmm (vm_mmu s1)) = ?d + 1" using assms(3) by (simp add: cpu_view_def vm_pmm_def cpu_set_def)
  have "with_irq_locked f s = obind (f (cpu_set (?d + 1) False s)) (\<lambda>(s', r).
      obind (mmu_unlock (vm_mmu s')) (\<lambda>m. Returned (s'\<lparr>vm_mmu := m, interrupts_enabled := interrupts_enabled s\<rparr>, r)))"
    using l by (simp add: with_irq_locked_def mmu_lock_def cpu_set_def vm_pmm_def)
  then show ?thesis using assms(2) lock_unlock [OF l] u by (simp add: mmu_unlock_def cpu_set_def vm_pmm_def)
qed

section \<open>Reserving anywhere\<close>

lemma undisturbed_refl: "pool_ok s \<Longrightarrow> undisturbed s s" by (simp add: undisturbed_def)

lemma ranges_card:
  "ranges_ok s ns \<Longrightarrow> finite (\<Union>n\<in>set ns. {lo s n..<hi s n}) \<and> card (\<Union>n\<in>set ns. {lo s n..<hi s n}) = (\<Sum>n\<leftarrow>ns. hi s n - lo s n)"
proof (induction ns)
  case (Cons n ns)
  have "{lo s n..<hi s n} \<inter> (\<Union>m\<in>set ns. {lo s m..<hi s m}) = {}" using Cons.prems by fastforce
  then show ?case using Cons card_Un_disjoint [of "{lo s n..<hi s n}" "\<Union>m\<in>set ns. {lo s m..<hi s m}"] by simp
qed simp

text \<open>A vacant place implies that the free count covers it.\<close>

lemma vacant_free_count:
  assumes "slot_list slot ns s" "vacant slot ns count s q"
  shows "unat count \<le> unat (slot_free_count slot s)"
proof -
  let ?U = "\<Union>n\<in>set ns. {lo s n..<hi s n}"
  let ?Q = "{unat q..<unat q + unat count}"
  note l = slot_list_parts [OF assms(1)]
  have v: "unat (slot_base slot s) \<le> unat q" "unat q + unat count \<le> unat (slot_limit slot s) + 1" "clear_at s ns (unat count) (unat q)"
    using assms(2) by (auto simp: vacant_def word_nat)
  have "?U \<inter> ?Q = {}" using v(3) by (force simp: clear_at_def)
  then have "card (?U \<union> ?Q) = (\<Sum>n\<leftarrow>ns. hi s n - lo s n) + unat count"
    using ranges_card [OF l(4)] by (simp add: card_Un_disjoint)
  moreover have "?U \<union> ?Q \<subseteq> {unat (slot_base slot s)..<unat (slot_limit slot s) + 1}"
    using l(3) v(1,2) by (fastforce simp: node_ok_def)
  then have "card (?U \<union> ?Q) \<le> unat (slot_limit slot s) + 1 - unat (slot_base slot s)"
    using card_mono [of "{unat (slot_base slot s)..<unat (slot_limit slot s) + 1}"] by simp
  moreover have "unat (slot_base slot s) \<le> unat (slot_limit slot s)" using l(6) by (simp add: word_nat)
  moreover have "(\<Sum>n\<leftarrow>ns. hi s n - lo s n) + unat (slot_free_count slot s) = unat (slot_limit slot s) - unat (slot_base slot s) + 1"
    using assms(1) by (simp add: slot_list_def)
  ultimately show ?thesis by linarith
qed

lemma reserve_anywhere_cases:
  assumes "slot_list slot ns s" "pool_ok s" "node_ready s"
    and "unat (guard_page_count_from_map_flags map_flags) < unat total_count"
  obtains (ok) s' n base where
      "reserve_anywhere slot total_count search_limit owner alloc_flags map_flags policy s =
         Returned (s', Inr (base + guard_page_count_from_map_flags map_flags))"
      "vacant slot ns total_count s base" "placed slot ns n s s'"
      "node_data (nodes s' n) = (base, base + total_count, True, guard_page_count_from_map_flags map_flags, slot_asp slot, slot_domain slot)"
      "\<And>q. \<not> flag_set alloc_flags AF_VMM_ALLOC_TOPDOWN \<Longrightarrow> q < base \<Longrightarrow> \<not> vacant slot ns total_count s q"
  | (none) s' where
      "reserve_anywhere slot total_count search_limit owner alloc_flags map_flags policy s = Returned (s', Inl STATUS_INSUFFICIENT_MEMORY)"
      "undisturbed s s'" "\<And>q. \<not> flag_set alloc_flags AF_VMM_ALLOC_TOPDOWN \<Longrightarrow> \<not> vacant slot ns total_count s q"
  | (closed) s' where
      "reserve_anywhere slot total_count search_limit owner alloc_flags map_flags policy s = Returned (s', Inl STATUS_CONFLICTING_STATE)"
      "undisturbed s s'" "\<not> owner_open owner s"
proof -
  let ?g = "guard_page_count_from_map_flags map_flags"
  let ?td = "flag_set alloc_flags AF_VMM_ALLOC_TOPDOWN"
  have t: "total_count \<noteq> 0" "0 < unat total_count" using assms(4) by auto
  note un = undisturbed_refl [OF assms(2)]
  show thesis
  proof (cases "slot_free_count slot s < total_count")
    case True
    then have "\<not> vacant slot ns total_count s q" for q using vacant_free_count [OF assms(1)] by (fastforce simp: word_nat)
    then show thesis using True un by (intro none [of s]) (simp_all add: reserve_anywhere_def)
  next
    case False
    then have f: "unat total_count \<le> unat (slot_free_count slot s)" by (simp add: word_nat)
    have r: "reserve_anywhere slot total_count search_limit owner alloc_flags map_flags policy s =
        obind (search_candidate slot ?td total_count (slot_base slot s) search_limit s) (\<lambda>r.
          case r of
            Inl status \<Rightarrow> Returned (s, Inl status)
          | Inr candidate_start \<Rightarrow>
              obind (place_node slot candidate_start (candidate_start + total_count) total_count owner alloc_flags map_flags policy s)
                (\<lambda>(s, r). case r of
                   Inl status \<Rightarrow> Returned (s, Inl status)
                 | Inr n \<Rightarrow> Returned (s, Inr (node_usable_base_vpn (nodes s n)))))"
      using False slot_validates [OF assms(1,2)] by (simp add: reserve_anywhere_def)
    show thesis
    proof (cases rule: search_candidate_spec [OF assms(1,2) t(1), of ?td "slot_base slot s" search_limit, case_names found none])
      case (found c)
      have v: "slot_base slot s \<le> c" "unat c + unat total_count \<le> unat (slot_limit slot s) + 1" "clear_at s ns (unat total_count) (unat c)"
        using found(2) by (auto simp: vacant_def word_nat)
      have "slot_limit slot s \<noteq> - 1" by (rule slot_list_parts(7) [OF assms(1)])
      then have "unat c + unat total_count < 2 ^ 64" using v(2) unat_inc unat_less64 [of "slot_limit slot s + 1"] by fastforce
      then have lim: "unat (c + total_count) = unat c + unat total_count" by (rule unat_add64)
      then have lim2: "unat (c + total_count) \<le> unat (slot_limit slot s) + 1" using v(2) by simp
      show thesis
      proof (cases rule: place_node_cases [OF assms(1-3) lim t(2) v(3,1) lim2 assms(4) f, of owner alloc_flags policy, case_names ok closed])
        case (ok s' n)
        then have "node_usable_base_vpn (nodes s' n) = c + ?g" by (simp add: node_data_def node_usable_base_vpn_def)
        moreover have "\<not> vacant slot ns total_count s q" if "\<not> ?td" "q < c" for q
          using found(3) [OF that(1) _ that(2)] by (auto simp: vacant_def word_nat)
        ultimately show thesis using that(1) [OF _ found(2) ok(3,4)] r found(1) ok(1) by simp
      next
        case (closed s')
        then show thesis using that(3) [of s'] r found(1) by simp
      qed
    next
      case none
      have "\<not> vacant slot ns total_count s q" if "\<not> ?td" for q
        using none(2) [OF that, of q] by (auto simp: vacant_def word_nat)
      then show thesis using that(2) [OF _ un] r none(1) by simp
    qed
  qed
qed

end
