(* ===== verification/Vmm_Release.thy ===== *)
theory Vmm_Release
  imports Vmm_Reserve
begin

text \<open>
  Release of a reservation: its node leaves the list of the slot and goes back to its pool, and
  nothing else changes but the free count.
\<close>

section \<open>Taking a node out of a list\<close>

definition taken :: "vm_slot \<Rightarrow> node_ptr list \<Rightarrow> node_ptr \<Rightarrow> node_ptr list \<Rightarrow> vmm \<Rightarrow> vmm \<Rightarrow> bool" where
  "taken slot xs n ys s s' \<longleftrightarrow>
     (\<forall>m. node_data (nodes s' m) = node_data (nodes s m)) \<and>
     (\<forall>m. m \<noteq> n \<longrightarrow>
        domain_next (nodes s' m) = (if xs \<noteq> [] \<and> m = last xs then head_ptr ys else domain_next (nodes s m)) \<and>
        domain_prev (nodes s' m) = (if ys \<noteq> [] \<and> m = hd ys then last_ptr None xs else domain_prev (nodes s m))) \<and>
     slot_head slot s' = head_ptr (xs @ ys) \<and>
     (\<forall>b. slot_base b s' = slot_base b s \<and> slot_limit b s' = slot_limit b s \<and> slot_free_count b s' = slot_free_count b s) \<and>
     (\<forall>b. b \<noteq> slot \<longrightarrow> slot_head b s' = slot_head b s) \<and>
     pool_view s' = pool_view s \<and> cpu_view s' = cpu_view s"

lemma remove_taken:
  assumes "linked (nodes s) None (slot_head slot s) (xs @ n # ys)" "distinct (xs @ n # ys)"
  shows "taken slot xs n ys s (remove_domain_node slot n s)"
proof -
  have m: "domain_prev (nodes s n) = last_ptr None xs" "domain_next (nodes s n) = head_ptr ys"
    using linked_middle [OF assms(1)] by simp_all
  have h: "slot_head slot s = head_ptr (xs @ n # ys)" by (rule linked_head [OF assms(1)])
  show ?thesis
  proof (cases "xs = []")
    case True
    then show ?thesis using assms(2) m h
      by (cases ys) (auto simp: remove_domain_node_def taken_def vm_simps node_data_def Let_def)
  next
    case False
    then have "last xs \<in> set xs" by simp
    then have "last xs \<noteq> n" "last xs \<notin> set ys" using assms(2) unfolding distinct_append by auto
    moreover have "last_ptr None xs = Some (last xs)" using False by (simp add: last_ptr_def)
    moreover have "head_ptr (xs @ n # ys) = head_ptr (xs @ ys)" using False by (cases xs) simp_all
    ultimately show ?thesis using assms(2) m h False
      by (cases ys) (auto simp: remove_domain_node_def taken_def vm_simps node_data_def Let_def)
  qed
qed

lemma taken_view:
  assumes "taken slot xs n ys s s'" "m \<notin> set (xs @ n # ys)"
  shows "node_view (nodes s' m) = node_view (nodes s m)"
proof -
  have "m \<noteq> n" "\<not> (xs \<noteq> [] \<and> m = last xs)" "\<not> (ys \<noteq> [] \<and> m = hd ys)" using assms(2) by auto
  then show ?thesis using assms(1) unfolding taken_def node_view_data by auto
qed

lemma slot_list_taken:
  assumes "slot_list slot (xs @ n # ys) s" "taken slot xs n ys s s1"
    and "unat c = unat (slot_free_count slot s) + (hi s n - lo s n)"
  shows "slot_list slot (xs @ ys) (set_slot_free_count slot c s1)"
proof -
  let ?s' = "set_slot_free_count slot c s1"
  note e = assms(2) [unfolded taken_def]
  have d: "lo ?s' m = lo s m" "hi ?s' m = hi s m" "is_live (nodes ?s' m) = is_live (nodes s m)"
      "guard_page_count (nodes ?s' m) = guard_page_count (nodes s m)" "node_asp (nodes ?s' m) = node_asp (nodes s m)"
      "node_domain (nodes ?s' m) = node_domain (nodes s m)" for m
    using e by (simp_all add: vm_simps node_data_def)
  have sl: "slot_head slot ?s' = head_ptr (xs @ ys)" "slot_base slot ?s' = slot_base slot s"
      "slot_limit slot ?s' = slot_limit slot s" "slot_free_count slot ?s' = c"
    using e by (simp_all add: vm_simps)
  have h: "handed_out ?s' = handed_out s" by (rule handed_out_cong) (use e in \<open>simp add: vm_simps\<close>)
  note l = slot_list_parts [OF assms(1)]
  have "linked (nodes ?s') None (slot_head slot ?s') (xs @ ys)"
    unfolding sl(1)
  proof (rule linked_remove [OF l(1,2)])
    fix m
    show "domain_prev (nodes ?s' m) = domain_prev (nodes s m) \<and>
        domain_next (nodes ?s' m) = (if m = last xs then head_ptr ys else domain_next (nodes s m))" if "m \<in> set xs"
    proof -
      have "m \<noteq> n" "\<not> (ys \<noteq> [] \<and> m = hd ys)" "xs \<noteq> []" using that l(2) hd_in_set [of ys] by auto
      then show ?thesis using e by (auto simp: vm_simps)
    qed
    show "domain_next (nodes ?s' m) = domain_next (nodes s m) \<and>
        domain_prev (nodes ?s' m) = (if m = hd ys then last_ptr None xs else domain_prev (nodes s m))" if "m \<in> set ys"
    proof -
      have "m \<noteq> n" "\<not> (xs \<noteq> [] \<and> m = last xs)" "ys \<noteq> []" using that l(2) by (auto simp: disjoint_iff)
      then show ?thesis using e by (auto simp: vm_simps)
    qed
  qed
  moreover have "node_ok slot ?s' m" if "m \<in> set (xs @ ys)" for m
    using l(3) [of m] that d h sl by (auto simp: node_ok_def)
  moreover have "ranges_ok ?s' (xs @ ys)"
    using l(4) ranges_ok_cong [of _ ?s' s] d by (simp add: ranges_ok_append)
  moreover have "guards_ok ?s' (xs @ ys)" using l(5) d by (auto simp: guards_ok_def)
  moreover have "(\<Sum>m\<leftarrow>xs @ ys. hi ?s' m - lo ?s' m) + unat c = unat (slot_limit slot s) - unat (slot_base slot s) + 1"
    using assms(1,3) d by (simp add: slot_list_def)
  ultimately show ?thesis using l(2,6,7) sl by (simp add: slot_list_def)
qed

text \<open>The state after a reservation is taken away, against the one before.\<close>

definition gone :: "vm_slot \<Rightarrow> node_ptr list \<Rightarrow> node_ptr \<Rightarrow> vmm \<Rightarrow> vmm \<Rightarrow> bool" where
  "gone slot ns n s s' \<longleftrightarrow> pool_ok s' \<and> cpu_view s' = cpu_view s \<and>
     (\<exists>xs ys. ns = xs @ n # ys \<and> slot_list slot (xs @ ys) s') \<and>
     (\<forall>m\<in>set ns - {n}. node_data (nodes s' m) = node_data (nodes s m)) \<and>
     (\<forall>c ms. c \<noteq> slot \<longrightarrow> slot_list c ms s \<longrightarrow> slot_list c ms s' \<and> (\<forall>m\<in>set ms. node_data (nodes s' m) = node_data (nodes s m)))"

text \<open>The three steps of a release: out of the list of the slot, out of the list of the owner, back to
  the pool.\<close>

definition take_out :: "vm_slot \<Rightarrow> node_ptr \<Rightarrow> vmm \<Rightarrow> vmm" where
  "take_out slot n s = release_reservation_node n (detach_owner_node n (remove_domain_node slot n s))"

lemma take_out_views:
  assumes "slot_list slot (xs @ n # ys) s" "pool_ok s"
  shows "taken slot xs n ys s (remove_domain_node slot n s)" "pool_ok (take_out slot n s)"
    "\<And>m. m \<noteq> n \<Longrightarrow> node_view (nodes (take_out slot n s) m) = node_view (nodes (remove_domain_node slot n s) m)"
    "\<And>b. slot_view b (take_out slot n s) = slot_view b (remove_domain_node slot n s)"
    "cpu_view (take_out slot n s) = cpu_view s" "handed_out (take_out slot n s) = handed_out s"
proof -
  let ?s1 = "remove_domain_node slot n s"
  let ?s2 = "detach_owner_node n ?s1"
  note l = slot_list_parts [OF assms(1)]
  show t: "taken slot xs n ys s ?s1" by (rule remove_taken [OF l(1,2)])
  note sd = same_domainsD [OF detach_same_domains [of ?s1 n]]
  obtain fl where fl: "pool_list fl s" using assms(2) by (auto simp: pool_ok_list)
  have live: "is_live (nodes s m)" "handed_out s m" if "m \<in> set (xs @ n # ys)" for m
    using l(3) [OF that] by (simp_all add: node_ok_def)
  have out: "m \<notin> set (xs @ n # ys)" if "m \<in> set fl" for m using live(1) fl that by (auto simp: pool_list_def)
  have p2: "pool_list fl ?s2"
  proof (rule pool_listI [OF fl])
    show "pool_view ?s2 = pool_view s" using sd(3) t by (simp add: taken_def)
    show "\<not> is_live (nodes ?s2 m) \<and> domain_next (nodes ?s2 m) = domain_next (nodes s m)" if "m \<in> set fl" for m
      using sd(1) [of m] taken_view [OF t out [OF that]] fl that by (simp add: node_view_def pool_list_def)
  qed
  have h2: "handed_out ?s2 = handed_out s" using sd(5) t handed_out_cong [of ?s1 s] by (simp add: taken_def)
  note rel = release_node [OF p2, of n, folded take_out_def]
  have n: "n \<notin> set fl" "handed_out ?s2 n" using out live(2) h2 by auto
  show "pool_ok (take_out slot n s)" by (rule rel(1) [OF n])
  show "node_view (nodes (take_out slot n s) m) = node_view (nodes ?s1 m)" if "m \<noteq> n" for m
    using rel(2) [OF n that] sd(1) [of m] by simp
  show "slot_view b (take_out slot n s) = slot_view b ?s1" for b using rel(3) [OF n] sd(2) by simp
  show "cpu_view (take_out slot n s) = cpu_view s" using rel(4) [OF n] sd(4) t by (simp add: taken_def)
  show "handed_out (take_out slot n s) = handed_out s" using rel(5) [OF n] h2 by simp
qed

text \<open>The free count that results does not wrap.\<close>

lemma take_out_count:
  assumes "slot_list slot ns s" "n \<in> set ns"
  shows "unat (slot_free_count slot s + node_total_page_count (nodes s n)) = unat (slot_free_count slot s) + (hi s n - lo s n)"
proof -
  note l = slot_list_parts [OF assms(1)]
  obtain xs ys where ns: "ns = xs @ n # ys" using assms(2) by (meson split_list)
  have len: "unat (node_total_page_count (nodes s n)) = hi s n - lo s n"
    using l(4) assms(2) unat_sub64 by (auto simp: ranges_ok_def node_total_page_count_def)
  have "(\<Sum>m\<leftarrow>ns. hi s m - lo s m) + unat (slot_free_count slot s) = unat (slot_limit slot s) - unat (slot_base slot s) + 1"
    using assms(1) by (simp add: slot_list_def)
  moreover have "hi s n - lo s n \<le> (\<Sum>m\<leftarrow>ns. hi s m - lo s m)" using ns by simp
  moreover have "unat (slot_limit slot s) + 1 < 2 ^ 64" using unat_inc [OF l(7)] unat_less64 [of "slot_limit slot s + 1"] by simp
  ultimately show ?thesis using len by (subst unat_add64) auto
qed

lemma take_out_gone:
  assumes "slot_list slot ns s" "pool_ok s" "n \<in> set ns"
  shows "gone slot ns n s (set_slot_free_count slot (slot_free_count slot s + node_total_page_count (nodes s n)) (take_out slot n s))"
proof -
  obtain xs ys where ns: "ns = xs @ n # ys" using assms(3) by (meson split_list)
  let ?s1 = "remove_domain_node slot n s"
  let ?s3 = "take_out slot n s"
  let ?k = "slot_free_count slot s + node_total_page_count (nodes s n)"
  let ?s4 = "set_slot_free_count slot ?k ?s3"
  note l = slot_list_parts [OF assms(1)]
  note w = take_out_views [OF assms(1) [unfolded ns] assms(2)]
  note t = w(1)
  have h4: "handed_out (set_slot_free_count slot c x) = handed_out x" for c x by (rule handed_out_cong) (simp add: vm_simps)
  have h1: "handed_out ?s1 = handed_out s" using t by (intro handed_out_cong) (simp add: taken_def)
  have "slot_list slot (xs @ ys) (set_slot_free_count slot ?k ?s1)"
    using slot_list_taken [OF _ t take_out_count [OF assms(1,3)]] assms(1) ns by simp
  then have own: "slot_list slot (xs @ ys) ?s4"
  proof (rule slot_list_cong [rotated 3])
    show "node_view (nodes ?s4 m) = node_view (nodes (set_slot_free_count slot ?k ?s1) m)" if "m \<in> set (xs @ ys)" for m
    proof -
      have "m \<noteq> n" using that l(2) ns by auto
      then show ?thesis using w(3) by (simp add: vm_simps)
    qed
    show "slot_view slot ?s4 = slot_view slot (set_slot_free_count slot ?k ?s1)"
      using w(4) [of slot] by (simp add: slot_view_def vm_simps)
  qed (simp add: h4 h1 w(6))
  have "slot_list c ms ?s4 \<and> (\<forall>m\<in>set ms. node_data (nodes ?s4 m) = node_data (nodes s m))" if c: "c \<noteq> slot" "slot_list c ms s" for c ms
  proof -
    have m: "node_view (nodes ?s4 m) = node_view (nodes s m)" if "m \<in> set ms" for m
    proof -
      have "m \<notin> set ns"
        using node_in_one_slot l(3) [of m] slot_list_parts(3) [OF c(2) that] c(1) by blast
      then show ?thesis using taken_view [OF t, of m] w(3) [of m] ns by (simp add: vm_simps)
    qed
    have "slot_list c ms ?s4"
    proof (rule slot_list_cong [OF _ _ _ c(2)])
      show "slot_view c ?s4 = slot_view c s" using w(4) [of c] t c(1) by (simp add: slot_view_def vm_simps taken_def)
    qed (simp_all add: m h4 w(6))
    then show ?thesis using m by (simp add: node_view_data)
  qed
  moreover have "node_data (nodes ?s4 m) = node_data (nodes s m)" if "m \<in> set ns - {n}" for m
    using w(3) [of m] that t by (simp add: vm_simps node_view_data taken_def)
  moreover have "pool_ok ?s4" using w(2) by (rule pool_ok_cong [rotated 2]) (simp_all add: vm_simps)
  moreover have "cpu_view ?s4 = cpu_view s" using w(5) by (simp add: vm_simps)
  ultimately show ?thesis using own ns unfolding gone_def by blast
qed

section \<open>Releasing by page number\<close>

text \<open>The reservation that a release of \<open>count\<close> pages at \<open>vpn\<close> means: with or without its guard page.\<close>

definition releasable :: "vmm \<Rightarrow> uint64_t \<Rightarrow> uint64_t \<Rightarrow> node_ptr \<Rightarrow> bool" where
  "releasable s vpn count n \<longleftrightarrow> hi s n = unat vpn + unat count \<and>
     (lo s n = unat vpn \<or> lo s n + unat (guard_page_count (nodes s n)) = unat vpn)"

lemma release_in_cases:
  assumes "slot_list slot ns s" "pool_ok s" "count \<noteq> 0"
  obtains (found) n s' where "n \<in> set ns" "releasable s vpn count n" "release_in slot vpn count s = Returned (s', ())" "gone slot ns n s s'"
  | (absent) "release_in slot vpn count s = Returned (s, ())" "\<And>n. n \<in> set ns \<Longrightarrow> \<not> releasable s vpn count n"
proof -
  note l = slot_list_parts [OF assms(1)]
  have u: "unat (node_usable_base_vpn (nodes s n)) = lo s n + unat (guard_page_count (nodes s n))" if "n \<in> set ns" for n
    using usable_base l(5) that by (simp add: guards_ok_def)
  show thesis
  proof (cases "vpn + count < vpn")
    case True
    have "\<not> releasable s vpn count n" for n
    proof
      assume "releasable s vpn count n"
      then have "unat vpn + unat count < 2 ^ 64" using unat_less64 [of "limit_vpn (nodes s n)"] by (simp add: releasable_def)
      then show False using True unat_add64 [of vpn count] by (simp add: word_nat)
    qed
    moreover have "release_in slot vpn count s = Returned (s, ())"
      using True assms(3) slot_validates [OF assms(1,2)]
      by (simp add: release_in_def find_exact_releasable_def make_limit_exclusive_def)
    ultimately show thesis using absent by blast
  next
    case False
    then have lim: "unat (vpn + count) = unat vpn + unat count" using unat_plus_simple [of vpn count] by (simp add: not_less)
    have f: "find_exact_releasable (slot_head slot s) vpn count s = Returned (exact_releasable_loop s vpn (vpn + count) ns)"
      using False assms(3) slot_chain [OF assms(1,2)] by (simp add: find_exact_releasable_def make_limit_exclusive_def Let_def)
    have eq: "releasable s vpn count n \<longleftrightarrow> limit_vpn (nodes s n) = vpn + count \<and>
        (base_vpn (nodes s n) = vpn \<or> node_usable_base_vpn (nodes s n) = vpn)" if "n \<in> set ns" for n
      using u [OF that] lim by (simp add: releasable_def word_unat_eq_iff)
    show thesis
    proof (cases "exact_releasable_loop s vpn (vpn + count) ns")
      case None
      have "\<not> releasable s vpn count n" if "n \<in> set ns" for n
        using exact_releasable_loop_found [OF l(4,5) that] eq [OF that] None by auto
      moreover have "release_in slot vpn count s = Returned (s, ())"
        using f None slot_validates [OF assms(1,2)] by (simp add: release_in_def)
      ultimately show thesis using absent by blast
    next
      case (Some n)
      then have n: "n \<in> set ns" "releasable s vpn count n" using exact_releasable_loop_Some eq by blast+
      let ?s3 = "take_out slot n s"
      obtain xs ys where ns: "ns = xs @ n # ys" using n(1) by (meson split_list)
      have g: "gone slot ns n s (set_slot_free_count slot (slot_free_count slot s + node_total_page_count (nodes s n)) ?s3)"
        by (rule take_out_gone [OF assms(1,2) n(1)])
      have "slot_free_count slot ?s3 = slot_free_count slot s"
        using take_out_views(1,4) [OF assms(1) [unfolded ns] assms(2)] by (simp add: taken_def slot_view_def)
      then have "release_in slot vpn count s = Returned (set_slot_free_count slot (slot_free_count slot s + node_total_page_count (nodes s n)) ?s3, ())"
        using f Some slot_validates [OF assms(1,2)] by (simp add: release_in_def Let_def take_out_def)
      then show thesis using found n g by blast
    qed
  qed
qed

section \<open>What is left\<close>

lemma gone_reservations:
  assumes "gone slot ns n s s'" "slot_list slot ns s" "pool_ok s"
  shows "set (reservations slot s') = set (reservations slot s) - {region_of s n}"
    "\<And>c ms. c \<noteq> slot \<Longrightarrow> slot_list c ms s \<Longrightarrow> reservations c s' = reservations c s"
proof -
  obtain xs ys where x: "ns = xs @ n # ys" "slot_list slot (xs @ ys) s'" "pool_ok s'"
    using assms(1) by (auto simp: gone_def)
  have "distinct ns" using slot_list_parts(2) [OF assms(2)] .
  then have "\<forall>m\<in>set (xs @ ys). node_data (nodes s' m) = node_data (nodes s m)"
    using assms(1) x(1) by (auto simp: gone_def)
  note r = map_ranges [OF this]
  have "hi s m \<noteq> hi s n" if "m \<in> set (xs @ ys)" for m
    using ranges_ok_hi_unique [OF slot_list_parts(4) [OF assms(2)], of m n] x(1) that \<open>distinct ns\<close> by auto
  then have a: "region_of s n \<notin> region_of s ` set (xs @ ys)" by (force simp: region_of_def)
  have "set (reservations slot s) = insert (region_of s n) (region_of s ` set (xs @ ys))"
    unfolding reservations_list [OF assms(2,3)] x(1) by (simp add: image_Un)
  moreover have "set (reservations slot s') = region_of s ` set (xs @ ys)"
    unfolding reservations_list [OF x(2,3)] r by (simp add: image_Un)
  ultimately show "set (reservations slot s') = set (reservations slot s) - {region_of s n}" using a by (simp add: insert_Diff_if)
  fix c ms
  assume c: "c \<noteq> slot" "slot_list c ms s"
  then have "slot_list c ms s'" "\<forall>m\<in>set ms. node_data (nodes s' m) = node_data (nodes s m)"
    using assms(1) by (auto simp: gone_def)
  then show "reservations c s' = reservations c s"
    using reservations_list [OF _ x(3)] reservations_list [OF c(2) assms(3)] map_ranges by simp
qed

lemma gone_cpu:
  "gone slot ns n (cpu_set d i s) s1 \<Longrightarrow> gone slot ns n s (cpu_set (preemption_depth (vm_pmm s)) (interrupts_enabled s) s1)"
  unfolding gone_def using cpu_view_restored [of s1 d i s] by simp

lemma cpu_set_back: "cpu_set (preemption_depth (vm_pmm s)) (interrupts_enabled s) (cpu_set d i s) = s"
  by (simp add: cpu_set_def vm_pmm_def)

lemma releasable_cpu [simp]: "releasable (cpu_set d i s) vpn count n = releasable s vpn count n"
  by (simp add: releasable_def)

text \<open>The free count is the size of the domain less the pages reserved.\<close>

lemma free_count_reservations:
  assumes "slot_list slot ns s" "pool_ok s"
  shows "unat (slot_free_count slot s) + (\<Sum>(p, g, e)\<leftarrow>reservations slot s. e - p) =
    unat (slot_limit slot s) - unat (slot_base slot s) + 1"
  using assms(1) reservations_list [OF assms] by (simp add: slot_list_def comp_def region_of_def)

section \<open>Reserving at a given place\<close>

lemma overlap_none:
  assumes "slot_list slot ns s" "pool_ok s" "unat limit = unat base + unat total_count" "limit = base + total_count" "total_count \<noteq> 0"
  shows "\<exists>r. find_overlap (slot_head slot s) base total_count s = Returned r \<and> (r = None \<longleftrightarrow> clear_at s ns (unat total_count) (unat base))"
proof -
  have "\<not> base + total_count < base" using assms(3,4) by (simp add: word_nat)
  then have "find_overlap (slot_head slot s) base total_count s = Returned (overlap_loop s base limit ns)"
    using assms(4,5) slot_chain [OF assms(1,2)] by (simp add: find_overlap_def make_limit_exclusive_def Let_def)
  moreover have "overlap_loop s base limit ns = None \<longleftrightarrow> clear_at s ns (unat total_count) (unat base)"
    using overlap_loop_None [OF slot_list_parts(4) [OF assms(1)], of base limit] assms(3) by (auto simp: clear_at_def not_less)
  ultimately show ?thesis by simp
qed

lemma reserve_at_cases:
  assumes "slot_list slot ns s" "pool_ok s" "node_ready s"
    and "unat limit = unat base + unat total_count" "limit = base + total_count"
    and "unat (guard_page_count_from_map_flags map_flags) < unat total_count"
    and "slot_base slot s \<le> base" "unat limit \<le> unat (slot_limit slot s) + 1"
  obtains (ok) s' n where
      "reserve_at slot base limit total_count owner alloc_flags map_flags policy s = Returned (s', STATUS_SUCCESS)"
      "vacant slot ns total_count s base" "owner_open owner s" "placed slot ns n s s'"
      "node_data (nodes s' n) = (base, limit, True, guard_page_count_from_map_flags map_flags, slot_asp slot, slot_domain slot)"
  | (refused) s' st where
      "reserve_at slot base limit total_count owner alloc_flags map_flags policy s = Returned (s', st)" "\<not> CHECK_SUCCESS st"
      "undisturbed s s'" "\<not> (vacant slot ns total_count s base \<and> owner_open owner s)"
proof -
  have t: "total_count \<noteq> 0" "0 < unat total_count" using assms(6) by auto
  note un = undisturbed_refl [OF assms(2)]
  obtain r where r: "find_overlap (slot_head slot s) base total_count s = Returned r" "r = None \<longleftrightarrow> clear_at s ns (unat total_count) (unat base)"
    using overlap_none [OF assms(1,2,4,5) t(1)] by blast
  let ?R = "reserve_at slot base limit total_count owner alloc_flags map_flags policy s"
  consider (few) "slot_free_count slot s < total_count" | (taken) "\<not> slot_free_count slot s < total_count" "r \<noteq> None"
    | (mapped) "\<not> slot_free_count slot s < total_count" "r = None" "\<not> is_range_unmapped slot base (unat total_count) s"
    | (free) "\<not> slot_free_count slot s < total_count" "r = None" "is_range_unmapped slot base (unat total_count) s" by blast
  then show thesis
  proof cases
    case few
    then have "\<not> vacant slot ns total_count s base" using vacant_free_count [OF assms(1), of total_count base] by (auto simp: word_nat)
    then show thesis using few un by (intro refused [of s STATUS_INSUFFICIENT_MEMORY]) (simp_all add: reserve_at_def)
  next
    case taken
    then have "\<not> vacant slot ns total_count s base" using r(2) by (simp add: vacant_def)
    then show thesis using taken un r(1) slot_validates [OF assms(1,2)]
      by (intro refused [of s STATUS_CONFLICTING_STATE]) (simp_all add: reserve_at_def)
  next
    case mapped
    then have "\<not> vacant slot ns total_count s base" by (simp add: vacant_def)
    then show thesis using mapped un r(1) slot_validates [OF assms(1,2)]
      by (intro refused [of s STATUS_CONFLICTING_STATE]) (simp_all add: reserve_at_def)
  next
    case free
    then have c: "clear_at s ns (unat total_count) (unat base)" using r(2) by simp
    then have v: "vacant slot ns total_count s base" using free(3) assms(4,7,8) by (simp add: vacant_def word_nat)
    have f: "unat total_count \<le> unat (slot_free_count slot s)" using free(1) by (simp add: word_nat)
    have R: "?R = obind (place_node slot base limit total_count owner alloc_flags map_flags policy s)
          (\<lambda>(s, r). case r of Inl status \<Rightarrow> Returned (s, status) | Inr n \<Rightarrow> Returned (s, STATUS_SUCCESS))"
      using free r(1) slot_validates [OF assms(1,2)] by (simp add: reserve_at_def)
    show thesis
    proof (cases rule: place_node_cases [OF assms(1-4) t(2) c assms(7,8,6) f, of owner alloc_flags policy, case_names ok closed])
      case (ok s' n)
      then show thesis using that(1) [OF _ v ok(2-4)] R by simp
    next
      case (closed s')
      then show thesis using that(2) [of s' STATUS_CONFLICTING_STATE] R by simp
    qed
  qed
qed

end
