(* ===== verification/Vmm_Props.thy ===== *)
theory Vmm_Props
  imports Vmm_Release Block_Client
begin

text \<open>
  The properties of the virtual memory manager, for global domains and for address spaces at once:
  \<open>slot_reserve\<close>, \<open>slot_reserve_to\<close> and \<open>slot_release\<close> call the functions for the one or the other.
  Reservations are stated over their abstract view, the ranges that \<open>reservations\<close> lists.
\<close>

section \<open>Requests\<close>

text \<open>An operation can run: the domain is set up and the preemption counter is not at its limit.\<close>

definition slot_usable :: "vm_slot \<Rightarrow> vmm \<Rightarrow> bool" where
  "slot_usable slot s \<longleftrightarrow> (case slot of GlobalSlot d \<Rightarrow> d < VMM_DOMAIN_MAX | LocalSlot a \<Rightarrow> True) \<and> slot_ready slot s \<and>
     preemption_depth (vm_pmm s) \<noteq> 0xFFFFFFFF"

text \<open>The guard pages and the total of a request, and the conditions on its arguments.\<close>

definition request_valid :: "vm_slot \<Rightarrow> uint64_t \<Rightarrow> uint32_t \<Rightarrow> bool" where
  "request_valid slot count map_flags \<longleftrightarrow>
     CHECK_SUCCESS (validate_guard_map_flags map_flags (case slot of GlobalSlot d \<Rightarrow> False | LocalSlot a \<Rightarrow> True)) \<and>
     count \<noteq> 0 \<and> guard_page_count_from_map_flags map_flags \<le> 0xFFFFFFFFFFFFFFFF - count"

definition request_pages :: "uint64_t \<Rightarrow> uint32_t \<Rightarrow> uint64_t" where
  "request_pages count map_flags = count + guard_page_count_from_map_flags map_flags"

definition request_policy :: "vm_slot \<Rightarrow> uint32_t \<Rightarrow> uint32_t \<Rightarrow> StVmm_PageMappingPolicy" where
  "request_policy slot alloc_flags map_flags =
     (case slot of GlobalSlot d \<Rightarrow> make_simple_page_mapping_policy VMM_PAGE_MAPPING_PHYSICAL
      | LocalSlot a \<Rightarrow> local_page_mapping_policy_from_flags alloc_flags map_flags)"

lemma slot_reserve_eq:
  assumes "slot_usable slot s" "slot_limit slot s \<noteq> - 1"
  shows "slot_reserve slot count owner alloc_flags map_flags s =
    (let st = validate_guard_map_flags map_flags (case slot of GlobalSlot d \<Rightarrow> False | LocalSlot a \<Rightarrow> True) in
     if \<not> CHECK_SUCCESS st then Returned (s, Inl st)
     else case make_guarded_count count (guard_page_count_from_map_flags map_flags) of
       Inl st \<Rightarrow> Returned (s, Inl st)
     | Inr n \<Rightarrow> with_irq_locked (reserve_anywhere slot n (slot_limit slot s + 1) (slot_owner slot owner s)
         alloc_flags map_flags (request_policy slot alloc_flags map_flags)) s)"
  using assms
  by (cases slot) (auto simp: slot_usable_def StVmm_ReserveGlobalPage_def StVmm_ReserveLocalPage_def
    make_domain_limit_exclusive_def request_policy_def Let_def split: sum.split)

lemma make_guarded_count_pages:
  "make_guarded_count count g = (if count = 0 then Inl STATUS_INVALID_VALUE
    else if g \<le> 0xFFFFFFFFFFFFFFFF - count then Inr (count + g) else Inl STATUS_TOO_LARGE)"
  by (auto simp: make_guarded_count_def not_less[symmetric])

lemma slot_reserve_valid:
  assumes "slot_usable slot s" "slot_limit slot s \<noteq> - 1" "request_valid slot count map_flags"
  shows "slot_reserve slot count owner alloc_flags map_flags s =
    with_irq_locked (reserve_anywhere slot (request_pages count map_flags) (slot_limit slot s + 1) (slot_owner slot owner s)
      alloc_flags map_flags (request_policy slot alloc_flags map_flags)) s"
  using assms(3) unfolding slot_reserve_eq [OF assms(1,2)]
  by (auto simp: request_valid_def make_guarded_count_pages Let_def request_pages_def)

lemma request_pages_unat:
  assumes "request_valid slot count map_flags"
  shows "unat (request_pages count map_flags) = unat count + unat (guard_page_count_from_map_flags map_flags)"
    "unat (guard_page_count_from_map_flags map_flags) < unat (request_pages count map_flags)"
proof -
  let ?g = "guard_page_count_from_map_flags map_flags"
  have "unat ?g \<le> unat (0xFFFFFFFFFFFFFFFF - count)" using assms by (simp add: request_valid_def word_nat)
  also have "\<dots> = 0xFFFFFFFFFFFFFFFF - unat count" using unat_less64 [of count] by (subst unat_sub64) (simp_all add: word_nat)
  finally show c: "unat (request_pages count map_flags) = unat count + unat ?g"
    unfolding request_pages_def using unat_less64 [of count] by (intro unat_add64) simp
  show "unat ?g < unat (request_pages count map_flags)" using assms c by (simp add: request_valid_def unat_gt_0)
qed

section \<open>Places\<close>

text \<open>A place for \<open>count\<close> pages at \<open>q\<close>: within the domain, clear of the reservations, no page mapped.\<close>

definition free_place :: "vm_slot \<Rightarrow> uint64_t \<Rightarrow> vmm \<Rightarrow> uint64_t \<Rightarrow> bool" where
  "free_place slot count s q \<longleftrightarrow>
     unat (slot_base slot s) \<le> unat q \<and> unat q + unat count \<le> unat (slot_limit slot s) + 1 \<and>
     (\<forall>(p, g, e)\<in>set (reservations slot s). unat q + unat count \<le> p \<or> e \<le> unat q) \<and>
     is_range_unmapped slot q (unat count) s"

lemma free_place_vacant: "slot_list slot ns s \<Longrightarrow> pool_ok s \<Longrightarrow> free_place slot count s q = vacant slot ns count s q"
  by (simp add: free_place_def vacant_def reservations_list clear_at_def region_of_def)

lemma vmm_inv_list: "vmm_inv S s \<Longrightarrow> slot \<in> S \<Longrightarrow> \<exists>ns. slot_list slot ns s"
  and vmm_inv_pool: "vmm_inv S s \<Longrightarrow> pool_ok s"
  by (auto simp: vmm_inv_def)

section \<open>States before and after\<close>

text \<open>No reservation of a slot in \<open>S\<close> has changed.\<close>

definition reservations_kept :: "vm_slot set \<Rightarrow> vmm \<Rightarrow> vmm \<Rightarrow> bool" where
  "reservations_kept S s s' \<longleftrightarrow> vmm_inv S s' \<and> cpu_view s' = cpu_view s \<and> (\<forall>c\<in>S. reservations c s' = reservations c s)"

text \<open>The reservations of \<open>slot\<close> are now \<open>R\<close>, those of the other slots in \<open>S\<close> have not changed.\<close>

definition reservations_become :: "vm_slot set \<Rightarrow> vm_slot \<Rightarrow> region set \<Rightarrow> vmm \<Rightarrow> vmm \<Rightarrow> bool" where
  "reservations_become S slot R s s' \<longleftrightarrow> vmm_inv S s' \<and> cpu_view s' = cpu_view s \<and>
     set (reservations slot s') = R \<and> (\<forall>c\<in>S - {slot}. reservations c s' = reservations c s)"

lemma undisturbed_kept:
  assumes "vmm_inv S s" "undisturbed s s'"
  shows "reservations_kept S s s'"
proof -
  have "reservations c s' = reservations c s" if "c \<in> S" for c
    using vmm_inv_list [OF assms(1) that] undisturbed_reservations [OF assms(2) _ vmm_inv_pool [OF assms(1)]] by blast
  then show ?thesis using assms unfolding reservations_kept_def undisturbed_def vmm_inv_def by blast
qed

lemma placed_become:
  assumes "vmm_inv S s" "slot_list slot ns s" "placed slot ns n s s'" "node_data (nodes s' n) = (base, limit, l, g, r)"
  shows "reservations_become S slot (insert (unat base, unat g, unat limit) (set (reservations slot s))) s s'"
proof -
  note p = placed_reservations [OF assms(3,2) vmm_inv_pool [OF assms(1)] assms(4)]
  have "reservations c s' = reservations c s" if "c \<in> S - {slot}" for c
    using vmm_inv_list [OF assms(1), of c] p(2) that by blast
  moreover have "\<exists>ms. slot_list c ms s'" if "c \<in> S" for c
    using assms(3) vmm_inv_list [OF assms(1) that] by (cases "c = slot") (auto simp: placed_def)
  ultimately show ?thesis using assms(3) p(1) by (simp add: reservations_become_def vmm_inv_def placed_def)
qed

lemma gone_become:
  assumes "vmm_inv S s" "slot_list slot ns s" "gone slot ns n s s'"
  shows "reservations_become S slot (set (reservations slot s) - {region_of s n}) s s'"
proof -
  note p = gone_reservations [OF assms(3,2) vmm_inv_pool [OF assms(1)]]
  have "reservations c s' = reservations c s" if "c \<in> S - {slot}" for c
    using vmm_inv_list [OF assms(1), of c] p(2) that by blast
  moreover have "\<exists>ms. slot_list c ms s'" if "c \<in> S" for c
    using assms(3) vmm_inv_list [OF assms(1) that] by (cases "c = slot") (auto simp: gone_def)
  ultimately show ?thesis using assms(3) p(1) by (simp add: reservations_become_def vmm_inv_def gone_def)
qed

section \<open>Reservation\<close>

lemma slot_reserve_cases:
  assumes "vmm_inv S s" "slot \<in> S" "slot_usable slot s" "node_ready s"
  obtains (ok) s' base where
      "slot_reserve slot count owner alloc_flags map_flags s = Returned (s', Inr (base + guard_page_count_from_map_flags map_flags))"
      "request_valid slot count map_flags" "free_place slot (request_pages count map_flags) s base"
      "reservations_become S slot
         (insert (unat base, unat (guard_page_count_from_map_flags map_flags), unat base + unat (request_pages count map_flags))
           (set (reservations slot s))) s s'"
      "\<And>q. \<not> flag_set alloc_flags AF_VMM_ALLOC_TOPDOWN \<Longrightarrow> q < base \<Longrightarrow> \<not> free_place slot (request_pages count map_flags) s q"
  | (refused) s' st where
      "slot_reserve slot count owner alloc_flags map_flags s = Returned (s', Inl st)" "reservations_kept S s s'"
      "\<And>q. \<not> flag_set alloc_flags AF_VMM_ALLOC_TOPDOWN \<Longrightarrow> request_valid slot count map_flags \<Longrightarrow>
         owner_open (slot_owner slot owner s) s \<Longrightarrow> \<not> free_place slot (request_pages count map_flags) s q"
proof -
  obtain ns where l: "slot_list slot ns s" using vmm_inv_list [OF assms(1,2)] by blast
  note p = vmm_inv_pool [OF assms(1)]
  have kept: "reservations_kept S s s" by (rule undisturbed_kept [OF assms(1) undisturbed_refl [OF p]])
  let ?g = "guard_page_count_from_map_flags map_flags"
  let ?n = "request_pages count map_flags"
  let ?f = "reserve_anywhere slot ?n (slot_limit slot s + 1) (slot_owner slot owner s) alloc_flags map_flags (request_policy slot alloc_flags map_flags)"
  let ?d = "preemption_depth (vm_pmm s)"
  let ?s0 = "cpu_set (?d + 1) False s"
  have d: "?d \<noteq> 0xFFFFFFFF" using assms(3) by (simp add: slot_usable_def)
  note eq = slot_reserve_eq [OF assms(3) slot_list_parts(7) [OF l], of count owner alloc_flags map_flags]
  show thesis
  proof (cases "request_valid slot count map_flags")
    case False
    then have "\<exists>st. slot_reserve slot count owner alloc_flags map_flags s = Returned (s, Inl st)"
      unfolding eq by (auto simp: request_valid_def make_guarded_count_pages Let_def)
    then show thesis using refused kept False by blast
  next
    case True
    then have R: "slot_reserve slot count owner alloc_flags map_flags s = with_irq_locked ?f s"
      by (rule slot_reserve_valid [OF assms(3) slot_list_parts(7) [OF l]])
    have l0: "slot_list slot ns ?s0" "pool_ok ?s0" "node_ready ?s0" using l p assms(4) by simp_all
    have unlocked: "with_irq_locked ?f s = Returned (cpu_set ?d (interrupts_enabled s) s1, r)"
      if "?f ?s0 = Returned (s1, r)" "cpu_view s1 = cpu_view ?s0" for s1 r
      using with_irq_locked_returns [where f = ?f, OF d that] .
    show thesis
    proof (cases rule: reserve_anywhere_cases [OF l0 request_pages_unat(2) [OF True], of "slot_limit slot s + 1" "slot_owner slot owner s"
        alloc_flags "request_policy slot alloc_flags map_flags", case_names ok none closed])
      case (ok s1 n base)
      let ?s' = "cpu_set ?d (interrupts_enabled s) s1"
      have v: "vacant slot ns ?n s base" using ok(2) by simp
      then have "unat base + unat ?n < 2 ^ 64"
        using unat_inc [OF slot_list_parts(7) [OF l]] unat_less64 [of "slot_limit slot s + 1"] by (simp add: vacant_def)
      then have lim: "unat (base + ?n) = unat base + unat ?n" by (rule unat_add64)
      have "reservations_become S slot (insert (unat base, unat ?g, unat (base + ?n)) (set (reservations slot s))) s ?s'"
        by (rule placed_become [OF assms(1) l placed_cpu [OF ok(3)]]) (use ok(4) in simp)
      moreover have "with_irq_locked ?f s = Returned (?s', Inr (base + ?g))"
        using unlocked [OF ok(1)] ok(3) by (simp add: placed_def)
      moreover have "\<not> free_place slot ?n s q" if "\<not> flag_set alloc_flags AF_VMM_ALLOC_TOPDOWN" "q < base" for q
        using ok(5) that free_place_vacant [OF l p] by simp
      ultimately show thesis using that(1) True R lim v free_place_vacant [OF l p] by simp
    next
      case (none s1)
      have "\<not> free_place slot ?n s q" if "\<not> flag_set alloc_flags AF_VMM_ALLOC_TOPDOWN" for q
        using none(3) that free_place_vacant [OF l p] by simp
      moreover have "with_irq_locked ?f s = Returned (cpu_set ?d (interrupts_enabled s) s1, Inl STATUS_INSUFFICIENT_MEMORY)"
        using unlocked [OF none(1)] none(2) by (simp add: undisturbed_def)
      ultimately show thesis using that(2) undisturbed_kept [OF assms(1) undisturbed_cpu [OF none(2)]] R by simp
    next
      case (closed s1)
      have "with_irq_locked ?f s = Returned (cpu_set ?d (interrupts_enabled s) s1, Inl STATUS_CONFLICTING_STATE)"
        using unlocked [OF closed(1)] closed(2) by (simp add: undisturbed_def)
      then show thesis using that(2) undisturbed_kept [OF assms(1) undisturbed_cpu [OF closed(2)]] R closed(3) by simp
    qed
  qed
qed

section \<open>Release\<close>

text \<open>The region that a release of \<open>count\<close> pages at \<open>vpn\<close> means.\<close>

definition region_matches :: "uint64_t \<Rightarrow> uint64_t \<Rightarrow> region \<Rightarrow> bool" where
  "region_matches vpn count = (\<lambda>(p, g, e). e = unat vpn + unat count \<and> (p = unat vpn \<or> p + g = unat vpn))"

lemma region_matches_node: "region_matches vpn count (region_of s n) = releasable s vpn count n"
  by (auto simp: region_matches_def region_of_def releasable_def)

lemma slot_release_eq:
  assumes "slot_list slot ns s" "pool_ok s" "slot_usable slot s"
  shows "slot_release slot vpn count s = obind (with_irq_locked (release_in slot vpn count) s) (\<lambda>(s, _). Returned s) \<and> count \<noteq> 0 \<or>
    slot_release slot vpn count s = Returned s \<and> (\<forall>r\<in>set (reservations slot s). \<not> region_matches vpn count r)"
proof -
  have r: "unat (slot_base slot s) \<le> unat vpn \<and> 0 < unat count \<and> unat vpn + unat count \<le> unat (slot_limit slot s) + 1"
    if "(p, g, e) \<in> set (reservations slot s)" "region_matches vpn count (p, g, e)" for p g e
    using reservations_sorted(2) [OF assms(1,2) that(1)] that(2) by (auto simp: region_matches_def)
  show ?thesis
  proof (cases slot)
    case (GlobalSlot d)
    then show ?thesis using assms(3) r by (auto simp: slot_usable_def StVmm_ReleaseGlobalPage_def)
  next
    case (LocalSlot a)
    have "unat (slot_limit slot s) + 1 < 2 ^ 64"
      using unat_inc [OF slot_list_parts(7) [OF assms(1)]] unat_less64 [of "slot_limit slot s + 1"] by simp
    then have "unat (vpn + count) = unat vpn + unat count \<and> unat (vpn + count - 1) = unat vpn + unat count - 1"
      if "0 < unat count \<and> unat vpn + unat count \<le> unat (slot_limit slot s) + 1"
      using that unat_add64 [of vpn count] unat_sub64 [of 1 "vpn + count"] by (simp add: word_nat)
    then have "\<not> (vpn + count < vpn \<or> vpn < slot_base slot s \<or> vpn + count - 1 > slot_limit slot s \<or> count = 0)"
      if "(p, g, e) \<in> set (reservations slot s)" "region_matches vpn count (p, g, e)" for p g e
      using r [OF that] by (auto simp: word_nat)
    then show ?thesis using LocalSlot by (auto simp: StVmm_ReleaseLocalPage_def make_limit_exclusive_def Let_def split: if_splits)
  qed
qed

lemma slot_release_cases:
  assumes "vmm_inv S s" "slot \<in> S" "slot_usable slot s"
  obtains (found) r s' where "r \<in> set (reservations slot s)" "region_matches vpn count r"
      "slot_release slot vpn count s = Returned s'" "reservations_become S slot (set (reservations slot s) - {r}) s s'"
  | (absent) "slot_release slot vpn count s = Returned s" "\<forall>r\<in>set (reservations slot s). \<not> region_matches vpn count r"
proof -
  obtain ns where l: "slot_list slot ns s" using vmm_inv_list [OF assms(1,2)] by blast
  note p = vmm_inv_pool [OF assms(1)]
  let ?f = "release_in slot vpn count"
  let ?d = "preemption_depth (vm_pmm s)"
  let ?s0 = "cpu_set (?d + 1) False s"
  have d: "?d \<noteq> 0xFFFFFFFF" using assms(3) by (simp add: slot_usable_def)
  have m: "r \<in> set (reservations slot s) \<longleftrightarrow> (\<exists>n\<in>set ns. r = region_of s n)" for r
    using reservations_list [OF l p] by auto
  consider (call) "slot_release slot vpn count s = obind (with_irq_locked ?f s) (\<lambda>(s, _). Returned s)" "count \<noteq> 0"
    | (quiet) "slot_release slot vpn count s = Returned s" "\<forall>r\<in>set (reservations slot s). \<not> region_matches vpn count r"
    using slot_release_eq [OF l p assms(3), of vpn count] by blast
  then show thesis
  proof cases
    case call
    have l0: "slot_list slot ns ?s0" "pool_ok ?s0" using l p by simp_all
    show thesis
    proof (cases rule: release_in_cases [OF l0 call(2), of vpn, case_names found absent])
      case (found n s1)
      have "with_irq_locked ?f s = Returned (cpu_set ?d (interrupts_enabled s) s1, ())"
        using with_irq_locked_returns [where f = ?f, OF d found(3)] found(4) by (simp add: gone_def)
      then show thesis
        using that(1) [of "region_of s n"] gone_become [OF assms(1) l gone_cpu [OF found(4)]] found(1,2) call(1) m region_matches_node by auto
    next
      case absent
      have "with_irq_locked ?f s = Returned (s, ())"
        using with_irq_locked_returns [where f = ?f, OF d absent(1)] by (simp add: cpu_set_back)
      moreover have "\<not> region_matches vpn count r" if "r \<in> set (reservations slot s)" for r
        using absent(2) that m [of r] by (auto simp: region_matches_node)
      ultimately show thesis using that(2) call(1) by simp
    qed
  next
    case quiet
    then show thesis using that(2) by blast
  qed
qed

section \<open>Reservation at a given place\<close>

text \<open>The request fits: its arguments are valid, and it lies within the domain, guard pages included.\<close>

definition request_fits :: "vm_slot \<Rightarrow> uint64_t \<Rightarrow> uint64_t \<Rightarrow> uint32_t \<Rightarrow> vmm \<Rightarrow> bool" where
  "request_fits slot vpn count map_flags s \<longleftrightarrow> request_valid slot count map_flags \<and>
     unat (slot_base slot s) + unat (guard_page_count_from_map_flags map_flags) \<le> unat vpn \<and>
     unat vpn + unat count \<le> unat (slot_limit slot s) + 1"

lemma request_fits_range:
  assumes "slot_limit slot s \<noteq> - 1" "request_valid slot count map_flags"
  shows "case make_node_range_from_usable vpn count (guard_page_count_from_map_flags map_flags) of
      Inl st \<Rightarrow> \<not> request_fits slot vpn count map_flags s
    | Inr (base, limit, n) \<Rightarrow> base = vpn - guard_page_count_from_map_flags map_flags \<and> n = request_pages count map_flags \<and>
        limit = base + n \<and> unat limit = unat base + unat n \<and> unat base + unat (guard_page_count_from_map_flags map_flags) = unat vpn \<and>
        (request_fits slot vpn count map_flags s \<longleftrightarrow> \<not> (base < slot_base slot s \<or> limit - 1 > slot_limit slot s))"
proof -
  let ?g = "guard_page_count_from_map_flags map_flags"
  let ?n = "request_pages count map_flags"
  let ?b = "vpn - ?g"
  have v: "count \<noteq> 0" "?g \<le> 0xFFFFFFFFFFFFFFFF - count" using assms(2) by (simp_all add: request_valid_def)
  have n: "unat ?n = unat count + unat ?g" by (rule request_pages_unat(1) [OF assms(2)])
  have n0: "count + ?g \<noteq> 0" using request_pages_unat(2) [OF assms(2)] by (auto simp: request_pages_def)
  have top: "unat (slot_limit slot s) + 1 < 2 ^ 64"
    using unat_inc [OF assms(1)] unat_less64 [of "slot_limit slot s + 1"] by simp
  show ?thesis
  proof (cases "vpn < ?g")
    case True
    then have "make_node_range_from_usable vpn count ?g = Inl STATUS_INVALID_VALUE"
      using v by (simp add: make_node_range_from_usable_def make_guarded_count_pages)
    then show ?thesis using True by (simp add: request_fits_def word_nat)
  next
    case False
    then have b: "unat ?b + unat ?g = unat vpn" using unat_sub64 [of ?g vpn] by (simp add: word_nat)
    have r: "make_node_range_from_usable vpn count ?g =
        (if ?b + ?n < ?b then Inl STATUS_INVALID_VALUE else Inr (?b, ?b + ?n, ?n))"
      using v False n0 by (auto simp: make_node_range_from_usable_def make_guarded_count_pages make_limit_exclusive_def Let_def request_pages_def)
    show ?thesis
    proof (cases "?b + ?n < ?b")
      case True
      then have "2 ^ 64 \<le> unat ?b + unat ?n" using unat_add64 [of ?b ?n] by (auto simp: word_nat not_le [symmetric])
      then show ?thesis using r True b n top by (auto simp: request_fits_def)
    next
      case False
      then have l: "unat (?b + ?n) = unat ?b + unat ?n" using unat_plus_simple [of ?b ?n] by (simp add: not_less)
      have "0 < unat count" using v(1) by (simp add: unat_gt_0)
      then have "unat (?b + ?n - 1) = unat ?b + unat ?n - 1" using l n unat_sub64 [of 1 "?b + ?n"] by (simp add: word_nat)
      then show ?thesis using r False b n l assms(2) \<open>0 < unat count\<close> by (auto simp: request_fits_def word_nat)
    qed
  qed
qed

lemma slot_reserve_to_eq:
  assumes "slot_usable slot s"
  shows "slot_reserve_to slot vpn count owner alloc_flags map_flags s =
    (let st = validate_guard_map_flags map_flags (case slot of GlobalSlot d \<Rightarrow> False | LocalSlot a \<Rightarrow> True) in
     if \<not> CHECK_SUCCESS st then Returned (s, st)
     else case make_node_range_from_usable vpn count (guard_page_count_from_map_flags map_flags) of
       Inl st \<Rightarrow> Returned (s, st)
     | Inr (base, limit, n) \<Rightarrow>
         if base < slot_base slot s \<or> limit - 1 > slot_limit slot s then Returned (s, STATUS_INVALID_VALUE)
         else with_irq_locked (reserve_at slot base limit n (slot_owner slot owner s) alloc_flags map_flags
           (request_policy slot alloc_flags map_flags)) s)"
  using assms
  by (cases slot) (simp_all add: slot_usable_def StVmm_ReserveGlobalPageTo_def StVmm_ReserveLocalPageTo_def
    reserve_local_page_to_with_policy_def request_policy_def Let_def del: CHECK_SUCCESS_iff split: sum.split)

lemma make_node_range_error:
  "make_node_range_from_usable vpn count g = Inl st \<Longrightarrow> \<not> CHECK_SUCCESS st"
  by (auto simp: make_node_range_from_usable_def make_guarded_count_pages make_limit_exclusive_def Let_def split: if_splits)

lemma make_node_range_invalid:
  assumes "CHECK_SUCCESS (validate_guard_map_flags map_flags (case slot of GlobalSlot d \<Rightarrow> False | LocalSlot a \<Rightarrow> True))"
    and "\<not> request_valid slot count map_flags"
  shows "\<exists>st. make_node_range_from_usable vpn count (guard_page_count_from_map_flags map_flags) = Inl st"
  using assms by (auto simp: request_valid_def make_node_range_from_usable_def make_guarded_count_pages simp del: CHECK_SUCCESS_iff)

lemma slot_reserve_to_calls:
  assumes "slot_usable slot s" "slot_limit slot s \<noteq> - 1"
  obtains (refused) st where "slot_reserve_to slot vpn count owner alloc_flags map_flags s = Returned (s, st)" "\<not> CHECK_SUCCESS st"
      "\<not> request_fits slot vpn count map_flags s"
  | (call) base limit where "slot_reserve_to slot vpn count owner alloc_flags map_flags s =
        with_irq_locked (reserve_at slot base limit (request_pages count map_flags) (slot_owner slot owner s) alloc_flags map_flags
          (request_policy slot alloc_flags map_flags)) s"
      "request_fits slot vpn count map_flags s" "base = vpn - guard_page_count_from_map_flags map_flags"
      "limit = base + request_pages count map_flags" "unat limit = unat base + unat (request_pages count map_flags)"
      "unat base + unat (guard_page_count_from_map_flags map_flags) = unat vpn"
proof -
  let ?st = "validate_guard_map_flags map_flags (case slot of GlobalSlot d \<Rightarrow> False | LocalSlot a \<Rightarrow> True)"
  let ?g = "guard_page_count_from_map_flags map_flags"
  note eq = slot_reserve_to_eq [OF assms(1), of vpn count owner alloc_flags map_flags]
  consider (flags) "\<not> CHECK_SUCCESS ?st" | (range) st where "CHECK_SUCCESS ?st" "make_node_range_from_usable vpn count ?g = Inl st"
    | (ok) base limit n where "CHECK_SUCCESS ?st" "make_node_range_from_usable vpn count ?g = Inr (base, limit, n)"
    by (metis sum.exhaust prod_cases3)
  then show thesis
  proof cases
    case flags
    then show thesis using that(1) eq by (simp add: Let_def request_fits_def request_valid_def del: CHECK_SUCCESS_iff)
  next
    case range
    have "\<not> request_fits slot vpn count map_flags s"
      using request_fits_range [OF assms(2), of count map_flags vpn] range(2) by (auto simp: request_fits_def)
    then show thesis using that(1) eq range make_node_range_error [OF range(2)] by (simp add: Let_def del: CHECK_SUCCESS_iff)
  next
    case ok
    then have "request_valid slot count map_flags" using make_node_range_invalid [OF ok(1), of count vpn] by auto
    note f = request_fits_range [OF assms(2) this, of vpn, unfolded ok(2) sum.case prod.case]
    then have e: "base = vpn - ?g" "n = request_pages count map_flags" "limit = base + request_pages count map_flags"
        "unat limit = unat base + unat (request_pages count map_flags)" "unat base + unat ?g = unat vpn"
        "request_fits slot vpn count map_flags s \<longleftrightarrow> \<not> (base < slot_base slot s \<or> limit - 1 > slot_limit slot s)"
      by blast+
    have r: "slot_reserve_to slot vpn count owner alloc_flags map_flags s =
        (if \<not> request_fits slot vpn count map_flags s then Returned (s, STATUS_INVALID_VALUE)
         else with_irq_locked (reserve_at slot base limit (request_pages count map_flags) (slot_owner slot owner s) alloc_flags map_flags
           (request_policy slot alloc_flags map_flags)) s)"
      unfolding eq e(6) ok(2) Let_def sum.case prod.case e(2) using ok(1) by (simp del: CHECK_SUCCESS_iff)
    show thesis
    proof (cases "request_fits slot vpn count map_flags s")
      case True
      then show thesis using that(2) [OF _ True e(1,3,4,5)] r by simp
    next
      case False
      then show thesis using that(1) [of STATUS_INVALID_VALUE] r by simp
    qed
  qed
qed

lemma slot_reserve_to_cases:
  assumes "vmm_inv S s" "slot \<in> S" "slot_usable slot s" "node_ready s"
  obtains (ok) s' where "slot_reserve_to slot vpn count owner alloc_flags map_flags s = Returned (s', STATUS_SUCCESS)"
      "request_fits slot vpn count map_flags s" "owner_open (slot_owner slot owner s) s"
      "free_place slot (request_pages count map_flags) s (vpn - guard_page_count_from_map_flags map_flags)"
      "reservations_become S slot
         (insert (unat vpn - unat (guard_page_count_from_map_flags map_flags), unat (guard_page_count_from_map_flags map_flags),
            unat vpn + unat count) (set (reservations slot s))) s s'"
  | (refused) s' st where "slot_reserve_to slot vpn count owner alloc_flags map_flags s = Returned (s', st)" "\<not> CHECK_SUCCESS st"
      "reservations_kept S s s'"
      "\<not> (request_fits slot vpn count map_flags s \<and> owner_open (slot_owner slot owner s) s \<and>
          free_place slot (request_pages count map_flags) s (vpn - guard_page_count_from_map_flags map_flags))"
proof -
  obtain ns where l: "slot_list slot ns s" using vmm_inv_list [OF assms(1,2)] by blast
  note p = vmm_inv_pool [OF assms(1)]
  let ?g = "guard_page_count_from_map_flags map_flags"
  let ?n = "request_pages count map_flags"
  let ?d = "preemption_depth (vm_pmm s)"
  let ?s0 = "cpu_set (?d + 1) False s"
  have d: "?d \<noteq> 0xFFFFFFFF" using assms(3) by (simp add: slot_usable_def)
  show thesis
  proof (cases rule: slot_reserve_to_calls [OF assms(3) slot_list_parts(7) [OF l], of vpn count owner alloc_flags map_flags, case_names refused call])
    case (refused st)
    then show thesis using that(2) undisturbed_kept [OF assms(1) undisturbed_refl [OF p]] by blast
  next
    case (call base limit)
    have v: "request_valid slot count map_flags" using call(2) by (simp add: request_fits_def)
    note n = request_pages_unat [OF v]
    let ?f = "reserve_at slot base limit ?n (slot_owner slot owner s) alloc_flags map_flags (request_policy slot alloc_flags map_flags)"
    have l0: "slot_list slot ns ?s0" "pool_ok ?s0" "node_ready ?s0" using l p assms(4) by simp_all
    have bounds: "slot_base slot ?s0 \<le> base" "unat limit \<le> unat (slot_limit slot ?s0) + 1"
      using call(2,5,6) n by (simp_all add: request_fits_def word_nat)
    show thesis
    proof (cases rule: reserve_at_cases [OF l0 call(5,4) n(2) bounds, of "slot_owner slot owner s" alloc_flags
        "request_policy slot alloc_flags map_flags", case_names ok refused])
      case (ok s1 m)
      have "with_irq_locked ?f s = Returned (cpu_set ?d (interrupts_enabled s) s1, STATUS_SUCCESS)"
        using with_irq_locked_returns [where f = ?f, OF d ok(1)] ok(4) by (simp add: placed_def)
      moreover have "reservations_become S slot (insert (unat base, unat ?g, unat limit) (set (reservations slot s))) s
          (cpu_set ?d (interrupts_enabled s) s1)"
        by (rule placed_become [OF assms(1) l placed_cpu [OF ok(4)]]) (use ok(5) in simp)
      moreover have "unat base = unat vpn - unat ?g" "unat limit = unat vpn + unat count" using call(5,6) n by simp_all
      ultimately show thesis using that(1) call(1,2,3) ok(2,3) free_place_vacant [OF l p] by simp
    next
      case (refused s1 st)
      have "with_irq_locked ?f s = Returned (cpu_set ?d (interrupts_enabled s) s1, st)"
        using with_irq_locked_returns [where f = ?f, OF d refused(1)] refused(3) by (simp add: undisturbed_def)
      then show thesis
        using that(2) [OF _ refused(2)] undisturbed_kept [OF assms(1) undisturbed_cpu [OF refused(3)]] refused(4) call(1,3) free_place_vacant [OF l p] by auto
    qed
  qed
qed

end
