(* ===== verification/Vmm_Contract.thy ===== *)
theory Vmm_Contract
  imports Vmm_Props Pmm_Mark_Props "HOL-Library.Product_Lexorder"
begin

text \<open>
  What the virtual memory manager promises its callers: the invariant, the safety and the success of
  reservations, the effect of releases, and what runs of callers can rely on.
\<close>

section \<open>Regions\<close>

lemma sorted_wrt_cases:
  assumes "sorted_wrt R xs" "x \<in> set xs" "y \<in> set xs"
  shows "x = y \<or> R x y \<or> R y x"
  using assms by (induction xs) auto

lemma regions_apart:
  assumes "vmm_inv S s" "slot \<in> S" "(p, g, e) \<in> set (reservations slot s)" "(p', g', e') \<in> set (reservations slot s)"
  shows "(p, g, e) = (p', g', e') \<or> e \<le> p' \<or> e' \<le> p"
proof -
  obtain ns where l: "slot_list slot ns s" using vmm_inv_list [OF assms(1,2)] by blast
  show ?thesis
    using sorted_wrt_cases [OF reservations_sorted(1) [OF l vmm_inv_pool [OF assms(1)]] assms(3,4)] by auto
qed

lemma region_bounds:
  assumes "vmm_inv S s" "slot \<in> S" "(p, g, e) \<in> set (reservations slot s)"
  shows "unat (slot_base slot s) \<le> p" "p + g < e" "e \<le> unat (slot_limit slot s) + 1" "e < 2 ^ 64"
proof -
  obtain ns where l: "slot_list slot ns s" using vmm_inv_list [OF assms(1,2)] by blast
  show b: "unat (slot_base slot s) \<le> p" "p + g < e" "e \<le> unat (slot_limit slot s) + 1"
    using reservations_sorted(2) [OF l vmm_inv_pool [OF assms(1)] assms(3)] by simp_all
  show "e < 2 ^ 64"
    using b(3) unat_inc [OF slot_list_parts(7) [OF l]] unat_less64 [of "slot_limit slot s + 1"] by simp
qed

text \<open>The pages of a region end where no other region ends.\<close>

lemma region_matches_unique:
  assumes "vmm_inv S s" "slot \<in> S" "r \<in> set (reservations slot s)" "r' \<in> set (reservations slot s)"
    and "region_matches vpn count r" "region_matches vpn' count' r'" "unat vpn + unat count = unat vpn' + unat count'"
  shows "r = r'"
proof -
  obtain p g e p' g' e' where r: "r = (p, g, e)" "r' = (p', g', e')" by (metis prod_cases3)
  have "e = e'" using assms(5-7) r by (simp add: region_matches_def)
  then show ?thesis
    using regions_apart [OF assms(1,2), of p g e p' g' e'] region_bounds(2) [OF assms(1,2)] assms(3,4) r by fastforce
qed

lemma slot_usable_cong:
  assumes "cpu_view s' = cpu_view s"
  shows "slot_usable slot s' = slot_usable slot s"
proof -
  have "domain_view s' slot = domain_view s slot" "preemption_depth (vm_pmm s') = preemption_depth (vm_pmm s)"
    using assms by (simp_all add: cpu_view_def)
  then show ?thesis by (simp add: slot_usable_def domain_view_def)
qed

lemma release_of_region:
  assumes "vmm_inv S s" "slot \<in> S" "slot_usable slot s" "r \<in> set (reservations slot s)" "region_matches vpn count r"
  shows "\<exists>s'. slot_release slot vpn count s = Returned s' \<and> reservations_become S slot (set (reservations slot s) - {r}) s s'"
proof (cases rule: slot_release_cases [OF assms(1-3), of vpn count, case_names found absent])
  case (found r' s')
  then show ?thesis using region_matches_unique [OF assms(1,2,4) found(1) assms(5) found(2)] by auto
next
  case absent
  then show ?thesis using assms(4,5) by blast
qed

section \<open>Domains\<close>

lemma domain_size:
  fixes base limit :: uint64_t
  assumes "base \<le> limit" "limit \<noteq> - 1"
  shows "unat (limit - base + 1) = unat limit - unat base + 1"
proof -
  have s: "unat (limit - base) = unat limit - unat base" using assms(1) by (intro unat_sub64) (simp add: word_nat)
  have "unat (limit - base) + unat (1 :: uint64_t) < 2 ^ 64"
    using s unat_inc [OF assms(2)] unat_less64 [of "limit + 1"] by simp
  from unat_add64 [OF this] show ?thesis using s by simp
qed

lemma slot_list_empty:
  assumes "slot_head slot s = None" "slot_base slot s \<le> slot_limit slot s" "slot_limit slot s \<noteq> - 1"
    and "slot_free_count slot s = slot_limit slot s - slot_base slot s + 1"
  shows "slot_list slot [] s"
  using assms domain_size [OF assms(2,3)] by (simp add: slot_list_def ranges_ok_def guards_ok_def)

lemma new_domain_inv:
  assumes "vmm_inv S s" "slot_list slot [] s'" "nodes s' = nodes s" "pool_view s' = pool_view s"
    and "\<And>c. c \<noteq> slot \<Longrightarrow> slot_view c s' = slot_view c s"
  shows "vmm_inv (insert slot S) s'" "reservations slot s' = []" "\<And>c. c \<in> S - {slot} \<Longrightarrow> reservations c s' = reservations c s"
proof -
  have p: "pool_ok s'" using pool_ok_cong [OF assms(4) _ vmm_inv_pool [OF assms(1)]] assms(3) by simp
  have l: "slot_list c ns s'" if "c \<noteq> slot" "slot_list c ns s" for c ns
    using slot_list_cong [OF _ assms(5) [OF that(1)] _ that(2)] assms(3) handed_out_cong [OF assms(4)] by simp
  show "vmm_inv (insert slot S) s'"
    using assms(1,2) p l unfolding vmm_inv_def by (metis insertE)
  show "reservations slot s' = []" using reservations_list [OF assms(2) p] by simp
  show "reservations c s' = reservations c s" if c: "c \<in> S - {slot}" for c
  proof -
    obtain ns where "slot_list c ns s" using vmm_inv_list [OF assms(1), of c] c by blast
    then show ?thesis
      using reservations_list [OF l p] reservations_list [OF _ vmm_inv_pool [OF assms(1)]] c assms(3) by (simp add: region_of_def)
  qed
qed

lemma init_global_domain:
  assumes "vmm_inv S s" "d < VMM_DOMAIN_MAX" "base \<le> limit" "limit \<noteq> - 1"
  obtains s' where "StVmm_InitGlobalDomain d base limit s = (s', STATUS_SUCCESS)" "vmm_inv (insert (GlobalSlot d) S) s'"
    "reservations (GlobalSlot d) s' = []" "\<And>c. c \<in> S - {GlobalSlot d} \<Longrightarrow> reservations c s' = reservations c s"
    "slot_base (GlobalSlot d) s' = base" "slot_limit (GlobalSlot d) s' = limit" "slot_ready (GlobalSlot d) s'"
proof -
  define s' where "s' = fst (StVmm_InitGlobalDomain d base limit s)"
  have r: "StVmm_InitGlobalDomain d base limit s = (s', STATUS_SUCCESS)"
    using assms(2,3) by (simp add: s'_def StVmm_InitGlobalDomain_def)
  have e: "s' = s\<lparr>reservation_domain_list := (reservation_domain_list s)(d := \<lparr>dom_head = None, dom_base_vpn = base, dom_limit_vpn = limit,
      dom_free_count = limit - base + 1, dom_initialized = True\<rparr>)\<rparr>"
    using assms(2,3) by (simp add: s'_def StVmm_InitGlobalDomain_def)
  have l: "slot_list (GlobalSlot d) [] s'" by (rule slot_list_empty) (use assms(3,4) in \<open>simp_all add: e\<close>)
  have v: "slot_view c s' = slot_view c s" if "c \<noteq> GlobalSlot d" for c using that by (cases c) (simp_all add: e slot_view_def)
  have "nodes s' = nodes s" "pool_view s' = pool_view s" by (simp_all add: e pool_view_def)
  from new_domain_inv [OF assms(1) l this v] show thesis using that r by (simp add: e)
qed

lemma init_local_domain:
  assumes "vmm_inv S s" "base \<le> limit" "limit \<noteq> - 1"
  obtains s' where "StVmm_InitLocalDomain (Some a) base limit s = (s', STATUS_SUCCESS)" "vmm_inv (insert (LocalSlot a) S) s'"
    "reservations (LocalSlot a) s' = []" "\<And>c. c \<in> S - {LocalSlot a} \<Longrightarrow> reservations c s' = reservations c s"
    "slot_base (LocalSlot a) s' = base" "slot_limit (LocalSlot a) s' = limit"
proof -
  define s' where "s' = fst (StVmm_InitLocalDomain (Some a) base limit s)"
  have r: "StVmm_InitLocalDomain (Some a) base limit s = (s', STATUS_SUCCESS)"
    using assms(2) by (simp add: s'_def StVmm_InitLocalDomain_def)
  have e: "s' = s\<lparr>asps := (asps s)(a := (asps s a)\<lparr>user_reservation_head := None, user_base_vpn := base, user_limit_vpn := limit,
      user_free_count := limit - base + 1\<rparr>)\<rparr>"
    using assms(2) by (simp add: s'_def StVmm_InitLocalDomain_def)
  have l: "slot_list (LocalSlot a) [] s'" by (rule slot_list_empty) (use assms(2,3) in \<open>simp_all add: e\<close>)
  have v: "slot_view c s' = slot_view c s" if "c \<noteq> LocalSlot a" for c using that by (cases c) (simp_all add: e slot_view_def)
  have "nodes s' = nodes s" "pool_view s' = pool_view s" by (simp_all add: e pool_view_def)
  from new_domain_inv [OF assms(1) l this v] show thesis using that r by (simp add: e)
qed

section \<open>A state to start from\<close>

text \<open>The statically initialised variables, with page tables that map nothing, and the state after
  the setup of an address space of sixteen pages.\<close>

definition boot_vmm :: vmm where
  "boot_vmm =
     \<lparr>vm_mmu = \<lparr>mm_pmm = boot_state, phys_mem = (\<lambda>_ _. 0), root_table_pfn = (\<lambda>_. 0), page_table_frame_cache = [],
        page_table_frame_cache_pages = 0, page_table_frame_quarantine = [], page_table_frame_quarantine_pages = 0,
        cr3 = 0, current_asp = 0, has_nx = True, has_invlpg = True\<rparr>,
      nodes = (\<lambda>_. zero_node),
      reservation_domain_list = (\<lambda>_. \<lparr>dom_head = None, dom_base_vpn = 0, dom_limit_vpn = 0, dom_free_count = 0, dom_initialized = False\<rparr>),
      asps = (\<lambda>_. \<lparr>user_reservation_head = None, user_base_vpn = 0, user_limit_vpn = 0, user_free_count = 0, alloc_owner = None\<rparr>),
      first_vmm_reservation = (\<lambda>_. None), last_vmm_reservation = (\<lambda>_. None), early_reservation_node_pool_used_count = 0,
      dynamic_reservation_node_freelist = None, dynamic_reservation_node_free_count = 0, dynamic_reservation_node_total_count = 0,
      is_topping_up_dynamic_reservation_node_pool = False, dynamic_reservation_node_slabs = [],
      validate_fail_log_budget = 0, interrupts_enabled = True\<rparr>"

definition user_vmm :: vmm where
  "user_vmm = fst (StVmm_InitLocalDomain (Some 2) 16 31 boot_vmm)"

lemma boot_vmm_inv: "vmm_inv {} boot_vmm"
  by (simp add: vmm_inv_def pool_ok_def boot_vmm_def exI [of _ "[]"])

lemma user_vmm_facts:
  "vmm_inv {LocalSlot 2} user_vmm" "reservations (LocalSlot 2) user_vmm = []" "slot_usable (LocalSlot 2) user_vmm"
  "node_ready user_vmm" "slot_base (LocalSlot 2) user_vmm = 16" "slot_limit (LocalSlot 2) user_vmm = 31"
proof -
  obtain s where s: "StVmm_InitLocalDomain (Some 2) 16 31 boot_vmm = (s, STATUS_SUCCESS)" "vmm_inv (insert (LocalSlot 2) {}) s"
      "reservations (LocalSlot 2) s = []" "slot_base (LocalSlot 2) s = 16" "slot_limit (LocalSlot 2) s = 31"
    using init_local_domain [OF boot_vmm_inv, of 16 31 2] by auto
  then show "vmm_inv {LocalSlot 2} user_vmm" "reservations (LocalSlot 2) user_vmm = []"
      "slot_base (LocalSlot 2) user_vmm = 16" "slot_limit (LocalSlot 2) user_vmm = 31" by (simp_all add: user_vmm_def)
  show "slot_usable (LocalSlot 2) user_vmm" "node_ready user_vmm"
    by (simp_all add: slot_usable_def node_ready_def user_vmm_def StVmm_InitLocalDomain_def boot_vmm_def boot_state_def vm_pmm_def
      EARLY_RESERVATION_NODE_POOL_COUNT_def)
qed

lemma user_vmm_unmapped:
  assumes "vpn \<le> 31"
  shows "slot_page_status (LocalSlot 2) vpn user_vmm = Inl STATUS_PAGE_NOT_PRESENT"
proof -
  have "vpn \<le> MEMMAP_LOCAL_VPN_LIMIT" "vpn \<le> VIRT_PAGE_MAX" "\<not> PML4_HOLE_START \<le> vpn"
    using assms unfolding word_nat MEMMAP_LOCAL_VPN_LIMIT_def VIRT_PAGE_MAX_def PML4_HOLE_START_def by simp_all
  then show ?thesis
    by (simp add: StMmP_LocalVirtPageToPhysFrame_def IS_LOCAL_VPN_def vpn_to_pfn_def walk_def user_vmm_def StVmm_InitLocalDomain_def
      boot_vmm_def flag_set_def not_less)
qed

lemma user_vmm_place: "free_place (LocalSlot 2) 3 user_vmm 16"
proof -
  have "is_range_unmapped (LocalSlot 2) 16 3 user_vmm" by (simp add: numeral_3_eq_3 user_vmm_unmapped [simplified])
  then show ?thesis unfolding free_place_def user_vmm_facts by simp
qed

lemma one_guard_page: "guard_page_count_from_map_flags MF_GUARD = 1"
  by (simp add: guard_page_count_from_map_flags_def flag_set_def MF_GUARD_def VMM_GUARD_PAGE_COUNT_def)

text \<open>A request for two pages with a guard page, and the state after it.\<close>

lemma user_request:
  "\<not> flag_set 0 AF_VMM_ALLOC_TOPDOWN" "request_valid (LocalSlot 2) 2 MF_GUARD"
  "owner_open (slot_owner (LocalSlot 2) None user_vmm) user_vmm" "free_place (LocalSlot 2) (request_pages 2 MF_GUARD) user_vmm 16"
proof -
  show "\<not> flag_set 0 AF_VMM_ALLOC_TOPDOWN" by (simp add: flag_set_def)
  show "request_valid (LocalSlot 2) 2 MF_GUARD" unfolding request_valid_def one_guard_page
    by (simp add: validate_guard_map_flags_def flag_set_def MF_GUARD_def MF_GUARD_GROW_DOWN_def)
  show "owner_open (slot_owner (LocalSlot 2) None user_vmm) user_vmm"
    by (simp add: owner_open_def user_vmm_def StVmm_InitLocalDomain_def boot_vmm_def)
  show "free_place (LocalSlot 2) (request_pages 2 MF_GUARD) user_vmm 16"
    using user_vmm_place by (simp add: request_pages_def one_guard_page)
qed

definition reserved_vmm :: vmm where
  "reserved_vmm = (case slot_reserve (LocalSlot 2) 2 None 0 MF_GUARD user_vmm of Returned (s, _) \<Rightarrow> s | _ \<Rightarrow> user_vmm)"

lemma reserved_vmm_facts:
  "slot_reserve (LocalSlot 2) 2 None 0 MF_GUARD user_vmm = Returned (reserved_vmm, Inr 17)"
  "vmm_inv {LocalSlot 2} reserved_vmm" "slot_usable (LocalSlot 2) reserved_vmm"
  "set (reservations (LocalSlot 2) reserved_vmm) = {(16, 1, 19)}"
proof -
  obtain s' where s: "slot_reserve (LocalSlot 2) 2 None 0 MF_GUARD user_vmm = Returned (s', Inr 17)"
      "reservations_become {LocalSlot 2} (LocalSlot 2) {(16, 1, 19)} user_vmm s'"
  proof (cases rule: slot_reserve_cases [OF user_vmm_facts(1) insertI1 user_vmm_facts(3,4), of 2 None 0 MF_GUARD, case_names ok refused])
    case (ok s' base)
    have "base \<le> 16" using ok(5) user_request not_less by blast
    moreover have "unat (16 :: uint64_t) \<le> unat base" using ok(3) unfolding free_place_def user_vmm_facts by blast
    ultimately have "base = 16" by (simp add: word_nat word_unat_eq_iff)
    then show thesis using that ok(1,4) by (simp add: one_guard_page request_pages_def user_vmm_facts(2))
  next
    case (refused s' st)
    then show thesis using user_request by blast
  qed
  then show "slot_reserve (LocalSlot 2) 2 None 0 MF_GUARD user_vmm = Returned (reserved_vmm, Inr 17)"
      "vmm_inv {LocalSlot 2} reserved_vmm" "slot_usable (LocalSlot 2) reserved_vmm"
      "set (reservations (LocalSlot 2) reserved_vmm) = {(16, 1, 19)}"
    using slot_usable_cong [of s' user_vmm "LocalSlot 2"] user_vmm_facts(3) by (simp_all add: reserved_vmm_def reservations_become_def)
qed

section \<open>Reservations determine the state of a domain\<close>

lemma regions_strict:
  assumes "vmm_inv S s" "slot \<in> S"
  shows "sorted_wrt (<) (reservations slot s)"
proof -
  obtain ns where l: "slot_list slot ns s" using vmm_inv_list [OF assms] by blast
  show ?thesis
  proof (rule sorted_wrt_mono_rel [OF _ reservations_sorted(1) [OF l vmm_inv_pool [OF assms(1)]]])
    fix x y :: region
    assume "x \<in> set (reservations slot s)" "(\<lambda>(_, _, e) (p, _, _). e \<le> p) x y"
    moreover obtain p g e p' g' e' where "x = (p, g, e)" "y = (p', g', e')" by (metis prod_cases3)
    ultimately show "x < y" using region_bounds(2) [OF assms, of p g e] by simp
  qed
qed

lemma reservations_determined:
  assumes "vmm_inv S s'" "vmm_inv S s" "slot \<in> S" "set (reservations slot s') = set (reservations slot s)"
  shows "reservations slot s' = reservations slot s"
  using strict_sorted_equal [OF regions_strict [OF assms(2,3)] regions_strict [OF assms(1,3)]] assms(4) by simp

lemma free_count_determined:
  assumes "vmm_inv S s'" "vmm_inv S s" "slot \<in> S" "cpu_view s' = cpu_view s" "reservations slot s' = reservations slot s"
  shows "slot_free_count slot s' = slot_free_count slot s"
proof -
  obtain ns ns' where l: "slot_list slot ns s" "slot_list slot ns' s'" using vmm_inv_list [OF assms(1,3)] vmm_inv_list [OF assms(2,3)] by blast
  have "domain_view s' slot = domain_view s slot" using assms(4) by (simp add: cpu_view_def)
  then have "slot_base slot s' = slot_base slot s" "slot_limit slot s' = slot_limit slot s" by (simp_all add: domain_view_def)
  then have "unat (slot_free_count slot s') = unat (slot_free_count slot s)"
    using free_count_reservations [OF l(1) vmm_inv_pool [OF assms(2)]] free_count_reservations [OF l(2) vmm_inv_pool [OF assms(1)]] assms(5) by simp
  then show ?thesis by (simp add: word_unat_eq_iff)
qed

text \<open>The region that a successful reservation adds, as the later release of the pages names it.\<close>

lemma reserve_region:
  assumes "vmm_inv S s" "slot \<in> S" "slot_usable slot s" "node_ready s"
    and "slot_reserve slot count owner alloc_flags map_flags s = Returned (s1, Inr v)"
  obtains p e where "reservations_become S slot (insert (p, unat v - p, e) (set (reservations slot s))) s s1"
    "region_matches v count (p, unat v - p, e)" "(p, unat v - p, e) \<notin> set (reservations slot s)"
    "\<forall>(p', g', e')\<in>set (reservations slot s). e \<le> p' \<or> e' \<le> p" "unat v = p + unat (guard_page_count_from_map_flags map_flags)"
proof (cases rule: slot_reserve_cases [OF assms(1-4), of count owner alloc_flags map_flags, case_names ok refused])
  case (ok s' base)
  let ?g = "guard_page_count_from_map_flags map_flags"
  note n = request_pages_unat [OF ok(2)]
  obtain ns where l: "slot_list slot ns s" using vmm_inv_list [OF assms(1,2)] by blast
  have top: "unat base + unat (request_pages count map_flags) < 2 ^ 64"
    using ok(3) unat_inc [OF slot_list_parts(7) [OF l]] unat_less64 [of "slot_limit slot s + 1"] by (simp add: free_place_def)
  have e: "s1 = s'" "v = base + ?g" using ok(1) assms(5) by simp_all
  have v: "unat v = unat base + unat ?g" unfolding e(2) using top n by (intro unat_add64) simp
  let ?e = "unat base + unat (request_pages count map_flags)"
  have lt: "unat base < ?e" using n by simp
  have apart: "\<forall>(p', g', e')\<in>set (reservations slot s). ?e \<le> p' \<or> e' \<le> unat base" using ok(3) by (simp add: free_place_def)
  have "(unat base, unat v - unat base, ?e) \<notin> set (reservations slot s)" using lt by (auto dest!: bspec [OF apart])
  moreover have "region_matches v count (unat base, unat v - unat base, ?e)" using v n by (simp add: region_matches_def)
  ultimately show thesis using that [of "unat base" ?e] ok(4) e(1) v apart by simp
next
  case (refused s' st)
  then show thesis using assms(5) by simp
qed

lemma reserve_to_region:
  assumes "vmm_inv S s" "slot \<in> S" "slot_usable slot s" "node_ready s"
    and "slot_reserve_to slot v count owner alloc_flags map_flags s = Returned (s1, STATUS_SUCCESS)"
  obtains p e where "reservations_become S slot (insert (p, unat v - p, e) (set (reservations slot s))) s s1"
    "region_matches v count (p, unat v - p, e)" "(p, unat v - p, e) \<notin> set (reservations slot s)"
    "\<forall>(p', g', e')\<in>set (reservations slot s). e \<le> p' \<or> e' \<le> p" "unat v = p + unat (guard_page_count_from_map_flags map_flags)"
proof (cases rule: slot_reserve_to_cases [OF assms(1-4), of v count owner alloc_flags map_flags, case_names ok refused])
  case (ok s')
  let ?g = "guard_page_count_from_map_flags map_flags"
  have f: "request_valid slot count map_flags" "unat ?g \<le> unat v" using ok(2) by (simp_all add: request_fits_def)
  note n = request_pages_unat [OF f(1)]
  have e: "s1 = s'" using ok(1) assms(5) by simp
  have b: "unat (v - ?g) = unat v - unat ?g" using f(2) by (rule unat_sub64)
  let ?p = "unat v - unat ?g"
  let ?e = "unat v + unat count"
  have lt: "?p < ?e" using n by simp
  have apart: "\<forall>(p', g', e')\<in>set (reservations slot s). ?e \<le> p' \<or> e' \<le> ?p" using ok(4) n f(2) b by (auto simp: free_place_def)
  have "(?p, unat v - ?p, ?e) \<notin> set (reservations slot s)" using lt by (auto dest!: bspec [OF apart])
  moreover have "region_matches v count (?p, unat v - ?p, ?e)" by (simp add: region_matches_def)
  ultimately show thesis using that [of ?p ?e] ok(5) e f(2) apart by simp
next
  case (refused s' st)
  then show thesis using assms(5) by simp
qed

section \<open>Clients of a domain\<close>

text \<open>A block is given by its first page and the number of pages after it. The steps of clients: a reservation that
  succeeds, an operation that leaves the domain alone because it is refused or concerns another domain, and a
  release of a block, by its first page or by the page above its guard page.\<close>

definition vmm_ready :: "vm_slot set \<Rightarrow> vm_slot \<Rightarrow> vmm \<Rightarrow> bool" where
  "vmm_ready S slot s \<longleftrightarrow> vmm_inv S s \<and> slot \<in> S \<and> slot_usable slot s"

definition slot_owns :: "vm_slot \<Rightarrow> vmm \<Rightarrow> nat \<times> nat \<Rightarrow> bool" where
  "slot_owns slot s b \<longleftrightarrow> (\<exists>g. (fst b, g, fst b + snd b + 1) \<in> set (reservations slot s))"

definition block_pages_of :: "nat \<times> nat \<Rightarrow> nat set" where
  "block_pages_of b = {fst b..fst b + snd b}"

definition vmm_take :: "vm_slot \<Rightarrow> vmm \<Rightarrow> nat \<times> nat \<Rightarrow> vmm \<Rightarrow> bool" where
  "vmm_take slot s b s' \<longleftrightarrow> node_ready s \<and> (\<exists>count v owner alloc_flags map_flags.
     (slot_reserve slot count owner alloc_flags map_flags s = Returned (s', Inr v) \<or>
      slot_reserve_to slot v count owner alloc_flags map_flags s = Returned (s', STATUS_SUCCESS)) \<and>
     fst b + unat (guard_page_count_from_map_flags map_flags) = unat v \<and> fst b + snd b + 1 = unat v + unat count)"

definition vmm_operation :: "vm_slot \<Rightarrow> vmm \<Rightarrow> vmm \<Rightarrow> bool" where
  "vmm_operation c s s' \<longleftrightarrow> node_ready s \<and> slot_usable c s \<and> (\<exists>vpn count owner alloc_flags map_flags.
     (\<exists>r. slot_reserve c count owner alloc_flags map_flags s = Returned (s', r)) \<or>
     (\<exists>st. slot_reserve_to c vpn count owner alloc_flags map_flags s = Returned (s', st)) \<or>
     slot_release c vpn count s = Returned s')"

definition vmm_pass :: "vm_slot set \<Rightarrow> vm_slot \<Rightarrow> vmm \<Rightarrow> vmm \<Rightarrow> bool" where
  "vmm_pass S slot s s' \<longleftrightarrow>
     (\<exists>c\<in>S - {slot}. vmm_operation c s s') \<or>
     node_ready s \<and> (\<exists>vpn count owner alloc_flags map_flags st.
       slot_reserve slot count owner alloc_flags map_flags s = Returned (s', Inl st) \<or>
       slot_reserve_to slot vpn count owner alloc_flags map_flags s = Returned (s', st) \<and> \<not> CHECK_SUCCESS st)"

definition vmm_give :: "vm_slot \<Rightarrow> vmm \<Rightarrow> nat \<times> nat \<Rightarrow> vmm \<Rightarrow> bool" where
  "vmm_give slot s b s' \<longleftrightarrow> (\<exists>vpn count g. (fst b, g, fst b + snd b + 1) \<in> set (reservations slot s) \<and>
     region_matches vpn count (fst b, g, fst b + snd b + 1) \<and> slot_release slot vpn count s = Returned s')"

lemma vmm_take_adds:
  assumes "vmm_ready S slot s" "vmm_take slot s b s'"
  obtains g where "reservations_become S slot (insert (fst b, g, fst b + snd b + 1) (set (reservations slot s))) s s'"
    "\<forall>(p', g', e')\<in>set (reservations slot s). fst b + snd b + 1 \<le> p' \<or> e' \<le> fst b"
proof -
  have r: "vmm_inv S s" "slot \<in> S" "slot_usable slot s" "node_ready s" using assms by (simp_all add: vmm_ready_def vmm_take_def)
  obtain count v owner alloc_flags map_flags where o:
      "slot_reserve slot count owner alloc_flags map_flags s = Returned (s', Inr v) \<or>
       slot_reserve_to slot v count owner alloc_flags map_flags s = Returned (s', STATUS_SUCCESS)"
      "fst b + unat (guard_page_count_from_map_flags map_flags) = unat v" "fst b + snd b + 1 = unat v + unat count"
    using assms(2) unfolding vmm_take_def by blast
  from o(1) obtain p e where pe: "reservations_become S slot (insert (p, unat v - p, e) (set (reservations slot s))) s s'"
      "region_matches v count (p, unat v - p, e)" "\<forall>(p', g', e')\<in>set (reservations slot s). e \<le> p' \<or> e' \<le> p"
      "unat v = p + unat (guard_page_count_from_map_flags map_flags)"
  proof
    assume "slot_reserve slot count owner alloc_flags map_flags s = Returned (s', Inr v)"
    from reserve_region [OF r this] show thesis using that by metis
  next
    assume "slot_reserve_to slot v count owner alloc_flags map_flags s = Returned (s', STATUS_SUCCESS)"
    from reserve_to_region [OF r this] show thesis using that by metis
  qed
  have "p = fst b" "e = fst b + snd b + 1" using pe(2,4) o(2,3) by (auto simp: region_matches_def)
  then show thesis using that pe(1,3) by simp
qed

text \<open>An operation on a domain leaves the others alone.\<close>

definition others_kept :: "vm_slot set \<Rightarrow> vm_slot \<Rightarrow> vmm \<Rightarrow> vmm \<Rightarrow> bool" where
  "others_kept S c s s' \<longleftrightarrow> vmm_inv S s' \<and> cpu_view s' = cpu_view s \<and> (\<forall>d\<in>S - {c}. reservations d s' = reservations d s)"

lemma others_keptI:
  "reservations_kept S s s' \<Longrightarrow> others_kept S c s s'" "reservations_become S c R s s' \<Longrightarrow> others_kept S c s s'"
  "vmm_inv S s \<Longrightarrow> others_kept S c s s"
  by (simp_all add: others_kept_def reservations_kept_def reservations_become_def)

lemma vmm_operation_others:
  assumes "vmm_inv S s" "c \<in> S" "vmm_operation c s s'"
  shows "others_kept S c s s'"
proof -
  have r: "vmm_inv S s" "c \<in> S" "slot_usable c s" "node_ready s" using assms by (simp_all add: vmm_operation_def)
  obtain vpn count owner alloc_flags map_flags where o:
      "(\<exists>r. slot_reserve c count owner alloc_flags map_flags s = Returned (s', r)) \<or>
       (\<exists>st. slot_reserve_to c vpn count owner alloc_flags map_flags s = Returned (s', st)) \<or>
       slot_release c vpn count s = Returned s'"
    using assms(3) unfolding vmm_operation_def by blast
  then consider (anywhere) x where "slot_reserve c count owner alloc_flags map_flags s = Returned (s', x)"
    | (at) x where "slot_reserve_to c vpn count owner alloc_flags map_flags s = Returned (s', x)"
    | (release) "slot_release c vpn count s = Returned s'" by blast
  then show ?thesis
  proof cases
    case anywhere
    then show ?thesis
      by (cases rule: slot_reserve_cases [OF r, of count owner alloc_flags map_flags, case_names ok refused])
        (simp_all add: others_keptI)
  next
    case at
    then show ?thesis
      by (cases rule: slot_reserve_to_cases [OF r, of vpn count owner alloc_flags map_flags, case_names ok refused])
        (simp_all add: others_keptI)
  next
    case release
    then show ?thesis
      by (cases rule: slot_release_cases [OF r(1-3), of vpn count, case_names found absent]) (use others_keptI assms(1) in auto)
  qed
qed

lemma vmm_pass_keeps:
  assumes "vmm_ready S slot s" "vmm_pass S slot s s'"
  shows "vmm_inv S s'" "cpu_view s' = cpu_view s" "reservations slot s' = reservations slot s"
proof -
  have r: "vmm_inv S s" "slot \<in> S" "slot_usable slot s" using assms by (simp_all add: vmm_ready_def)
  consider (other) c where "c \<in> S - {slot}" "vmm_operation c s s'"
    | (anywhere) count owner alloc_flags map_flags st where "node_ready s"
        "slot_reserve slot count owner alloc_flags map_flags s = Returned (s', Inl st)"
    | (at) vpn count owner alloc_flags map_flags st where "node_ready s"
        "slot_reserve_to slot vpn count owner alloc_flags map_flags s = Returned (s', st)" "\<not> CHECK_SUCCESS st"
    using assms(2) unfolding vmm_pass_def by blast
  then have "vmm_inv S s' \<and> cpu_view s' = cpu_view s \<and> reservations slot s' = reservations slot s"
  proof cases
    case other
    then show ?thesis using vmm_operation_others [OF r(1), of c s'] r(2) by (auto simp: others_kept_def)
  next
    case anywhere
    then have "reservations_kept S s s'"
      by (cases rule: slot_reserve_cases [OF r anywhere(1), of count owner alloc_flags map_flags, case_names ok refused]) simp_all
    then show ?thesis using r(2) by (simp add: reservations_kept_def)
  next
    case at
    then have "reservations_kept S s s'"
      by (cases rule: slot_reserve_to_cases [OF r at(1), of vpn count owner alloc_flags map_flags, case_names ok refused]) simp_all
    then show ?thesis using r(2) by (simp add: reservations_kept_def)
  qed
  then show "vmm_inv S s'" "cpu_view s' = cpu_view s" "reservations slot s' = reservations slot s" by simp_all
qed

lemma vmm_give_removes:
  assumes "vmm_ready S slot s" "vmm_give slot s b s'"
  obtains g where "(fst b, g, fst b + snd b + 1) \<in> set (reservations slot s)"
    "reservations_become S slot (set (reservations slot s) - {(fst b, g, fst b + snd b + 1)}) s s'"
proof -
  have r: "vmm_inv S s" "slot \<in> S" "slot_usable slot s" using assms by (simp_all add: vmm_ready_def)
  obtain vpn count g where g: "(fst b, g, fst b + snd b + 1) \<in> set (reservations slot s)"
      "region_matches vpn count (fst b, g, fst b + snd b + 1)" "slot_release slot vpn count s = Returned s'"
    using assms(2) unfolding vmm_give_def by blast
  from release_of_region [OF r g(1,2)] show thesis using that [OF g(1)] g(3) by auto
qed

lemma ready_kept: "vmm_ready S slot s \<Longrightarrow> vmm_inv S s' \<Longrightarrow> cpu_view s' = cpu_view s \<Longrightarrow> vmm_ready S slot s'"
  using slot_usable_cong [of s' s slot] by (simp add: vmm_ready_def)

interpretation pages: block_allocator "vmm_ready S slot" "slot_owns slot" block_pages_of "vmm_take slot" "vmm_pass S slot" "vmm_give slot"
  for S slot
proof unfold_locales
  show "block_pages_of b \<noteq> {}" for b by (simp add: block_pages_of_def)
  fix s b s'
  assume s: "vmm_ready S slot s"
  show "vmm_ready S slot s'" if "vmm_take slot s b s'"
    by (rule vmm_take_adds [OF s that]) (simp add: ready_kept [OF s] reservations_become_def)
  show "slot_owns slot s' b" if "vmm_take slot s b s'"
    by (rule vmm_take_adds [OF s that]) (auto simp: slot_owns_def reservations_become_def)
  show "slot_owns slot s' c" if "vmm_take slot s b s'" "slot_owns slot s c" for c
    by (rule vmm_take_adds [OF s that(1)]) (use that(2) in \<open>auto simp: slot_owns_def reservations_become_def\<close>)
  show "block_pages_of c \<inter> block_pages_of b = {}" if "vmm_take slot s b s'" "slot_owns slot s c" for c
  proof (rule vmm_take_adds [OF s that(1)])
    fix g
    assume "\<forall>(p', g', e')\<in>set (reservations slot s). fst b + snd b + 1 \<le> p' \<or> e' \<le> fst b"
    then have "fst b + snd b + 1 \<le> fst c \<or> fst c + snd c + 1 \<le> fst b" using that(2) unfolding slot_owns_def by blast
    then show ?thesis by (auto simp: block_pages_of_def)
  qed
  show "vmm_ready S slot s'" if "vmm_pass S slot s s'"
    by (rule ready_kept [OF s]) (simp_all add: vmm_pass_keeps [OF s that])
  show "slot_owns slot s' c" if "vmm_pass S slot s s'" "slot_owns slot s c" for c
    using that(2) by (simp add: slot_owns_def vmm_pass_keeps(3) [OF s that(1)])
  show "vmm_ready S slot s'" if "vmm_give slot s b s'"
    by (rule vmm_give_removes [OF s that]) (simp add: ready_kept [OF s] reservations_become_def)
  show "slot_owns slot s' c" if "vmm_give slot s b s'" "slot_owns slot s c" "block_pages_of c \<inter> block_pages_of b = {}" for c
  proof (rule vmm_give_removes [OF s that(1)])
    fix g
    assume g: "reservations_become S slot (set (reservations slot s) - {(fst b, g, fst b + snd b + 1)}) s s'"
    have "fst c \<noteq> fst b" using that(3) by (auto simp: block_pages_of_def)
    then show ?thesis using that(2) g by (auto simp: slot_owns_def reservations_become_def)
  qed
  show "\<exists>s'. vmm_give slot s b s'" if b: "slot_owns slot s b"
  proof -
    obtain g where g: "(fst b, g, fst b + snd b + 1) \<in> set (reservations slot s)" using b by (auto simp: slot_owns_def)
    have r: "vmm_inv S s" "slot \<in> S" "slot_usable slot s" using s by (simp_all add: vmm_ready_def)
    have lt: "fst b + snd b + 1 < 2 ^ 64" using region_bounds(4) [OF r(1,2) g] by simp
    have u: "unat (of_nat k :: uint64_t) = k" if "k < 2 ^ 64" for k using that by (simp add: unsigned_of_nat take_bit_nat_eq_self)
    have "region_matches (of_nat (fst b)) (of_nat (snd b + 1)) (fst b, g, fst b + snd b + 1)"
      using lt u [of "fst b"] u [of "snd b + 1"] by (simp add: region_matches_def)
    from release_of_region [OF r g this] show ?thesis using g \<open>region_matches _ _ _\<close> unfolding vmm_give_def by blast
  qed
qed

section \<open>Properties\<close>

text \<open>C22: The operations of the virtual memory manager are total on well-formed states. When the domain is set
  up, the preemption counter is not at its limit and a node can be made, then the reservation at any
  place, the reservation at a given place and the release return, without a panic or undefined
  behaviour. The invariant holds again. Page tables, the bounds of the domains, the interrupt
  flag and the preemption counter are as they were.\<close>

theorem vmm_operations_total:
  assumes "vmm_inv S s" "slot \<in> S" "slot_usable slot s" "node_ready s"
  shows "(\<exists>s' r. slot_reserve slot count owner alloc_flags map_flags s = Returned (s', r) \<and> vmm_inv S s' \<and> cpu_view s' = cpu_view s) \<and>
    (\<exists>s' st. slot_reserve_to slot vpn count owner alloc_flags map_flags s = Returned (s', st) \<and> vmm_inv S s' \<and> cpu_view s' = cpu_view s) \<and>
    (\<exists>s'. slot_release slot vpn count s = Returned s' \<and> vmm_inv S s' \<and> cpu_view s' = cpu_view s)"
proof (intro conjI)
  show "\<exists>s' r. slot_reserve slot count owner alloc_flags map_flags s = Returned (s', r) \<and> vmm_inv S s' \<and> cpu_view s' = cpu_view s"
    by (rule slot_reserve_cases [OF assms, of count owner alloc_flags map_flags]) (auto simp: reservations_become_def reservations_kept_def)
  show "\<exists>s' st. slot_reserve_to slot vpn count owner alloc_flags map_flags s = Returned (s', st) \<and> vmm_inv S s' \<and> cpu_view s' = cpu_view s"
    by (rule slot_reserve_to_cases [OF assms, of vpn count owner alloc_flags map_flags]) (auto simp: reservations_become_def reservations_kept_def)
  show "\<exists>s'. slot_release slot vpn count s = Returned s' \<and> vmm_inv S s' \<and> cpu_view s' = cpu_view s"
    by (rule slot_release_cases [OF assms(1-3), of vpn count]) (use assms(1) in \<open>auto simp: reservations_become_def\<close>)
qed

theorem vmm_operations_total_witness:
  "(\<exists>s' r. slot_reserve (LocalSlot 2) 2 None 0 MF_GUARD user_vmm = Returned (s', r) \<and> vmm_inv {LocalSlot 2} s' \<and> cpu_view s' = cpu_view user_vmm) \<and>
    (\<exists>s' st. slot_reserve_to (LocalSlot 2) 20 2 None 0 MF_GUARD user_vmm = Returned (s', st) \<and> vmm_inv {LocalSlot 2} s' \<and> cpu_view s' = cpu_view user_vmm) \<and>
    (\<exists>s'. slot_release (LocalSlot 2) 20 2 user_vmm = Returned s' \<and> vmm_inv {LocalSlot 2} s' \<and> cpu_view s' = cpu_view user_vmm)"
  using vmm_operations_total [OF user_vmm_facts(1) insertI1 user_vmm_facts(3,4)] by blast

text \<open>C0: A reservation is safe. A reservation of \<open>count\<close> pages that succeeds takes a place that was free: within the
  domain, clear of every other reservation, and with no page mapped. It covers the pages asked
  for, and the guard page below them when one is asked for. The page handed out is the first one above the guard page.
  It adds this region and changes no other, in this or another domain. A refusal changes no reservation.\<close>

theorem vmm_reserve_safe:
  assumes "vmm_inv S s" "slot \<in> S" "slot_usable slot s" "node_ready s"
    and "guard = guard_page_count_from_map_flags map_flags"
  shows "\<exists>s' r. slot_reserve slot count owner alloc_flags map_flags s = Returned (s', r) \<and>
    (case r of
       Inl st \<Rightarrow> reservations_kept S s s'
     | Inr v \<Rightarrow> \<exists>base. v = base + guard \<and> unat v = unat base + unat guard \<and> free_place slot (count + guard) s base \<and>
         reservations_become S slot (insert (unat base, unat guard, unat v + unat count) (set (reservations slot s))) s s')"
proof (cases rule: slot_reserve_cases [OF assms(1-4), of count owner alloc_flags map_flags, case_names ok refused])
  case (ok s' base)
  note n = request_pages_unat [OF ok(2)]
  obtain ns where l: "slot_list slot ns s" using vmm_inv_list [OF assms(1,2)] by blast
  have "unat base + unat (request_pages count map_flags) < 2 ^ 64"
    using ok(3) unat_inc [OF slot_list_parts(7) [OF l]] unat_less64 [of "slot_limit slot s + 1"] by (simp add: free_place_def)
  then have "unat (base + guard) = unat base + unat guard" using n assms(5) by (intro unat_add64) simp
  then show ?thesis using ok n assms(5) by (auto simp: request_pages_def add.commute add.left_commute)
next
  case (refused s' st)
  then show ?thesis by auto
qed

theorem vmm_reserve_safe_witness:
  "\<exists>s' r. slot_reserve (LocalSlot 2) 2 None 0 MF_GUARD user_vmm = Returned (s', r) \<and>
    (case r of
       Inl st \<Rightarrow> reservations_kept {LocalSlot 2} user_vmm s'
     | Inr v \<Rightarrow> \<exists>base. v = base + 1 \<and> unat v = unat base + unat (1 :: uint64_t) \<and> free_place (LocalSlot 2) (2 + 1) user_vmm base \<and>
         reservations_become {LocalSlot 2} (LocalSlot 2) (insert (unat base, unat (1 :: uint64_t), unat v + unat (2 :: uint64_t)) (set (reservations (LocalSlot 2) user_vmm)))
           user_vmm s')"
  by (rule vmm_reserve_safe [OF user_vmm_facts(1) insertI1 user_vmm_facts(3,4) one_guard_page [symmetric]])

text \<open>C0: Reservations from below are complete. When the request is valid, its owner is open and there is some free
  place in the domain that is large enough, then a reservation without \<^verbatim>\<open>AF_VMM_ALLOC_TOPDOWN\<close>
  succeeds, and it takes the lowest such place.\<close>

theorem vmm_reserve_succeeds:
  assumes "vmm_inv S s" "slot \<in> S" "slot_usable slot s" "node_ready s"
    and "\<not> flag_set alloc_flags AF_VMM_ALLOC_TOPDOWN" "request_valid slot count map_flags" "owner_open (slot_owner slot owner s) s"
    and "free_place slot (request_pages count map_flags) s q"
  shows "\<exists>s' base. slot_reserve slot count owner alloc_flags map_flags s = Returned (s', Inr (base + guard_page_count_from_map_flags map_flags)) \<and>
    free_place slot (request_pages count map_flags) s base \<and> base \<le> q \<and>
    set (reservations slot s') = insert (unat base, unat (guard_page_count_from_map_flags map_flags), unat base + unat (request_pages count map_flags))
      (set (reservations slot s))"
proof (cases rule: slot_reserve_cases [OF assms(1-4), of count owner alloc_flags map_flags, case_names ok refused])
  case (ok s' base)
  moreover have "base \<le> q" using ok(5) assms(5,8) not_less by blast
  ultimately show ?thesis by (auto simp: reservations_become_def)
next
  case (refused s' st)
  then show ?thesis using assms(5-8) by blast
qed

theorem vmm_reserve_succeeds_witness:
  "\<exists>s' base. slot_reserve (LocalSlot 2) 2 None 0 MF_GUARD user_vmm = Returned (s', Inr (base + guard_page_count_from_map_flags MF_GUARD)) \<and>
    free_place (LocalSlot 2) (request_pages 2 MF_GUARD) user_vmm base \<and> base \<le> 16 \<and>
    set (reservations (LocalSlot 2) s') = insert (unat base, unat (guard_page_count_from_map_flags MF_GUARD), unat base + unat (request_pages 2 MF_GUARD))
      (set (reservations (LocalSlot 2) user_vmm))"
  by (rule vmm_reserve_succeeds [OF user_vmm_facts(1) insertI1 user_vmm_facts(3,4) user_request])

text \<open>C12: A reservation at a given place does exactly what it says. It succeeds when the arguments are valid, the pages
  lie in the domain with their guard page, the owner is open and the place is free; then it adds this region and
  changes no other. In every other case it fails and changes no reservation.\<close>

theorem vmm_reserve_to_exact:
  assumes "vmm_inv S s" "slot \<in> S" "slot_usable slot s" "node_ready s"
    and "guard = guard_page_count_from_map_flags map_flags"
  shows "\<exists>s' st. slot_reserve_to slot vpn count owner alloc_flags map_flags s = Returned (s', st) \<and>
    (if request_fits slot vpn count map_flags s \<and> owner_open (slot_owner slot owner s) s \<and> free_place slot (count + guard) s (vpn - guard)
     then st = STATUS_SUCCESS \<and>
       reservations_become S slot (insert (unat vpn - unat guard, unat guard, unat vpn + unat count) (set (reservations slot s))) s s'
     else \<not> CHECK_SUCCESS st \<and> reservations_kept S s s')"
proof (cases rule: slot_reserve_to_cases [OF assms(1-4), of vpn count owner alloc_flags map_flags, case_names ok refused])
  case (ok s')
  then show ?thesis using assms(5) by (simp add: request_pages_def)
next
  case (refused s' st)
  then show ?thesis using assms(5) by (auto simp: request_pages_def simp del: CHECK_SUCCESS_iff)
qed

theorem vmm_reserve_to_exact_witness:
  "\<exists>s' st. slot_reserve_to (LocalSlot 2) 17 2 None 0 MF_GUARD user_vmm = Returned (s', st) \<and>
    (if request_fits (LocalSlot 2) 17 2 MF_GUARD user_vmm \<and> owner_open (slot_owner (LocalSlot 2) None user_vmm) user_vmm \<and>
        free_place (LocalSlot 2) (2 + 1) user_vmm (17 - 1)
     then st = STATUS_SUCCESS \<and>
       reservations_become {LocalSlot 2} (LocalSlot 2) (insert (unat (17 :: uint64_t) - unat (1 :: uint64_t), unat (1 :: uint64_t), unat (17 :: uint64_t) + unat (2 :: uint64_t)) (set (reservations (LocalSlot 2) user_vmm)))
         user_vmm s'
     else \<not> CHECK_SUCCESS st \<and> reservations_kept {LocalSlot 2} user_vmm s')"
  by (rule vmm_reserve_to_exact [OF user_vmm_facts(1) insertI1 user_vmm_facts(3,4) one_guard_page [symmetric]])

text \<open>C11: A release takes away exactly the reservation it names: the one that ends where the pages end and starts, with
  or without its guard page, where they start. Every other reservation stays. When there is no such reservation
  nothing changes at all.\<close>

theorem vmm_release_exact:
  assumes "vmm_inv S s" "slot \<in> S" "slot_usable slot s"
  shows "\<exists>s'. slot_release slot vpn count s = Returned s' \<and>
    (case find (region_matches vpn count) (reservations slot s) of
       Some r \<Rightarrow> reservations_become S slot (set (reservations slot s) - {r}) s s'
     | None \<Rightarrow> s' = s)"
proof (cases "find (region_matches vpn count) (reservations slot s)")
  case None
  then have "\<forall>r\<in>set (reservations slot s). \<not> region_matches vpn count r" by (auto simp: find_None_iff)
  then show ?thesis using None by (cases rule: slot_release_cases [OF assms, of vpn count, case_names found absent]) auto
next
  case (Some r)
  then have "r \<in> set (reservations slot s)" "region_matches vpn count r" by (auto simp: find_Some_iff)
  from release_of_region [OF assms this] show ?thesis using Some by auto
qed

theorem vmm_release_exact_witness:
  "set (reservations (LocalSlot 2) reserved_vmm) = {(16, 1, 19)} \<and>
   (\<exists>s'. slot_release (LocalSlot 2) 17 2 reserved_vmm = Returned s' \<and>
    (case find (region_matches 17 2) (reservations (LocalSlot 2) reserved_vmm) of
       Some r \<Rightarrow> reservations_become {LocalSlot 2} (LocalSlot 2) (set (reservations (LocalSlot 2) reserved_vmm) - {r}) reserved_vmm s'
     | None \<Rightarrow> s' = reserved_vmm))"
  using vmm_release_exact [OF reserved_vmm_facts(2) insertI1 reserved_vmm_facts(3), of 17 2] reserved_vmm_facts(4) by blast

text \<open>C23: Reserving pages and releasing them restores the reservations of every domain, in their order, and the count
  of free pages.\<close>

theorem vmm_reserve_release_roundtrip:
  assumes "vmm_inv S s" "slot \<in> S" "slot_usable slot s" "node_ready s"
    and "slot_reserve slot count owner alloc_flags map_flags s = Returned (s1, Inr v)"
  shows "\<exists>s2. slot_release slot v count s1 = Returned s2 \<and> vmm_inv S s2 \<and> cpu_view s2 = cpu_view s \<and>
    (\<forall>c\<in>S. reservations c s2 = reservations c s) \<and> slot_free_count slot s2 = slot_free_count slot s"
proof -
  obtain p e where pe: "reservations_become S slot (insert (p, unat v - p, e) (set (reservations slot s))) s s1"
      "region_matches v count (p, unat v - p, e)" "(p, unat v - p, e) \<notin> set (reservations slot s)"
    by (rule reserve_region [OF assms])
  have i1: "vmm_inv S s1" "slot_usable slot s1"
    using pe(1) slot_usable_cong [of s1 s slot] assms(3) by (simp_all add: reservations_become_def)
  have mem: "(p, unat v - p, e) \<in> set (reservations slot s1)" using pe(1) by (simp add: reservations_become_def)
  obtain s2 where s2: "slot_release slot v count s1 = Returned s2"
      "reservations_become S slot (set (reservations slot s1) - {(p, unat v - p, e)}) s1 s2"
    using release_of_region [OF i1(1) assms(2) i1(2) mem pe(2)] by blast
  then have sets: "set (reservations slot s2) = set (reservations slot s)" using pe(1,3) by (simp add: reservations_become_def)
  have inv: "vmm_inv S s2" "cpu_view s2 = cpu_view s" using s2(2) pe(1) by (simp_all add: reservations_become_def)
  have "reservations slot s2 = reservations slot s" by (rule reservations_determined [OF inv(1) assms(1,2) sets])
  moreover from this have "slot_free_count slot s2 = slot_free_count slot s"
    by (rule free_count_determined [OF inv(1) assms(1,2) inv(2)])
  moreover have "reservations c s2 = reservations c s" if "c \<in> S" "c \<noteq> slot" for c
    using s2(2) pe(1) that by (simp add: reservations_become_def)
  ultimately show ?thesis using s2(1) inv by metis
qed

theorem vmm_reserve_release_roundtrip_witness:
  "\<exists>s2. slot_release (LocalSlot 2) 17 2 reserved_vmm = Returned s2 \<and> vmm_inv {LocalSlot 2} s2 \<and> cpu_view s2 = cpu_view user_vmm \<and>
    (\<forall>c\<in>{LocalSlot 2}. reservations c s2 = reservations c user_vmm) \<and> slot_free_count (LocalSlot 2) s2 = slot_free_count (LocalSlot 2) user_vmm"
  by (rule vmm_reserve_release_roundtrip [OF user_vmm_facts(1) insertI1 user_vmm_facts(3,4) reserved_vmm_facts(1)])

text \<open>C5: In every interleaving of reservations, refused requests, releases and operations on other domains, the blocks of pages
  in the hands of the clients of a domain are pairwise disjoint, each is still reserved, and each can be
  released.\<close>

theorem vmm_clients_disjoint:
  assumes "vmm_inv S s0" "slot \<in> S" "slot_usable slot s0"
    and "client_run (vmm_take slot) (vmm_pass S slot) (vmm_give slot) s0 s L"
  shows "vmm_inv S s \<and> (\<forall>b\<in>L. \<forall>c\<in>L. b \<noteq> c \<longrightarrow> block_pages_of b \<inter> block_pages_of c = {}) \<and>
    (\<forall>b\<in>L. slot_owns slot s b \<and> (\<exists>s'. vmm_give slot s b s'))"
proof -
  have r: "vmm_ready S slot s0" using assms(1-3) by (simp add: vmm_ready_def)
  show ?thesis using pages.run_invariant [OF assms(4) r] pages.run_can_give [OF assms(4) r] by (simp add: vmm_ready_def)
qed

theorem vmm_clients_disjoint_witness:
  "\<exists>L. (16, 2) \<in> L \<and> vmm_inv {LocalSlot 2} reserved_vmm \<and> (\<forall>b\<in>L. \<forall>c\<in>L. b \<noteq> c \<longrightarrow> block_pages_of b \<inter> block_pages_of c = {}) \<and>
    (\<forall>b\<in>L. slot_owns (LocalSlot 2) reserved_vmm b \<and> (\<exists>s'. vmm_give (LocalSlot 2) reserved_vmm b s'))"
proof -
  have "vmm_take (LocalSlot 2) user_vmm (16, 2) reserved_vmm"
    unfolding vmm_take_def
  proof (intro conjI exI)
    show "slot_reserve (LocalSlot 2) 2 None 0 MF_GUARD user_vmm = Returned (reserved_vmm, Inr 17) \<or>
        slot_reserve_to (LocalSlot 2) 17 2 None 0 MF_GUARD user_vmm = Returned (reserved_vmm, STATUS_SUCCESS)"
      using reserved_vmm_facts(1) by simp
  qed (simp_all add: user_vmm_facts(4) one_guard_page)
  then have "client_run (vmm_take (LocalSlot 2)) (vmm_pass {LocalSlot 2} (LocalSlot 2)) (vmm_give (LocalSlot 2)) user_vmm reserved_vmm {(16, 2)}"
    by (rule run_take [OF run_start])
  from vmm_clients_disjoint [OF user_vmm_facts(1) insertI1 user_vmm_facts(3) this] show ?thesis by blast
qed

text \<open>C28: The setup of a domain establishes the invariant for it and keeps it for the others. It starts with no
  reservation, all its pages are free, and the reservations of other domains are as before.\<close>

theorem vmm_init_domain:
  assumes "vmm_inv S s" "base \<le> limit" "limit \<noteq> - 1" "d < VMM_DOMAIN_MAX"
  shows "(\<exists>s'. StVmm_InitGlobalDomain d base limit s = (s', STATUS_SUCCESS) \<and> vmm_inv (insert (GlobalSlot d) S) s' \<and>
      reservations (GlobalSlot d) s' = [] \<and> (\<forall>c\<in>S - {GlobalSlot d}. reservations c s' = reservations c s) \<and>
      StVmm_GetFreeGlobalPageCount d s' = StVmm_GetTotalGlobalPageCount d s') \<and>
    (\<exists>s'. StVmm_InitLocalDomain (Some a) base limit s = (s', STATUS_SUCCESS) \<and> vmm_inv (insert (LocalSlot a) S) s' \<and>
      reservations (LocalSlot a) s' = [] \<and> (\<forall>c\<in>S - {LocalSlot a}. reservations c s' = reservations c s) \<and>
      StVmm_GetFreeLocalPageCount (Some a) s' = StVmm_GetTotalLocalPageCount (Some a) s')"
proof
  obtain g where g: "StVmm_InitGlobalDomain d base limit s = (g, STATUS_SUCCESS)" "vmm_inv (insert (GlobalSlot d) S) g"
    "reservations (GlobalSlot d) g = []" "\<And>c. c \<in> S - {GlobalSlot d} \<Longrightarrow> reservations c g = reservations c s"
    using init_global_domain [OF assms(1,4,2,3)] by metis
  have "StVmm_GetFreeGlobalPageCount d g = StVmm_GetTotalGlobalPageCount d g"
    using g(1) assms(2,4)
    by (auto simp: StVmm_GetFreeGlobalPageCount_def StVmm_GetTotalGlobalPageCount_def StVmm_InitGlobalDomain_def Let_def split: if_splits)
  then show "\<exists>s'. StVmm_InitGlobalDomain d base limit s = (s', STATUS_SUCCESS) \<and> vmm_inv (insert (GlobalSlot d) S) s' \<and>
      reservations (GlobalSlot d) s' = [] \<and> (\<forall>c\<in>S - {GlobalSlot d}. reservations c s' = reservations c s) \<and>
      StVmm_GetFreeGlobalPageCount d s' = StVmm_GetTotalGlobalPageCount d s'" using g by blast
  obtain l where l: "StVmm_InitLocalDomain (Some a) base limit s = (l, STATUS_SUCCESS)" "vmm_inv (insert (LocalSlot a) S) l"
    "reservations (LocalSlot a) l = []" "\<And>c. c \<in> S - {LocalSlot a} \<Longrightarrow> reservations c l = reservations c s"
    using init_local_domain [OF assms(1-3)] by metis
  have "StVmm_GetFreeLocalPageCount (Some a) l = StVmm_GetTotalLocalPageCount (Some a) l"
    using l(1) assms(2)
    by (auto simp: StVmm_GetFreeLocalPageCount_def StVmm_GetTotalLocalPageCount_def StVmm_InitLocalDomain_def split: if_splits)
  then show "\<exists>s'. StVmm_InitLocalDomain (Some a) base limit s = (s', STATUS_SUCCESS) \<and> vmm_inv (insert (LocalSlot a) S) s' \<and>
      reservations (LocalSlot a) s' = [] \<and> (\<forall>c\<in>S - {LocalSlot a}. reservations c s' = reservations c s) \<and>
      StVmm_GetFreeLocalPageCount (Some a) s' = StVmm_GetTotalLocalPageCount (Some a) s'" using l by blast
qed

theorem vmm_init_domain_witness:
  "(\<exists>s'. StVmm_InitGlobalDomain 3 100 199 user_vmm = (s', STATUS_SUCCESS) \<and> vmm_inv (insert (GlobalSlot 3) {LocalSlot 2}) s' \<and>
      reservations (GlobalSlot 3) s' = [] \<and> (\<forall>c\<in>{LocalSlot 2} - {GlobalSlot 3}. reservations c s' = reservations c user_vmm) \<and>
      StVmm_GetFreeGlobalPageCount 3 s' = StVmm_GetTotalGlobalPageCount 3 s') \<and>
    (\<exists>s'. StVmm_InitLocalDomain (Some 7) 100 199 user_vmm = (s', STATUS_SUCCESS) \<and> vmm_inv (insert (LocalSlot 7) {LocalSlot 2}) s' \<and>
      reservations (LocalSlot 7) s' = [] \<and> (\<forall>c\<in>{LocalSlot 2} - {LocalSlot 7}. reservations c s' = reservations c user_vmm) \<and>
      StVmm_GetFreeLocalPageCount (Some 7) s' = StVmm_GetTotalLocalPageCount (Some 7) s')"
  by (rule vmm_init_domain [OF user_vmm_facts(1)]) (simp_all add: VMM_DOMAIN_MAX_def)



text \<open>A state with an address space of three pages whose highest page is mapped. Every level of its tables is the
  frame 0.\<close>

definition top_mapped_vmm :: vmm where
  "top_mapped_vmm = fst (StVmm_InitLocalDomain (Some 2) 16 18
     (boot_vmm\<lparr>vm_mmu := (vm_mmu boot_vmm)\<lparr>phys_mem := (\<lambda>_ i. if i = 0 \<or> i = 18 then PTE_P else 0)\<rparr>\<rparr>))"

lemma top_mapped_vmm_facts:
  "vmm_inv {LocalSlot 2} top_mapped_vmm" "reservations (LocalSlot 2) top_mapped_vmm = []" "slot_usable (LocalSlot 2) top_mapped_vmm"
  "slot_base (LocalSlot 2) top_mapped_vmm = 16" "slot_limit (LocalSlot 2) top_mapped_vmm = 18"
proof -
  let ?b = "boot_vmm\<lparr>vm_mmu := (vm_mmu boot_vmm)\<lparr>phys_mem := (\<lambda>_ i. if i = 0 \<or> i = 18 then PTE_P else 0)\<rparr>\<rparr>"
  have b: "vmm_inv {} ?b" by (simp add: vmm_inv_def pool_ok_def boot_vmm_def exI [of _ "[]"])
  obtain s where s: "StVmm_InitLocalDomain (Some 2) 16 18 ?b = (s, STATUS_SUCCESS)" "vmm_inv (insert (LocalSlot 2) {}) s"
      "reservations (LocalSlot 2) s = []" "slot_base (LocalSlot 2) s = 16" "slot_limit (LocalSlot 2) s = 18"
    using init_local_domain [OF b, of 16 18 2] by auto
  then show "vmm_inv {LocalSlot 2} top_mapped_vmm" "reservations (LocalSlot 2) top_mapped_vmm = []"
      "slot_base (LocalSlot 2) top_mapped_vmm = 16" "slot_limit (LocalSlot 2) top_mapped_vmm = 18" by (simp_all add: top_mapped_vmm_def)
  show "slot_usable (LocalSlot 2) top_mapped_vmm"
    by (simp add: slot_usable_def top_mapped_vmm_def StVmm_InitLocalDomain_def boot_vmm_def boot_state_def vm_pmm_def)
qed

lemma top_mapped_vmm_walk:
  "slot_page_status (LocalSlot 2) 16 top_mapped_vmm = Inl STATUS_PAGE_NOT_PRESENT"
  "slot_page_status (LocalSlot 2) 17 top_mapped_vmm = Inl STATUS_PAGE_NOT_PRESENT"
  "\<exists>f. slot_page_status (LocalSlot 2) 18 top_mapped_vmm = Inr f"
  by (simp_all add: StMmP_LocalVirtPageToPhysFrame_def IS_LOCAL_VPN_def MEMMAP_LOCAL_VPN_LIMIT_def VIRT_PAGE_MAX_def PML4_HOLE_START_def
    vpn_to_pfn_def walk_def top_mapped_vmm_def StVmm_InitLocalDomain_def boot_vmm_def flag_set_def PTE_P_def PTE_PS_def
    PML4_INDEX_def PDPT_INDEX_def PD_INDEX_def PT_INDEX_def VIRT_PAGE_PML4_MASK_def VIRT_PAGE_PDPT_MASK_def VIRT_PAGE_PD_MASK_def
    VIRT_PAGE_PT_MASK_def pte_frame_def PTE_BASE_MASK_def PTE_BASE_SHIFT_def)

lemma topdown_skips:
  assumes "slot_head slot s = None" "slot_base slot s = 16" "slot_limit slot s = 18" "slot_page_status slot 18 s = Inr f"
  shows "search_candidate slot True 2 16 19 s = Returned (Inl STATUS_INSUFFICIENT_MEMORY)"
proof -
  have c: "node_chain s None = Returned []" by (cases "node_bound s") (simp_all add: node_chain_def)
  have "find_last_fit_before None 16 18 2 19 s = Returned (Inr 17)" "find_last_fit_before None 16 18 2 17 s = Returned (Inl STATUS_INSUFFICIENT_MEMORY)"
    by (simp_all add: find_last_fit_before_def make_domain_limit_exclusive_def c last_fit_gap_def word_le_nat_alt)
  moreover have "\<not> is_range_unmapped slot 17 2 s" using assms(4) by (simp add: numeral_2_eq_2)
  ultimately show ?thesis
    using assms search_candidate.simps [of slot True 2 16 19 s] search_candidate.simps [of slot True 2 16 17 s] by simp
qed


end
