(* ===== verification/Vmm_Grow.thy ===== *)
theory Vmm_Grow
  imports Vmm_Contract
begin

text \<open>
  The growth of a guarded stack: a fault on the guard page of a reservation moves its lower end down by one
  page when the page below is free (\<^verbatim>\<open>StVmm_ResolveLocalPage\<close> of \<^verbatim>\<open>strata/mm/vmm.c\<close>).
\<close>

section \<open>Moving the lower end of a reservation\<close>

definition grown :: "vm_slot \<Rightarrow> node_ptr \<Rightarrow> vmm \<Rightarrow> vmm" where
  "grown slot n s = set_slot_free_count slot (slot_free_count slot s - 1) (upd_node n (base_vpn_update (\<lambda>_. base_vpn (nodes s n) - 1)) s)"

lemma grown_nodes:
  "nodes (grown slot n s) m = (if m = n then (nodes s n)\<lparr>base_vpn := base_vpn (nodes s n) - 1\<rparr> else nodes s m)"
  by (simp add: grown_def upd_node_def vm_simps)

lemma grown_fields:
  "slot_head c (grown slot n s) = slot_head c s" "slot_base c (grown slot n s) = slot_base c s" "slot_limit c (grown slot n s) = slot_limit c s"
  "pool_view (grown slot n s) = pool_view s" "cpu_view (grown slot n s) = cpu_view s"
  "slot_free_count c (grown slot n s) = (if c = slot then slot_free_count slot s - 1 else slot_free_count c s)"
  by (simp_all add: grown_def vm_simps)

lemma grown_cpu: "grown slot n (cpu_set d i s) = cpu_set d i (grown slot n s)"
  by (cases slot) (simp_all add: grown_def cpu_set_def upd_node_def)

lemma ranges_last: "ranges_ok s xs \<Longrightarrow> m \<in> set xs \<Longrightarrow> hi s m \<le> hi s (last xs)"
proof (induction xs)
  case (Cons x xs)
  show ?case
  proof (cases "xs = []")
    case False
    then have "hi s x \<le> lo s (last xs)" "lo s (last xs) < hi s (last xs)" using Cons.prems(1) last_in_set [OF False] by (auto simp: ranges_ok_def)
    then have "hi s x \<le> hi s (last xs)" by linarith
    then show ?thesis using Cons False by (cases "m = x") auto
  qed (use Cons.prems in simp)
qed simp

lemma grown_list:
  assumes "slot_list slot (xs @ n # ys) s" "unat (slot_base slot s) < lo s n" "xs \<noteq> [] \<Longrightarrow> hi s (last xs) < lo s n" "slot_free_count slot s \<noteq> 0"
  shows "slot_list slot (xs @ n # ys) (grown slot n s)" "lo (grown slot n s) n = lo s n - 1" "hi (grown slot n s) m = hi s m"
proof -
  let ?s = "grown slot n s"
  note l = slot_list_parts [OF assms(1)]
  show ln: "lo ?s n = lo s n - 1" using assms(2) unat_sub64 [of 1 "base_vpn (nodes s n)"] by (simp add: grown_nodes word_nat)
  have h: "hi ?s m = hi s m" for m by (simp add: grown_nodes)
  then show "hi ?s m = hi s m" .
  have lo: "lo ?s m = lo s m" if "m \<noteq> n" for m using that by (simp add: grown_nodes)
  have ho: "handed_out ?s = handed_out s" by (rule handed_out_cong) (simp add: grown_fields)
  have d: "distinct (xs @ n # ys)" by (rule l(2))
  then have out: "m \<noteq> n" if "m \<in> set (xs @ ys)" for m using that by auto
  have "linked (nodes ?s) None (slot_head slot s) (xs @ n # ys)"
    using l(1) linked_cong [of "xs @ n # ys" "nodes ?s" "nodes s"] by (simp add: grown_nodes)
  moreover have "node_ok slot ?s m" if "m \<in> set (xs @ n # ys)" for m
    using l(3) [OF that] assms(2) ln lo h ho by (cases "m = n") (auto simp: node_ok_def grown_fields grown_nodes)
  moreover have "ranges_ok ?s (xs @ n # ys)"
  proof -
    have r: "ranges_ok s xs" "ranges_ok s ys" "lo s n < hi s n" "\<And>m. m \<in> set xs \<Longrightarrow> hi s m \<le> lo s n"
        "\<And>m k. m \<in> set xs \<Longrightarrow> k \<in> set ys \<Longrightarrow> hi s m \<le> lo s k" "\<And>k. k \<in> set ys \<Longrightarrow> hi s n \<le> lo s k"
      using l(4) by (auto simp: ranges_ok_append)
    have "hi s m \<le> lo s n - 1" if "m \<in> set xs" for m
      using ranges_last [OF r(1) that] assms(3) that by (cases "xs = []") auto
    moreover have "ranges_ok ?s zs = ranges_ok s zs" if "set zs \<subseteq> set (xs @ ys)" for zs
      using ranges_ok_cong [of zs ?s s] lo h out that by (metis subsetD)
    ultimately show ?thesis using r ln lo h out by (auto simp: ranges_ok_append)
  qed
  moreover have "guards_ok ?s (xs @ n # ys)"
    using l(5) ln lo h by (auto simp: guards_ok_def grown_nodes)
  moreover have "(\<Sum>m\<leftarrow>xs @ n # ys. hi ?s m - lo ?s m) + unat (slot_free_count slot s - 1) = unat (slot_limit slot s) - unat (slot_base slot s) + 1"
  proof -
    have sums: "(\<Sum>m\<leftarrow>zs. hi ?s m - lo ?s m) = (\<Sum>m\<leftarrow>zs. hi s m - lo s m)" if "set zs \<subseteq> set (xs @ ys)" for zs
      using that out lo h by (intro arg_cong [of _ _ sum_list] map_cong) auto
    have "0 < unat (slot_free_count slot s)" using assms(4) by (simp add: unat_gt_0)
    moreover from this have "unat (slot_free_count slot s - 1) = unat (slot_free_count slot s) - 1" using unat_sub64 [of 1 "slot_free_count slot s"] by simp
    moreover have "hi ?s n - lo ?s n = hi s n - lo s n + 1" using ln h assms(2) l(4) by (auto simp: ranges_ok_append)
    ultimately show ?thesis using assms(1) sums [of xs] sums [of ys] by (simp add: slot_list_def)
  qed
  ultimately show "slot_list slot (xs @ n # ys) ?s" using l(2,6,7) by (simp add: slot_list_def grown_fields)
qed

lemma grown_become:
  assumes "vmm_inv S s" "slot_list slot (xs @ n # ys) s" "unat (slot_base slot s) < lo s n" "xs \<noteq> [] \<Longrightarrow> hi s (last xs) < lo s n"
    and "slot_free_count slot s \<noteq> 0"
  shows "reservations_become S slot (insert (lo s n - 1, unat (guard_page_count (nodes s n)), hi s n) (set (reservations slot s) - {region_of s n})) s (grown slot n s)"
proof -
  let ?s = "grown slot n s"
  let ?ns = "xs @ n # ys"
  note p = vmm_inv_pool [OF assms(1)]
  note g = grown_list [OF assms(2-5)]
  have p': "pool_ok ?s" using p by (rule pool_ok_cong [rotated 2]) (auto simp: grown_fields grown_nodes)
  have ho: "handed_out ?s = handed_out s" by (rule handed_out_cong) (simp add: grown_fields)
  have same: "node_view (nodes ?s m) = node_view (nodes s m)" "region_of ?s m = region_of s m" if "m \<noteq> n" for m
    using that by (simp_all add: grown_nodes region_of_def)
  have other: "slot_list c ms ?s \<and> reservations c ?s = reservations c s" if c: "c \<noteq> slot" "slot_list c ms s" for c ms
  proof -
    have ne: "m \<noteq> n" if "m \<in> set ms" for m
      using node_in_one_slot [of slot s n c] slot_list_parts(3) [OF assms(2), of n] slot_list_parts(3) [OF c(2)] c(1) that by auto
    have "slot_list c ms ?s"
      by (rule slot_list_cong [OF _ _ _ c(2)]) (use ne same c(1) ho in \<open>simp_all add: slot_view_def grown_fields\<close>)
    then show ?thesis using reservations_list [OF _ p'] reservations_list [OF c(2) p] ne same(2) by simp
  qed
  have d: "distinct ?ns" by (rule slot_list_parts(2) [OF assms(2)])
  have "hi s m \<noteq> hi s n" if "m \<in> set (xs @ ys)" for m
    using ranges_ok_hi_unique [OF slot_list_parts(4) [OF assms(2)], of m n] that d by auto
  then have notin: "region_of s n \<notin> region_of s ` set (xs @ ys)" by (force simp: region_of_def)
  have "set (reservations slot ?s) = insert (region_of ?s n) (region_of s ` set (xs @ ys))"
  proof -
    have "m \<noteq> n" if "m \<in> set (xs @ ys)" for m using that d by auto
    then have "region_of ?s ` set (xs @ ys) = region_of s ` set (xs @ ys)" by (intro image_cong refl same(2))
    then show ?thesis using reservations_list [OF g(1) p'] by (simp add: image_Un)
  qed
  moreover have "region_of s ` set (xs @ ys) = set (reservations slot s) - {region_of s n}"
    using reservations_list [OF assms(2) p] notin by (simp add: image_Un insert_Diff_if)
  moreover have "region_of ?s n = (lo s n - 1, unat (guard_page_count (nodes s n)), hi s n)"
    using g(2,3) by (simp add: region_of_def grown_nodes)
  moreover have "vmm_inv S ?s"
  proof -
    have "\<exists>ms. slot_list c ms ?s" if "c \<in> S" for c
      using vmm_inv_list [OF assms(1) that] other g(1) by (cases "c = slot") auto
    then show ?thesis using p' by (simp add: vmm_inv_def)
  qed
  moreover have "reservations c ?s = reservations c s" if "c \<in> S - {slot}" for c
    using vmm_inv_list [OF assms(1), of c] other that by blast
  ultimately show ?thesis by (simp add: reservations_become_def grown_fields)
qed

section \<open>Faults on pages of a reservation\<close>

lemma covering_node_cases:
  assumes "slot_list slot ns s" "pool_ok s" "unat vpn \<le> unat (slot_limit slot s)"
  obtains (found) n where "covering_node slot vpn s = Returned (s, Inr n)" "n \<in> set ns" "lo s n \<le> unat vpn" "unat vpn < hi s n"
  | (none) "covering_node slot vpn s = Returned (s, Inl STATUS_NOT_ALLOCATED)"
proof -
  have "vpn \<noteq> - 1"
  proof
    assume "vpn = - 1"
    then have "slot_limit slot s = - 1" using assms(3) by (metis word_le_nat_alt word_order.extremum_unique)
    then show False using slot_list_parts(7) [OF assms(1)] by simp
  qed
  then have u: "unat (vpn + 1) = unat vpn + 1" by (simp add: unat_inc)
  then have "find_overlap (slot_head slot s) vpn 1 s = Returned (overlap_loop s vpn (vpn + 1) ns)"
    using slot_chain [OF assms(1,2)] by (simp add: find_overlap_def make_limit_exclusive_def Let_def word_nat)
  then have c: "covering_node slot vpn s = Returned (s, case overlap_loop s vpn (vpn + 1) ns of None \<Rightarrow> Inl STATUS_NOT_ALLOCATED | Some n \<Rightarrow> Inr n)"
    using slot_validates [OF assms(1,2)] by (simp add: covering_node_def split: option.split)
  show thesis
  proof (cases "overlap_loop s vpn (vpn + 1) ns")
    case None
    then show thesis using none c by simp
  next
    case (Some n)
    then show thesis using found [of n] c overlap_loop_Some [OF Some] u by (simp add: word_nat)
  qed
qed

lemma refusal_chain:
  assumes "x = (if a then (s, e1) else if b then (s, e2) else if c then (s, e3) else if d then (s, e4) else if e then (s, e5)
      else if f then (s, e6) else y)" "\<not> a"
  shows "(\<exists>st. x = (s, st) \<and> (st = e2 \<or> st = e3 \<or> st = e4 \<or> st = e5 \<or> st = e6)) \<or> (\<not> b \<and> \<not> d \<and> \<not> e \<and> \<not> f \<and> x = y)"
  using assms by (auto split: if_split_asm)

lemma grow_down_cases:
  assumes "slot_list (LocalSlot a) ns s" "n \<in> set ns" "lo s n \<le> unat vpn"
  obtains (usable) "grow_down a vpn n s = (s, STATUS_SUCCESS)" "lo s n + unat (guard_page_count (nodes s n)) \<le> unat vpn"
  | (refused) st where "grow_down a vpn n s = (s, st)" "st \<noteq> STATUS_SUCCESS"
  | (grows) xs ys where "grow_down a vpn n s = (grown (LocalSlot a) n s, STATUS_SUCCESS)" "ns = xs @ n # ys"
      "unat vpn + 1 = lo s n + unat (guard_page_count (nodes s n))" "unat (slot_base (LocalSlot a) s) < lo s n"
      "xs \<noteq> [] \<Longrightarrow> hi s (last xs) < lo s n" "slot_free_count (LocalSlot a) s \<noteq> 0"
      "slot_page_status (LocalSlot a) (base_vpn (nodes s n) - 1) s = Inl STATUS_PAGE_NOT_PRESENT"
proof -
  let ?nd = "nodes s n"
  note l = slot_list_parts [OF assms(1)]
  obtain xs ys where ns: "ns = xs @ n # ys" using assms(2) by (meson split_list)
  have u: "unat (node_usable_base_vpn ?nd) = lo s n + unat (guard_page_count ?nd)"
    using usable_base [of ?nd] l(5) assms(2) by (simp add: guards_ok_def)
  have base: "unat (slot_base (LocalSlot a) s) \<le> lo s n" using l(3) [OF assms(2)] by (simp add: node_ok_def)
  have prev: "domain_prev ?nd = last_ptr None xs" using linked_middle [of "nodes s" None _ xs n ys] l(1) ns by blast
  show thesis
  proof (cases "vpn \<ge> node_usable_base_vpn ?nd")
    case True
    then show thesis using usable u by (simp add: grow_down_def Let_def word_nat)
  next
    case False
    let ?nb = "base_vpn ?nd - 1"
    consider (bad) st where "grow_down a vpn n s = (s, st)" "st \<noteq> STATUS_SUCCESS"
      | (good) "vpn = node_usable_base_vpn ?nd - 1" "base_vpn ?nd \<noteq> user_base_vpn (asps s a)" "user_free_count (asps s a) \<noteq> 0"
        "\<not> (case domain_prev ?nd of None \<Rightarrow> False | Some p \<Rightarrow> limit_vpn (nodes s p) > ?nb)" "is_range_unmapped (LocalSlot a) ?nb 1 s"
        "grow_down a vpn n s = (grown (LocalSlot a) n s, STATUS_SUCCESS)"
    proof -
      have last: "(set_slot_free_count (LocalSlot a) (user_free_count (asps (upd_node n (base_vpn_update (\<lambda>_. ?nb)) s) a) - 1)
          (upd_node n (base_vpn_update (\<lambda>_. ?nb)) s)) = grown (LocalSlot a) n s"
        by (simp add: grown_def upd_node_def)
      note g = refusal_chain [OF grow_down_def [of a vpn n s, unfolded Let_def last] False]
      then show thesis using bad good by (elim disjE exE conjE) simp_all
    qed
    then show thesis
    proof cases
      case bad
      then show thesis by (rule refused)
    next
      case good
      have lt: "unat (slot_base (LocalSlot a) s) < lo s n"
        using base good(2) by (auto simp: word_unat_eq_iff order_le_less)
      have nb: "unat ?nb = lo s n - 1" using lt unat_sub64 [of 1 "base_vpn ?nd"] by simp
      have "hi s (last xs) < lo s n" if "xs \<noteq> []"
        using good(4) that nb lt unfolding prev by (simp add: last_ptr_def word_nat not_less)
      moreover have "unat (node_usable_base_vpn ?nd - 1) = unat (node_usable_base_vpn ?nd) - 1"
        using lt u unat_sub64 [of 1 "node_usable_base_vpn ?nd"] by simp
      then have "unat vpn + 1 = lo s n + unat (guard_page_count ?nd)"
        using u lt unfolding good(1) by linarith
      moreover have "slot_page_status (LocalSlot a) ?nb s = Inl STATUS_PAGE_NOT_PRESENT" using good(5) by simp
      ultimately show thesis using grows [OF good(6) ns _ lt] good(3) by simp
    qed
  qed
qed

section \<open>An example\<close>

text \<open>A stack of two pages with a guard page that may grow, at pages 20 and 21 of the address space; a fault hits its guard page, 19.\<close>

definition stack_vmm :: vmm where
  "stack_vmm = (case slot_reserve_to (LocalSlot 2) 20 2 None AF_VMM_RESERVATION_ON_DEMAND (MF_GUARD OR MF_GUARD_GROW_DOWN) user_vmm of
     Returned (s, _) \<Rightarrow> s | _ \<Rightarrow> user_vmm)"

lemma stack_vmm_runs:
  "\<exists>s. slot_reserve_to (LocalSlot 2) 20 2 None AF_VMM_RESERVATION_ON_DEMAND (MF_GUARD OR MF_GUARD_GROW_DOWN) user_vmm = Returned (s, STATUS_SUCCESS)"
  "\<exists>s. StVmm_ResolveLocalPage (Some 2) 19 stack_vmm = Returned (s, STATUS_SUCCESS)"
proof -
  have "case slot_reserve_to (LocalSlot 2) 20 2 None AF_VMM_RESERVATION_ON_DEMAND (MF_GUARD OR MF_GUARD_GROW_DOWN) user_vmm of
      Returned (s, st) \<Rightarrow> st = STATUS_SUCCESS \<and>
        (case StVmm_ResolveLocalPage (Some 2) 19 s of Returned (_, st) \<Rightarrow> st = STATUS_SUCCESS | _ \<Rightarrow> False)
    | _ \<Rightarrow> False"
    by code_simp
  then show "\<exists>s. slot_reserve_to (LocalSlot 2) 20 2 None AF_VMM_RESERVATION_ON_DEMAND (MF_GUARD OR MF_GUARD_GROW_DOWN) user_vmm = Returned (s, STATUS_SUCCESS)"
      "\<exists>s. StVmm_ResolveLocalPage (Some 2) 19 stack_vmm = Returned (s, STATUS_SUCCESS)"
    unfolding stack_vmm_def by (auto split: outcome.splits)
qed

lemma stack_vmm_facts:
  "vmm_inv {LocalSlot 2} stack_vmm" "slot_usable (LocalSlot 2) stack_vmm" "set (reservations (LocalSlot 2) stack_vmm) = {(19, 1, 22)}"
proof -
  have g: "guard_page_count_from_map_flags (MF_GUARD OR MF_GUARD_GROW_DOWN) = 1" by code_simp
  obtain s where s: "slot_reserve_to (LocalSlot 2) 20 2 None AF_VMM_RESERVATION_ON_DEMAND (MF_GUARD OR MF_GUARD_GROW_DOWN) user_vmm =
      Returned (s, STATUS_SUCCESS)" "reservations_become {LocalSlot 2} (LocalSlot 2) {(19, 1, 22)} user_vmm s"
    by (cases rule: slot_reserve_to_cases [OF user_vmm_facts(1) insertI1 user_vmm_facts(3,4), of 20 2 None AF_VMM_RESERVATION_ON_DEMAND
        "MF_GUARD OR MF_GUARD_GROW_DOWN"]) (use stack_vmm_runs(1) in \<open>auto simp: g user_vmm_facts(2)\<close>)
  then show "vmm_inv {LocalSlot 2} stack_vmm" "slot_usable (LocalSlot 2) stack_vmm" "set (reservations (LocalSlot 2) stack_vmm) = {(19, 1, 22)}"
    using slot_usable_cong [of s user_vmm "LocalSlot 2"] user_vmm_facts(3) by (simp_all add: stack_vmm_def reservations_become_def)
qed

section \<open>Property\<close>

text \<open>C25: A fault on a page of a reservation is resolved safely. The function returns, and when it fails nothing has
  changed. When it succeeds the page is a usable page of a reservation, above its guard pages; either
  nothing had to change, or the page was the topmost guard page and exactly this reservation has been extended
  downwards by one page, which was free and unmapped, so that the guard has moved down with it. No other reservation changes.\<close>

theorem vmm_stack_growth:
  assumes "vmm_inv S s" "LocalSlot a \<in> S" "slot_usable (LocalSlot a) s"
  shows "\<exists>s' st. StVmm_ResolveLocalPage (Some a) vpn s = Returned (s', st) \<and>
    (if st = STATUS_SUCCESS
     then (\<exists>p g e. (p, g, e) \<in> set (reservations (LocalSlot a) s') \<and> p + g \<le> unat vpn \<and> unat vpn < e) \<and>
       (s' = s \<or> (\<exists>p g e. (p, g, e) \<in> set (reservations (LocalSlot a) s) \<and> unat vpn + 1 = p + g \<and>
          slot_page_status (LocalSlot a) (of_nat (p - 1)) s = Inl STATUS_PAGE_NOT_PRESENT \<and>
          reservations_become S (LocalSlot a) (insert (p - 1, g, e) (set (reservations (LocalSlot a) s) - {(p, g, e)})) s s'))
     else s' = s)"
proof (cases "vpn < user_base_vpn (asps s a) \<or> vpn > user_limit_vpn (asps s a)")
  case True
  then show ?thesis by (auto simp: StVmm_ResolveLocalPage_def)
next
  case False
  let ?slot = "LocalSlot a"
  let ?d = "preemption_depth (vm_pmm s)"
  let ?locked = "cpu_set (?d + 1) False s"
  let ?f = "\<lambda>s. obind (covering_node ?slot vpn s) (\<lambda>(s, r). case r of Inl status \<Rightarrow> Returned (s, status) | Inr n \<Rightarrow> Returned (grow_down a vpn n s))"
  obtain ns where l: "slot_list ?slot ns s" using vmm_inv_list [OF assms(1,2)] by blast
  note p = vmm_inv_pool [OF assms(1)]
  have d: "?d \<noteq> 0xFFFFFFFF" using assms(3) by (simp add: slot_usable_def)
  have R: "StVmm_ResolveLocalPage (Some a) vpn s = with_irq_locked ?f s" using False by (simp add: StVmm_ResolveLocalPage_def)
  have l0: "slot_list ?slot ns ?locked" "pool_ok ?locked" "unat vpn \<le> unat (slot_limit ?slot ?locked)" using l p False by (simp_all add: word_nat)
  have quiet: "StVmm_ResolveLocalPage (Some a) vpn s = Returned (s, st)" if "?f ?locked = Returned (?locked, st)" for st
    using R with_irq_locked_returns [where f = ?f, OF d that] by (simp add: cpu_set_back)
  show ?thesis
  proof (cases rule: covering_node_cases [OF l0, case_names found none])
    case (found n)
    have reg: "region_of s n \<in> set (reservations ?slot s)" using reservations_list [OF l p] found(2) by simp
    have lo: "lo ?locked n \<le> unat vpn" using found(3) .
    show ?thesis
    proof (cases rule: grow_down_cases [OF l0(1) found(2) lo, case_names usable refused grows])
      case usable
      then have "\<exists>p g e. (p, g, e) \<in> set (reservations ?slot s) \<and> p + g \<le> unat vpn \<and> unat vpn < e"
        using reg found(4) unfolding region_of_def by auto
      then show ?thesis using quiet [of STATUS_SUCCESS] found(1) usable(1) by auto
    next
      case (refused st)
      then show ?thesis using quiet [of st] found(1) by auto
    next
      case (grows xs ys)
      let ?s1 = "grown ?slot n ?locked"
      let ?s' = "cpu_set ?d (interrupts_enabled s) ?s1"
      have e: "?s' = grown ?slot n s"
        using cpu_set_back [of "grown ?slot n s" "?d + 1" False] grown_fields(5) [of ?slot n s] by (simp add: grown_cpu cpu_view_def)
      have c: "cpu_view ?s1 = cpu_view ?locked" by (rule grown_fields(5))
      have "?f ?locked = Returned (?s1, STATUS_SUCCESS)" using found(1) grows(1) by simp
      then have r: "StVmm_ResolveLocalPage (Some a) vpn s = Returned (grown ?slot n s, STATUS_SUCCESS)"
        using R with_irq_locked_returns [where f = ?f, OF d _ c] e by simp
      have b: "reservations_become S ?slot (insert (lo s n - 1, unat (guard_page_count (nodes s n)), hi s n) (set (reservations ?slot s) - {region_of s n})) s
          (grown ?slot n s)"
        by (rule grown_become [OF assms(1) l [unfolded grows(2)]]) (use grows(4-6) in simp_all)
      have "of_nat (lo s n - 1) = base_vpn (nodes s n) - 1" using grows(4) by (simp add: of_nat_diff)
      then have "slot_page_status ?slot (of_nat (lo s n - 1)) s = Inl STATUS_PAGE_NOT_PRESENT" using grows(7) by simp
      moreover have "(lo s n - 1, unat (guard_page_count (nodes s n)), hi s n) \<in> set (reservations ?slot (grown ?slot n s))"
        using b by (simp add: reservations_become_def)
      moreover have "lo s n - 1 + unat (guard_page_count (nodes s n)) \<le> unat vpn" "unat vpn < hi s n" "unat vpn + 1 = lo s n + unat (guard_page_count (nodes s n))"
        using grows(3,4) found(4) by simp_all
      ultimately show ?thesis using r b reg unfolding region_of_def by auto
    qed
  next
    case none
    then show ?thesis using quiet [of STATUS_NOT_ALLOCATED] by auto
  qed
qed

theorem vmm_stack_growth_witness:
  "set (reservations (LocalSlot 2) stack_vmm) = {(19, 1, 22)} \<and>
   (\<exists>s'. StVmm_ResolveLocalPage (Some 2) 19 stack_vmm = Returned (s', STATUS_SUCCESS) \<and> set (reservations (LocalSlot 2) s') = {(18, 1, 22)})"
  using vmm_stack_growth [OF stack_vmm_facts(1) insertI1 stack_vmm_facts(2), of 19] stack_vmm_runs(2)
  by (auto simp: stack_vmm_facts(3) reservations_become_def)

end
