(* ===== verification/Paging_Index.thy ===== *)
theory Paging_Index
  imports Paging_Unmap
begin

text \<open>
  Bits and indices of the page tables: the four indices of a page number determine it, and the frame
  and the flags of an entry can be read back.
\<close>

section \<open>Masks and shifts\<close>

lemma unat_nat64: "k < 2 ^ 64 \<Longrightarrow> unat (of_nat k :: uint64_t) = k"
  by (simp only: unsigned_of_nat) (simp add: take_bit_nat_eq_self)

lemma masked_index:
  fixes v :: uint64_t
  shows "unat (drop_bit k (v AND push_bit k (mask n))) = unat v div 2 ^ k mod 2 ^ n"
proof -
  have "drop_bit k (v AND push_bit k (mask n)) = take_bit n (drop_bit k v)"
    by (rule bit_word_eqI) (auto simp: bit_simps dest: bit_imp_le_length)
  then have "unat (drop_bit k (v AND push_bit k (mask n))) = take_bit n (drop_bit k (unat v))"
    by (simp only: unsigned_take_bit_eq unsigned_drop_bit_eq) (auto simp: bit_eq_iff bit_simps dest: bit_imp_le_length)
  then show ?thesis by (simp only: take_bit_eq_mod drop_bit_eq_div)
qed

lemma index_arith:
  "PML4_INDEX v = unat v div 2 ^ 27 mod 512" "PDPT_INDEX v = unat v div 2 ^ 18 mod 512"
  "PD_INDEX v = unat v div 2 ^ 9 mod 512" "PT_INDEX v = unat v mod 512"
proof -
  have m: "VIRT_PAGE_PML4_MASK = push_bit 27 (mask 9)" "VIRT_PAGE_PDPT_MASK = push_bit 18 (mask 9)"
      "VIRT_PAGE_PD_MASK = push_bit 9 (mask 9)" "VIRT_PAGE_PT_MASK = push_bit 0 (mask 9)"
    by (simp_all add: VIRT_PAGE_PML4_MASK_def VIRT_PAGE_PDPT_MASK_def VIRT_PAGE_PD_MASK_def VIRT_PAGE_PT_MASK_def mask_eq_exp_minus_1 push_bit_eq_mult)
  show "PML4_INDEX v = unat v div 2 ^ 27 mod 512" "PDPT_INDEX v = unat v div 2 ^ 18 mod 512" "PD_INDEX v = unat v div 2 ^ 9 mod 512"
    unfolding PML4_INDEX_def PDPT_INDEX_def PD_INDEX_def m masked_index by simp_all
  show "PT_INDEX v = unat v mod 512"
    using masked_index [of 0 v 9] unfolding PT_INDEX_def m by simp
qed

section \<open>Canonical page numbers\<close>

definition canonical :: "uint64_t \<Rightarrow> bool" where
  "canonical v \<longleftrightarrow> v \<le> VIRT_PAGE_MAX \<and> \<not> (PML4_HOLE_START \<le> v \<and> v \<le> PML4_HOLE_END)"

lemma canonical_nat: "canonical v \<longleftrightarrow> unat v < 2 ^ 35 \<or> 2 ^ 52 - 2 ^ 35 \<le> unat v \<and> unat v < 2 ^ 52"
  by (auto simp: canonical_def word_nat VIRT_PAGE_MAX_def PML4_HOLE_START_def PML4_HOLE_END_def)

lemma index_split:
  "(x :: nat) mod 2 ^ 36 = 2 ^ 27 * (x div 2 ^ 27 mod 512) + (2 ^ 18 * (x div 2 ^ 18 mod 512) + (2 ^ 9 * (x div 2 ^ 9 mod 512) + x mod 512))"
proof -
  have "x mod 2 ^ 36 = 2 ^ 27 * (x div 2 ^ 27 mod 512) + x mod 2 ^ 27" using mod_mult2_eq [of x "2 ^ 27" 512] by simp
  also have "x mod 2 ^ 27 = 2 ^ 18 * (x div 2 ^ 18 mod 512) + x mod 2 ^ 18" using mod_mult2_eq [of x "2 ^ 18" 512] by simp
  also have "x mod 2 ^ 18 = 2 ^ 9 * (x div 2 ^ 9 mod 512) + x mod 512" using mod_mult2_eq [of x "2 ^ 9" 512] by simp
  finally show ?thesis .
qed

text \<open>The upper half of the canonical pages differs from the lower one in bit 35.\<close>

lemma canonical_mod:
  assumes "canonical v"
  shows "unat v < 2 ^ 35 \<and> unat v mod 2 ^ 36 = unat v \<or> 2 ^ 35 \<le> unat v mod 2 ^ 36 \<and> unat v = unat v mod 2 ^ 36 + 65535 * 2 ^ 36"
proof (cases "unat v < 2 ^ 35")
  case False
  then have b: "2 ^ 52 - 2 ^ 35 \<le> unat v" "unat v < 2 ^ 52" using assms by (simp_all add: canonical_nat)
  define y where "y = unat v - 65535 * 2 ^ 36"
  have y: "unat v = y + 65535 * 2 ^ 36" "2 ^ 35 \<le> y" "y < 2 ^ 36" using b by (simp_all add: y_def)
  have "unat v mod 2 ^ 36 = y mod 2 ^ 36" unfolding y(1) by (rule mod_mult_self1)
  then have "unat v mod 2 ^ 36 = y" using y(3) by (simp only: mod_less)
  then show ?thesis using y by simp
qed simp

lemma canonical_index_inj:
  assumes "canonical v" "canonical w" "PML4_INDEX v = PML4_INDEX w" "PDPT_INDEX v = PDPT_INDEX w" "PD_INDEX v = PD_INDEX w" "PT_INDEX v = PT_INDEX w"
  shows "v = w"
proof -
  have m: "unat v mod 2 ^ 36 = unat w mod 2 ^ 36"
    unfolding index_split [of "unat v"] index_split [of "unat w"] using assms(3-6) unfolding index_arith by (simp only:)
  have "unat v = unat w" using canonical_mod [OF assms(1)] canonical_mod [OF assms(2)] unfolding m by linarith
  then show ?thesis by (simp add: word_unat_eq_iff)
qed

section \<open>Flags and frames of entries\<close>

lemma flag_bit: "flag_set w (push_bit k 1) = bit w k"
  by (simp only: flag_set_def bit_iff_and_push_bit_not_eq_0)

lemma pte_flags:
  "flag_set e PTE_P = bit e 0" "flag_set e PTE_RW = bit e 1" "flag_set e PTE_US = bit e 2" "flag_set e PTE_PWT = bit e 3"
  "flag_set e PTE_PCD = bit e 4" "flag_set e PTE_PS = bit e 7" "flag_set e PTE_G = bit e 8" "flag_set e PTE_SW0 = bit e 9"
  "flag_set e PTE_SW1 = bit e 10" "flag_set e PTE_MANAGED = bit e 11" "flag_set e PTE_XD = bit e 63"
  unfolding PTE_P_def PTE_RW_def PTE_US_def PTE_PWT_def PTE_PCD_def PTE_PS_def PTE_G_def PTE_SW0_def PTE_SW1_def PTE_MANAGED_def
    PTE_XD_def flag_bit by (rule refl)+

lemma MF_bits:
  "MF_WRITABLE = push_bit 0 1" "MF_USER = push_bit 1 1" "MF_NO_CACHE = push_bit 2 1" "MF_WRITETHRU_CACHE = push_bit 3 1"
  "MF_NO_EXECUTE = push_bit 4 1" "MF_GLOBAL = push_bit 5 1" "MF_POOL_LARGE_ALLOC = push_bit 6 1" "MF_POOL_SUBPOOL = push_bit 7 1"
  by (simp_all add: MF_WRITABLE_def MF_USER_def MF_NO_CACHE_def MF_WRITETHRU_CACHE_def MF_NO_EXECUTE_def MF_GLOBAL_def
    MF_POOL_LARGE_ALLOC_def MF_POOL_SUBPOOL_def)

lemma mapflags_bits:
  "flag_set m MF_WRITABLE = bit m 0" "flag_set m MF_USER = bit m 1" "flag_set m MF_NO_CACHE = bit m 2" "flag_set m MF_WRITETHRU_CACHE = bit m 3"
  "flag_set m MF_NO_EXECUTE = bit m 4" "flag_set m MF_GLOBAL = bit m 5" "flag_set m MF_POOL_LARGE_ALLOC = bit m 6" "flag_set m MF_POOL_SUBPOOL = bit m 7"
  unfolding MF_bits flag_bit by (rule refl)+

lemma PTE_BASE_MASK_eq: "PTE_BASE_MASK = push_bit 12 (mask 40)"
  by (simp add: PTE_BASE_MASK_def mask_eq_exp_minus_1 push_bit_eq_mult)

lemma PTE_BASE_MASK_bit: "bit PTE_BASE_MASK k = (12 \<le> k \<and> k < 52)"
  unfolding PTE_BASE_MASK_eq bit_push_bit_iff bit_mask_iff by auto

lemma pte_frame_bits: "(\<And>k. 12 \<le> k \<Longrightarrow> k < 52 \<Longrightarrow> bit e k = bit e' k) \<Longrightarrow> pte_frame e = pte_frame e'"
proof -
  assume a: "\<And>k. 12 \<le> k \<Longrightarrow> k < 52 \<Longrightarrow> bit e k = bit e' k"
  have "e AND PTE_BASE_MASK = e' AND PTE_BASE_MASK" by (rule bit_word_eqI) (auto simp: bit_and_iff PTE_BASE_MASK_bit a)
  then show ?thesis by (simp add: pte_frame_def)
qed

lemma take_bit_frame:
  fixes pfn :: uint64_t
  assumes "unat pfn < 2 ^ 40"
  shows "take_bit 40 pfn = pfn"
proof -
  have "unat (take_bit 40 pfn) = unat pfn" unfolding unsigned_take_bit_eq using assms by (simp add: take_bit_nat_eq_self)
  then show ?thesis by (simp only: word_unat_eq_iff)
qed

lemma set_pte_base_bit:
  assumes "unat pfn < 2 ^ 40"
  shows "bit (set_pte_base e pfn) k = (if 12 \<le> k \<and> k < 52 then bit pfn (k - 12) else bit e k)"
proof -
  have "\<not> bit pfn j" if "40 \<le> j" for j
  proof -
    have "take_bit 40 pfn = pfn" by (rule take_bit_frame [OF assms])
    then show ?thesis using that by (metis bit_take_bit_iff not_less)
  qed
  then show ?thesis
    by (auto simp: set_pte_base_def bit_simps PTE_BASE_MASK_bit PTE_BASE_SHIFT_def not_le not_less dest: bit_imp_le_length)
qed

lemma pte_frame_set_base:
  assumes "unat pfn < 2 ^ 40"
  shows "pte_frame (set_pte_base e pfn) = unat pfn"
proof -
  have "drop_bit 12 (set_pte_base e pfn AND PTE_BASE_MASK) = take_bit 40 pfn"
    by (rule bit_word_eqI) (auto simp: bit_simps set_pte_base_bit [OF assms] PTE_BASE_MASK_bit)
  also have "\<dots> = pfn" by (rule take_bit_frame [OF assms])
  finally show ?thesis by (simp add: pte_frame_def PTE_BASE_SHIFT_def)
qed

section \<open>Templates\<close>

lemma bit_flag_if:
  "bit (if b then push_bit k 1 else 0 :: uint64_t) j = (b \<and> j = k \<and> k < 64)"
  "bit (if b then push_bit k 1 else 0 :: uint32_t) j = (b \<and> j = k \<and> k < 32)" "bit (push_bit k 1 :: uint32_t) j = (j = k \<and> k < 32)"
  by (auto simp: bit_simps)

lemma put_flag_bit: "bit (put_flag b (push_bit k 1) e) j = (if j = k \<and> k < 64 then b else bit e j)"
  by (auto simp: put_flag_def bit_simps dest: bit_imp_le_length)

lemma template_bit:
  "bit (make_pte_template nx mapflags) k =
    (k = 0 \<or> k = 1 \<and> flag_set mapflags MF_WRITABLE \<or> k = 2 \<and> flag_set mapflags MF_USER \<or> k = 3 \<and> flag_set mapflags MF_WRITETHRU_CACHE \<or>
     k = 4 \<and> flag_set mapflags MF_NO_CACHE \<or> k = 9 \<and> flag_set mapflags MF_POOL_LARGE_ALLOC \<or> k = 10 \<and> flag_set mapflags MF_POOL_SUBPOOL \<or>
     k = 63 \<and> nx \<and> flag_set mapflags MF_NO_EXECUTE)"
proof -
  have z: "bit PTE_P k = (k = 0)" unfolding PTE_P_def by (simp add: bit_simps)
  show ?thesis
    unfolding make_pte_template_def Let_def mapflags_to_pte_private_bits_def PTE_RW_def PTE_US_def PTE_PCD_def PTE_PWT_def PTE_XD_def
      PTE_SW0_def PTE_SW1_def
    by (cases nx) (simp_all only: put_flag_bit bit_or_iff bit_flag_if z if_True if_False or.left_neutral, auto)
qed

lemma pte_to_mapflags_bit:
  "bit (pte_to_mapflags nx e) k =
    (k = 0 \<and> bit e 1 \<or> k = 1 \<and> bit e 2 \<or> k = 2 \<and> bit e 4 \<or> k = 3 \<and> bit e 3 \<or> k = 5 \<and> bit e 8 \<or> k = 4 \<and> nx \<and> bit e 63 \<or>
     k = 6 \<and> bit e 9 \<or> k = 7 \<and> bit e 10)"
  unfolding pte_to_mapflags_def pte_flags MF_bits by (simp only: bit_or_iff bit_flag_if) auto

text \<open>The flags that an entry can hold.\<close>

definition entry_flags :: "bool \<Rightarrow> uint32_t" where
  "entry_flags nx = MF_WRITABLE OR MF_USER OR MF_NO_CACHE OR MF_WRITETHRU_CACHE OR MF_POOL_LARGE_ALLOC OR MF_POOL_SUBPOOL OR
     (if nx then MF_NO_EXECUTE else 0)"

lemma entry_flags_bit: "bit (entry_flags nx) k = (k \<in> {0, 1, 2, 3, 6, 7} \<or> k = 4 \<and> nx)"
  unfolding entry_flags_def MF_bits by (simp only: bit_or_iff bit_flag_if) auto



end
