(* ===== verification/Paging_Tree.thy ===== *)
theory Paging_Tree
  imports Paging_Index
begin

text \<open>
  The tables of an address space as a tree: which frame is the table at a path of indices, what it means
  that the tables form a tree, and what a page is translated to in terms of it.
\<close>

section \<open>Tables and paths\<close>

text \<open>A path lists the indices from the table up to the root; it has at most three.\<close>

fun path_table :: "nat \<Rightarrow> mmu \<Rightarrow> nat list \<Rightarrow> nat option" where
  "path_table asp s [] = Some (root_table_pfn s asp)"
| "path_table asp s (i # p) =
     (case path_table asp s p of
        None \<Rightarrow> None
      | Some f \<Rightarrow>
          if flag_set (phys_mem s f i) PTE_P \<and> (p = [] \<or> \<not> flag_set (phys_mem s f i) PTE_PS) \<and> length p < 3
          then Some (pte_frame (phys_mem s f i)) else None)"

definition tables_tree :: "nat \<Rightarrow> mmu \<Rightarrow> bool" where
  "tables_tree asp s \<longleftrightarrow> (\<forall>p q f. path_table asp s p = Some f \<longrightarrow> path_table asp s q = Some f \<longrightarrow> p = q)"

definition page_path :: "uint64_t \<Rightarrow> nat list" where
  "page_path v = [PD_INDEX v, PDPT_INDEX v, PML4_INDEX v]"

lemma length_page_path: "length (page_path v) = 3" by (simp add: page_path_def)

lemma path_table_length: "path_table asp s p = Some f \<Longrightarrow> length p \<le> 3"
  by (cases p) (auto split: option.splits if_splits)

lemma path_table_Cons:
  "path_table asp s p = Some f \<Longrightarrow> path_table asp s (i # p) =
    (if flag_set (phys_mem s f i) PTE_P \<and> (p = [] \<or> \<not> flag_set (phys_mem s f i) PTE_PS) \<and> length p < 3
     then Some (pte_frame (phys_mem s f i)) else None)"
  by simp

lemma path_table_suffix: "path_table asp s (i # p) \<noteq> None \<Longrightarrow> path_table asp s p \<noteq> None"
  by (auto split: option.splits)

section \<open>Entries that are alike\<close>

text \<open>Entries that differ at most in flags that no walk looks at.\<close>

definition alike :: "uint64_t \<Rightarrow> uint64_t \<Rightarrow> bool" where
  "alike e' e \<longleftrightarrow> flag_set e' PTE_P = flag_set e PTE_P \<and> flag_set e' PTE_PS = flag_set e PTE_PS \<and> pte_frame e' = pte_frame e"

lemma alike_refl [simp]: "alike e e" by (simp add: alike_def)

lemma alike_user: "alike (e OR PTE_US) e"
proof -
  have b: "bit (e OR PTE_US) k = (k = 2 \<or> bit e k)" for k
    unfolding PTE_US_def bit_or_iff bit_push_bit_iff bit_1_iff by auto
  then have "pte_frame (e OR PTE_US) = pte_frame e" by (intro pte_frame_bits) auto
  then show ?thesis unfolding alike_def pte_flags b by simp
qed

text \<open>The tables above the last level are alike.\<close>

definition upper_alike :: "nat \<Rightarrow> mmu \<Rightarrow> mmu \<Rightarrow> bool" where
  "upper_alike asp s s' \<longleftrightarrow> root_table_pfn s' = root_table_pfn s \<and>
     (\<forall>p f i. path_table asp s p = Some f \<longrightarrow> length p < 3 \<longrightarrow> alike (phys_mem s' f i) (phys_mem s f i))"

lemma upper_alikeD:
  "upper_alike asp s s' \<Longrightarrow> path_table asp s p = Some f \<Longrightarrow> length p < 3 \<Longrightarrow> alike (phys_mem s' f i) (phys_mem s f i)"
  "upper_alike asp s s' \<Longrightarrow> root_table_pfn s' = root_table_pfn s"
  by (simp_all add: upper_alike_def)

lemma path_table_alike:
  assumes "upper_alike asp s s'"
  shows "path_table asp s' p = path_table asp s p"
proof (induction p)
  case Nil
  then show ?case using assms by (simp add: upper_alike_def)
next
  case (Cons i p)
  have "alike (phys_mem s' f i) (phys_mem s f i)" if "path_table asp s p = Some f" "length p < 3" for f
    using assms that by (simp add: upper_alike_def)
  then show ?case using Cons.IH by (auto simp: alike_def split: option.split)
qed

lemma tables_tree_alike: "upper_alike asp s s' \<Longrightarrow> tables_tree asp s' = tables_tree asp s"
  by (simp add: tables_tree_def path_table_alike)

lemma upper_alike_trans: "upper_alike asp s s' \<Longrightarrow> upper_alike asp s' s'' \<Longrightarrow> upper_alike asp s s''"
  using path_table_alike [of asp s s'] by (auto simp: upper_alike_def alike_def)

section \<open>Walks through tables\<close>

lemma walk_canonical:
  "walk asp v s = (if v > VIRT_PAGE_MAX then Inl STATUS_INVALID_VALUE else if \<not> canonical v then Inl STATUS_PAGE_NOT_PRESENT else walk asp v s)"
  by (auto simp: walk_def canonical_def)

lemma walk_last:
  assumes "canonical v" "path_table asp s (page_path v) = Some t"
  shows "walk asp v s =
    (if \<not> flag_set (phys_mem s t (PT_INDEX v)) PTE_P then Inl STATUS_PAGE_NOT_PRESENT else Inr (LEAF_PT t (phys_mem s t (PT_INDEX v))))"
  using assms by (auto simp: walk_def canonical_def page_path_def Let_def split: option.splits if_splits)

lemma translate_last:
  assumes "canonical v" "path_table asp s (page_path v) = Some t"
  shows "vpn_to_pfn asp v s =
    (if flag_set (phys_mem s t (PT_INDEX v)) PTE_P then Inr (pte_frame (phys_mem s t (PT_INDEX v))) else Inl STATUS_PAGE_NOT_PRESENT)"
  by (simp add: vpn_to_pfn_def walk_last [OF assms])

text \<open>A page that has no last table is translated by the tables above.\<close>

lemma translate_upper:
  assumes "upper_alike asp s s'" "path_table asp s (page_path v) = None"
  shows "vpn_to_pfn asp v s' = vpn_to_pfn asp v s"
proof (cases "canonical v")
  case True
  let ?r = "root_table_pfn s asp"
  note a = upper_alikeD(1) [OF assms(1)]
  have r: "root_table_pfn s' asp = ?r" using upper_alikeD(2) [OF assms(1)] by simp
  have e0: "alike (phys_mem s' ?r (PML4_INDEX v)) (phys_mem s ?r (PML4_INDEX v))" by (rule a [of "[]"]) simp_all
  show ?thesis
  proof (cases "flag_set (phys_mem s ?r (PML4_INDEX v)) PTE_P")
    case p0: True
    let ?t3 = "pte_frame (phys_mem s ?r (PML4_INDEX v))"
    have t3: "path_table asp s [PML4_INDEX v] = Some ?t3" using p0 by simp
    have e1: "alike (phys_mem s' ?t3 (PDPT_INDEX v)) (phys_mem s ?t3 (PDPT_INDEX v))" by (rule a [OF t3]) simp
    show ?thesis
    proof (cases "flag_set (phys_mem s ?t3 (PDPT_INDEX v)) PTE_P \<and> \<not> flag_set (phys_mem s ?t3 (PDPT_INDEX v)) PTE_PS")
      case p1: True
      let ?t2 = "pte_frame (phys_mem s ?t3 (PDPT_INDEX v))"
      have t2: "path_table asp s [PDPT_INDEX v, PML4_INDEX v] = Some ?t2" using p0 p1 by simp
      have e2: "alike (phys_mem s' ?t2 (PD_INDEX v)) (phys_mem s ?t2 (PD_INDEX v))" by (rule a [OF t2]) simp
      have "\<not> (flag_set (phys_mem s ?t2 (PD_INDEX v)) PTE_P \<and> \<not> flag_set (phys_mem s ?t2 (PD_INDEX v)) PTE_PS)"
        using assms(2) path_table_Cons [OF t2, of "PD_INDEX v"] unfolding page_path_def by (auto simp del: path_table.simps split: if_splits)
      then show ?thesis
        using True r e0 e1 e2 p0 p1 by (auto simp: vpn_to_pfn_def walk_def canonical_def alike_def Let_def)
    qed (use True r e0 e1 p0 in \<open>auto simp: vpn_to_pfn_def walk_def canonical_def alike_def Let_def\<close>)
  qed (use True r e0 in \<open>auto simp: vpn_to_pfn_def walk_def canonical_def alike_def Let_def\<close>)
next
  case False
  then show ?thesis by (auto simp: vpn_to_pfn_def walk_canonical [of asp v s'] walk_canonical [of asp v s])
qed

lemma translate_alike:
  assumes "upper_alike asp s s'"
    and "\<And>t. path_table asp s (page_path v) = Some t \<Longrightarrow> canonical v \<Longrightarrow> alike (phys_mem s' t (PT_INDEX v)) (phys_mem s t (PT_INDEX v))"
  shows "vpn_to_pfn asp v s' = vpn_to_pfn asp v s"
proof (cases "path_table asp s (page_path v)")
  case None
  then show ?thesis by (rule translate_upper [OF assms(1)])
next
  case (Some t)
  show ?thesis
  proof (cases "canonical v")
    case True
    then show ?thesis
      using assms(2) [OF Some] translate_last [OF True Some] translate_last [of v asp s' t] Some path_table_alike [OF assms(1)] by (simp add: alike_def)
  qed (auto simp: vpn_to_pfn_def walk_canonical [of asp v s'] walk_canonical [of asp v s])
qed

section \<open>Pages of a chunk\<close>

lemma chunk_page:
  assumes "i < 512 - PT_INDEX v" "unat v + i < 2 ^ 64"
  shows "page_path (v + of_nat i) = page_path v" "PT_INDEX (v + of_nat i) = PT_INDEX v + i"
proof -
  let ?x = "unat v"
  have i: "unat (of_nat i :: uint64_t) = i" using assms(2) by (intro unat_nat64) simp
  have u: "unat (v + of_nat i) = ?x + i" using assms(2) i by (subst unat_add64) simp_all
  have m: "?x mod 512 + i < 512" using assms(1) by (simp add: index_arith)
  have "512 * (?x div 512) + ?x mod 512 = ?x" by (rule mult_div_mod_eq)
  then have "(?x + i) div 512 = ?x div 512" using m by (intro div_nat_eqI; (unfold mult_Suc_right)?; linarith)
  then have d: "(?x + i) div 2 ^ 9 = ?x div 2 ^ 9" by simp
  have "(?x + i) div 2 ^ 18 = ?x div 2 ^ 18" "(?x + i) div 2 ^ 27 = ?x div 2 ^ 27"
    using arg_cong [OF d, of "\<lambda>y. y div 2 ^ 9"] arg_cong [OF d, of "\<lambda>y. y div 2 ^ 18"] by (simp_all add: div_mult2_eq [symmetric])
  then show "page_path (v + of_nat i) = page_path v" using d by (simp add: page_path_def index_arith u)
  show "PT_INDEX (v + of_nat i) = PT_INDEX v + i"
    using m unfolding index_arith u by (metis mod_add_left_eq mod_less)
qed

text \<open>The page of a slot of the last table.\<close>

lemma slot_page:
  assumes "tables_tree asp s" "canonical v" "canonical w" "path_table asp s (page_path v) = Some t" "path_table asp s (page_path w) = Some t"
    and "PT_INDEX v = PT_INDEX w"
  shows "v = w"
proof -
  have "page_path v = page_path w" using assms(1,4,5) by (simp add: tables_tree_def)
  then show ?thesis using canonical_index_inj [OF assms(2,3)] assms(6) by (simp add: page_path_def)
qed

section \<open>Writes to the last level\<close>

lemma leaf_write:
  assumes "tables_tree asp s" "path_table asp s q = Some t" "length q = 3"
  shows "upper_alike asp s (set_entry t k e s)"
  using assms by (fastforce simp: upper_alike_def set_entry_def tables_tree_def)

lemma clear_other:
  assumes "\<And>p. path_table asp s p \<noteq> Some f"
  shows "upper_alike asp s (clear_frame f s)"
  using assms by (fastforce simp: upper_alike_def clear_frame_def)

text \<open>A state in which the slots \<open>K\<close> of the last table \<open>t\<close> have been written with \<open>E\<close>.\<close>

definition leaves_written :: "nat \<Rightarrow> nat \<Rightarrow> nat set \<Rightarrow> (nat \<Rightarrow> uint64_t) \<Rightarrow> mmu \<Rightarrow> mmu \<Rightarrow> bool" where
  "leaves_written asp t K E s s' \<longleftrightarrow> upper_alike asp s s' \<and> s' = s\<lparr>phys_mem := phys_mem s'\<rparr> \<and>
     (\<forall>p f k. path_table asp s p = Some f \<longrightarrow> length p = 3 \<longrightarrow>
        phys_mem s' f k = (if f = t \<and> k \<in> K then E k else phys_mem s f k))"

lemma leaves_writtenD:
  "leaves_written asp t K E s s' \<Longrightarrow> path_table asp s p = Some f \<Longrightarrow> length p = 3 \<Longrightarrow>
    phys_mem s' f k = (if f = t \<and> k \<in> K then E k else phys_mem s f k)"
  by (simp add: leaves_written_def)

lemma leaves_written_step:
  assumes "tables_tree asp s" "path_table asp s q = Some t" "length q = 3" "k \<notin> K"
    and "leaves_written asp t K E (set_entry t k (E k) s) s' \<or>
      (\<forall>p. path_table asp s p \<noteq> Some f) \<and> leaves_written asp t K E (clear_frame f (set_entry t k (E k) s)) s'"
  shows "leaves_written asp t (insert k K) E s s'"
proof -
  let ?s1 = "set_entry t k (E k) s"
  have u1: "upper_alike asp s ?s1" by (rule leaf_write [OF assms(1-3)])
  note t1 = path_table_alike [OF u1]
  from assms(5) show ?thesis
  proof
    assume w: "leaves_written asp t K E ?s1 s'"
    then have "upper_alike asp s s'" using upper_alike_trans [OF u1] by (simp add: leaves_written_def)
    moreover have "s' = s\<lparr>phys_mem := phys_mem s'\<rparr>" using w by (simp add: leaves_written_def set_entry_def)
    ultimately show ?thesis using w assms(4) t1 by (auto simp: leaves_written_def set_entry_def)
  next
    assume w: "(\<forall>p. path_table asp s p \<noteq> Some f) \<and> leaves_written asp t K E (clear_frame f ?s1) s'"
    let ?s2 = "clear_frame f ?s1"
    have u2: "upper_alike asp ?s1 ?s2" by (rule clear_other) (use w t1 in simp)
    note u = upper_alike_trans [OF u1 u2]
    note t2 = path_table_alike [OF u]
    have "upper_alike asp s s'" using w upper_alike_trans [OF u] by (simp add: leaves_written_def)
    moreover have "s' = s\<lparr>phys_mem := phys_mem s'\<rparr>" using w by (simp add: leaves_written_def set_entry_def clear_frame_def)
    moreover have "phys_mem s' g j = (if g = t \<and> j \<in> insert k K then E j else phys_mem s g j)"
      if "path_table asp s p = Some g" "length p = 3" for p g j
    proof -
      have "g \<noteq> f" using w that(1) by auto
      moreover have "phys_mem s' g j = (if g = t \<and> j \<in> K then E j else phys_mem ?s2 g j)"
        using w that t2 by (auto simp: leaves_written_def)
      ultimately show ?thesis using assms(4) by (simp add: clear_frame_def set_entry_def)
    qed
    ultimately show ?thesis unfolding leaves_written_def by blast
  qed
qed

lemma leaves_written_translate:
  assumes "leaves_written asp t K E s s'" "tables_tree asp s" "path_table asp s (page_path v) = Some t" "canonical v"
  shows "vpn_to_pfn asp w s' =
    (if canonical w \<and> page_path w = page_path v \<and> PT_INDEX w \<in> K
     then if flag_set (E (PT_INDEX w)) PTE_P then Inr (pte_frame (E (PT_INDEX w))) else Inl STATUS_PAGE_NOT_PRESENT
     else vpn_to_pfn asp w s)"
proof (cases "canonical w \<and> page_path w = page_path v \<and> PT_INDEX w \<in> K")
  case True
  have u: "upper_alike asp s s'" using assms(1) by (simp add: leaves_written_def)
  have "phys_mem s' t (PT_INDEX w) = E (PT_INDEX w)"
    using leaves_writtenD [OF assms(1,3) length_page_path] True by simp
  moreover have "path_table asp s' (page_path w) = Some t" using assms(3) True path_table_alike [OF u] by simp
  ultimately show ?thesis using translate_last [of w asp s' t] True by simp
next
  case False
  have u: "upper_alike asp s s'" using assms(1) by (simp add: leaves_written_def)
  have "vpn_to_pfn asp w s' = vpn_to_pfn asp w s"
  proof (rule translate_alike [OF u])
    fix f
    assume f: "path_table asp s (page_path w) = Some f" "canonical w"
    have "f = t \<Longrightarrow> PT_INDEX w \<notin> K" using False f assms(2,3) by (auto simp: tables_tree_def)
    moreover have "phys_mem s' f (PT_INDEX w) = (if f = t \<and> PT_INDEX w \<in> K then E (PT_INDEX w) else phys_mem s f (PT_INDEX w))"
      by (rule leaves_writtenD [OF assms(1) f(1) length_page_path])
    ultimately show "alike (phys_mem s' f (PT_INDEX w)) (phys_mem s f (PT_INDEX w))" by auto
  qed
  then show ?thesis using False by auto
qed

end
