(* ===== verification/Paging_Props.thy ===== *)
theory Paging_Props
  imports Paging_Tree Pmm_Mark_Props
begin

text \<open>
  What mapping and unmapping do to the translation of an address space whose tables form a tree.
\<close>

section \<open>Ranges of pages\<close>

definition covers :: "uint64_t \<Rightarrow> uint64_t \<Rightarrow> uint64_t \<Rightarrow> bool" where
  "covers vpn count v \<longleftrightarrow> unat vpn \<le> unat v \<and> unat v < unat vpn + unat count"

text \<open>The ranges that \<^verbatim>\<open>map_memory\<close> accepts: within one half of the address space, and not up to its last page.\<close>

definition mappable :: "uint64_t \<Rightarrow> uint64_t \<Rightarrow> bool" where
  "mappable vpn count \<longleftrightarrow> unat vpn + unat count < 2 ^ 35 \<or> 2 ^ 52 - 2 ^ 35 \<le> unat vpn \<and> unat vpn + unat count < 2 ^ 52"

lemma mappable_less: "mappable vpn count \<Longrightarrow> unat vpn + unat count < 2 ^ 52"
  by (auto simp: mappable_def)

lemma mappable_canonical: "mappable vpn count \<Longrightarrow> covers vpn count v \<Longrightarrow> canonical v"
  by (auto simp: mappable_def covers_def canonical_nat)

lemma mappable_part:
  assumes "mappable vpn count" "unat n \<le> unat count"
  shows "unat (vpn + n) = unat vpn + unat n" "unat (count - n) = unat count - unat n" "mappable vpn n" "mappable (vpn + n) (count - n)"
proof -
  have "unat vpn + unat n < 2 ^ 64" using mappable_less [OF assms(1)] assms(2) by simp
  then show a: "unat (vpn + n) = unat vpn + unat n" by (rule unat_add64)
  show b: "unat (count - n) = unat count - unat n" using assms(2) by (rule unat_sub64)
  show "mappable vpn n" "mappable (vpn + n) (count - n)" using assms unfolding mappable_def a b by linarith+
qed

lemma covers_part:
  assumes "mappable vpn count" "unat n \<le> unat count"
  shows "covers vpn count v \<longleftrightarrow> covers vpn n v \<or> covers (vpn + n) (count - n) v"
  using mappable_part [OF assms] assms(2) by (auto simp: covers_def)

text \<open>The pages of a chunk are those of a run of slots of one table.\<close>

lemma covers_nth:
  assumes "covers vpn n v"
  obtains i where "i < unat n" "v = vpn + of_nat i" "unat v = unat vpn + i"
proof -
  define i where "i = unat v - unat vpn"
  have i: "i < unat n" "unat v = unat vpn + i" using assms by (auto simp: covers_def i_def)
  have "v = of_nat (unat vpn + i)" using i(2) by (metis of_nat_unat ucast_id)
  then show thesis using that i by simp
qed

lemma chunk_nth:
  assumes "mappable vpn count" "unat n \<le> unat count" "unat n \<le> 512 - PT_INDEX vpn" "i < unat n"
  shows "page_path (vpn + of_nat i) = page_path vpn" "PT_INDEX (vpn + of_nat i) = PT_INDEX vpn + i" "unat (vpn + of_nat i) = unat vpn + i"
    "covers vpn n (vpn + of_nat i)"
proof -
  have b: "i < 512 - PT_INDEX vpn" "unat vpn + i < 2 ^ 64" using assms(2-4) mappable_less [OF assms(1)] by simp_all
  show "page_path (vpn + of_nat i) = page_path vpn" "PT_INDEX (vpn + of_nat i) = PT_INDEX vpn + i" using chunk_page [OF b] by simp_all
  have "unat (of_nat i :: uint64_t) = i" using b(2) by (intro unat_nat64) simp
  then show u: "unat (vpn + of_nat i) = unat vpn + i" using b(2) unat_add64 [of vpn "of_nat i"] by simp
  show "covers vpn n (vpn + of_nat i)" using u assms(4) by (simp add: covers_def)
qed

lemma chunk_covers:
  assumes "mappable vpn count" "unat n \<le> unat count" "unat n \<le> 512 - PT_INDEX vpn" "canonical w"
  shows "page_path w = page_path vpn \<and> PT_INDEX w \<in> {PT_INDEX vpn..<PT_INDEX vpn + unat n} \<longleftrightarrow> covers vpn n w"
proof
  assume l: "page_path w = page_path vpn \<and> PT_INDEX w \<in> {PT_INDEX vpn..<PT_INDEX vpn + unat n}"
  define i where "i = PT_INDEX w - PT_INDEX vpn"
  have i: "i < unat n" "PT_INDEX w = PT_INDEX vpn + i" using l by (auto simp: i_def)
  note c = chunk_nth [OF assms(1-3) i(1)]
  have "w = vpn + of_nat i"
    using canonical_index_inj [OF assms(4) mappable_canonical [OF mappable_part(3) [OF assms(1,2)] c(4)]] l i c by (simp add: page_path_def)
  then show "covers vpn n w" using c(4) by simp
next
  assume c: "covers vpn n w"
  then obtain i where "i < unat n" "w = vpn + of_nat i" by (rule covers_nth)
  then show "page_path w = page_path vpn \<and> PT_INDEX w \<in> {PT_INDEX vpn..<PT_INDEX vpn + unat n}" using chunk_nth [OF assms(1-3)] by simp
qed

section \<open>The translation of a range changes\<close>

lemma memory_only_trans:
  fixes s s1 s2 :: mmu
  shows "s1 = s\<lparr>phys_mem := phys_mem s1\<rparr> \<Longrightarrow> s2 = s1\<lparr>phys_mem := phys_mem s2\<rparr> \<Longrightarrow> s2 = s\<lparr>phys_mem := phys_mem s2\<rparr>"
  by (cases s; cases s1; cases s2) simp

lemma memory_only_root:
  fixes s s1 :: mmu
  shows "s1 = s\<lparr>phys_mem := phys_mem s1\<rparr> \<Longrightarrow> root_table_pfn s1 = root_table_pfn s"
    "s1 = s\<lparr>phys_mem := phys_mem s1\<rparr> \<Longrightarrow> mm_pmm s1 = mm_pmm s"
  by (cases s; cases s1; simp)+

definition range_becomes :: "nat \<Rightarrow> uint64_t \<Rightarrow> uint64_t \<Rightarrow> (uint64_t \<Rightarrow> StStatus + nat) \<Rightarrow> mmu \<Rightarrow> mmu \<Rightarrow> bool" where
  "range_becomes asp vpn count R s s' \<longleftrightarrow> upper_alike asp s s' \<and> s' = s\<lparr>phys_mem := phys_mem s'\<rparr> \<and>
     (\<forall>v. vpn_to_pfn asp v s' = (if covers vpn count v then R v else vpn_to_pfn asp v s))"

lemma range_becomes_empty: "range_becomes asp vpn 0 R s s"
  by (auto simp: range_becomes_def covers_def upper_alike_def)

lemma range_becomes_trans:
  assumes "range_becomes asp vpn n R s s1" "range_becomes asp (vpn + n) (count - n) R' s1 s2" "mappable vpn count" "unat n \<le> unat count"
    and "\<And>v. covers (vpn + n) (count - n) v \<Longrightarrow> R' v = R v"
  shows "range_becomes asp vpn count R s s2"
proof -
  have "upper_alike asp s s2" using assms(1,2) upper_alike_trans by (auto simp: range_becomes_def)
  moreover have "s2 = s\<lparr>phys_mem := phys_mem s2\<rparr>"
    using assms(1,2) memory_only_trans [of s1 s s2] by (simp add: range_becomes_def)
  ultimately show ?thesis
    using assms(1,2,5) covers_part [OF assms(3,4)] by (auto simp: range_becomes_def)
qed

lemma range_becomes_written:
  assumes "leaves_written asp t {PT_INDEX vpn..<PT_INDEX vpn + unat n} E s s'" "tables_tree asp s" "path_table asp s (page_path vpn) = Some t"
    and "mappable vpn count" "unat n \<le> unat count" "unat n \<le> 512 - PT_INDEX vpn" "n \<noteq> 0"
    and "\<And>v. covers vpn n v \<Longrightarrow> R v = (if flag_set (E (PT_INDEX v)) PTE_P then Inr (pte_frame (E (PT_INDEX v))) else Inl STATUS_PAGE_NOT_PRESENT)"
  shows "range_becomes asp vpn n R s s'"
proof -
  have "covers vpn n vpn" using assms(7) by (simp add: covers_def unat_gt_0)
  then have c: "canonical vpn" by (rule mappable_canonical [OF mappable_part(3) [OF assms(4,5)]])
  have "vpn_to_pfn asp w s' = (if covers vpn n w then R w else vpn_to_pfn asp w s)" for w
    using leaves_written_translate [OF assms(1-3) c, of w] chunk_covers [OF assms(4-6), of w] assms(8) [of w]
      mappable_canonical [OF mappable_part(3) [OF assms(4,5)], of w] by (cases "canonical w") auto
  then show ?thesis using assms(1) by (simp add: range_becomes_def leaves_written_def)
qed

section \<open>Mapping\<close>

lemma leaves_written_refl: "leaves_written asp t {} E s s"
  by (simp add: leaves_written_def upper_alike_def)

lemma map_ptes_written:
  assumes "tables_tree asp s" "path_table asp s q = Some t" "length q = 3" "distinct is"
    and "\<forall>i\<in>set is. \<not> flag_set (phys_mem s t (idx + i)) PTE_P"
    and "\<forall>i\<in>set is. unat (pfn + of_nat i) < 2 ^ 40 \<and> (\<forall>p. path_table asp s p \<noteq> Some (unat (pfn + of_nat i)))"
  shows "\<exists>s'. map_ptes mapflags template pfn t idx is s = (s', STATUS_SUCCESS) \<and>
    leaves_written asp t ((+) idx ` set is) (\<lambda>k. set_pte_base template (pfn + of_nat (k - idx))) s s'"
  using assms
proof (induction "is" arbitrary: s)
  case Nil
  then show ?case by (simp add: leaves_written_refl)
next
  case (Cons i js)
  let ?E = "\<lambda>k. set_pte_base template (pfn + of_nat (k - idx))"
  let ?f = "unat (pfn + of_nat i)"
  let ?s1 = "set_entry t (idx + i) (?E (idx + i)) s"
  define s2 where "s2 = (if flag_set mapflags MF_ZERO_FILL then clear_frame ?f ?s1 else ?s1)"
  have f: "pte_frame (?E (idx + i)) = ?f" "\<And>p. path_table asp s p \<noteq> Some ?f"
    using Cons.prems(6) pte_frame_set_base by simp_all
  have u1: "upper_alike asp s ?s1" by (rule leaf_write [OF Cons.prems(1-3)])
  have "upper_alike asp ?s1 (clear_frame ?f ?s1)" by (rule clear_other) (use f(2) path_table_alike [OF u1] in simp)
  then have u: "upper_alike asp s s2" using upper_alike_trans [OF u1] u1 by (simp add: s2_def)
  have t: "t \<noteq> ?f" using f(2) [of q] Cons.prems(2) by auto
  then have e: "phys_mem s2 t (idx + j) = phys_mem s t (idx + j)" if "j \<in> set js" for j
    using that Cons.prems(4) by (auto simp: s2_def clear_frame_def set_entry_def)
  obtain s' where s': "map_ptes mapflags template pfn t idx js s2 = (s', STATUS_SUCCESS)" "leaves_written asp t ((+) idx ` set js) ?E s2 s'"
    using Cons.IH [of s2] Cons.prems tables_tree_alike [OF u] path_table_alike [OF u] e by auto
  have n: "idx + i \<notin> (+) idx ` set js" using Cons.prems(4) by auto
  have "leaves_written asp t (insert (idx + i) ((+) idx ` set js)) ?E s s'"
    by (rule leaves_written_step [OF Cons.prems(1-3) n, where f = ?f]) (use s'(2) f(2) in \<open>auto simp: s2_def split: if_splits\<close>)
  moreover have "map_ptes mapflags template pfn t idx (i # js) s = (s', STATUS_SUCCESS)"
    using s'(1) Cons.prems(5) f(1) by (cases "flag_set mapflags MF_ZERO_FILL") (simp_all add: s2_def Let_def)
  ultimately show ?case by (simp add: insert_commute)
qed

text \<open>Every entry is alike.\<close>

definition all_alike :: "mmu \<Rightarrow> mmu \<Rightarrow> bool" where
  "all_alike s s' \<longleftrightarrow> s' = s\<lparr>phys_mem := phys_mem s'\<rparr> \<and> (\<forall>f i. alike (phys_mem s' f i) (phys_mem s f i))"

lemma all_alike_user: "all_alike s (let_user mapflags f i s)"
  by (simp add: all_alike_def let_user_def set_entry_def alike_user)

lemma all_alike_trans: "all_alike s s' \<Longrightarrow> all_alike s' s'' \<Longrightarrow> all_alike s s''"
  unfolding all_alike_def alike_def using memory_only_trans [of s' s s''] by simp

lemma all_alike_upper:
  assumes "all_alike s s'"
  shows "upper_alike asp s s'" "vpn_to_pfn asp v s' = vpn_to_pfn asp v s"
proof -
  have "root_table_pfn s' = root_table_pfn s" using assms memory_only_root(1) [of s' s] by (simp add: all_alike_def)
  then show u: "upper_alike asp s s'" using assms by (simp add: upper_alike_def all_alike_def)
  show "vpn_to_pfn asp v s' = vpn_to_pfn asp v s" by (rule translate_alike [OF u]) (use assms in \<open>simp add: all_alike_def\<close>)
qed

lemma next_table_present:
  assumes "path_table asp s p = Some f" "path_table asp s (i # p) = Some t" "p \<noteq> []"
  shows "next_table mapflags f i alloc_pfn s = Returned (let_user mapflags f i s, Inr t, alloc_pfn)"
  using assms by (auto simp: next_table_def split: if_splits)

lemma descend_present:
  assumes "path_table asp s (page_path v) = Some t"
  shows "\<exists>s'. descend (map_pml4 asp mapflags v alloc_pfn) mapflags v s = Returned (s', Inr t, alloc_pfn) \<and> all_alike s s'"
proof -
  let ?r = "root_table_pfn s asp"
  obtain pdpt pd where p: "path_table asp s [PML4_INDEX v] = Some pdpt" "path_table asp s [PDPT_INDEX v, PML4_INDEX v] = Some pd"
    using assms path_table_suffix unfolding page_path_def by (metis not_Some_eq)
  let ?s1 = "let_user mapflags ?r (PML4_INDEX v) s"
  let ?s2 = "let_user mapflags pdpt (PDPT_INDEX v) ?s1"
  let ?s3 = "let_user mapflags pd (PD_INDEX v) ?s2"
  have a1: "all_alike s ?s1" by (rule all_alike_user)
  have a2: "all_alike s ?s2" by (rule all_alike_trans [OF a1 all_alike_user])
  have a3: "all_alike s ?s3" by (rule all_alike_trans [OF a2 all_alike_user])
  note t1 = path_table_alike [OF all_alike_upper(1) [OF a1]]
  note t2 = path_table_alike [OF all_alike_upper(1) [OF a2]]
  have "map_pml4 asp mapflags v alloc_pfn s = Returned (?s1, Inr pdpt, alloc_pfn)"
    using p(1) by (auto simp: map_pml4_def Let_def split: if_splits)
  moreover have "next_table mapflags pdpt (PDPT_INDEX v) alloc_pfn ?s1 = Returned (?s2, Inr pd, alloc_pfn)"
    by (rule next_table_present [of asp _ "[PML4_INDEX v]"]) (simp_all only: t1 p, simp)
  moreover have "next_table mapflags pd (PD_INDEX v) alloc_pfn ?s2 = Returned (?s3, Inr t, alloc_pfn)"
    by (rule next_table_present [of asp _ "[PDPT_INDEX v, PML4_INDEX v]"]) (simp_all only: t2 p(2) assms [unfolded page_path_def], simp)
  ultimately show ?thesis using a3 by (simp add: descend_def)
qed

text \<open>The frames \<open>pfn\<close>, ... can be mapped to the pages \<open>vpn\<close>, ...: the last tables of the pages exist, no page is mapped,
  and no frame is a table of the address space.\<close>

definition map_ready :: "nat \<Rightarrow> uint64_t \<Rightarrow> uint64_t \<Rightarrow> uint64_t \<Rightarrow> mmu \<Rightarrow> bool" where
  "map_ready asp pfn vpn count s \<longleftrightarrow> tables_tree asp s \<and> mappable vpn count \<and> unat pfn + unat count \<le> 2 ^ 40 \<and>
     (\<forall>v. covers vpn count v \<longrightarrow> path_table asp s (page_path v) \<noteq> None \<and> vpn_to_pfn asp v s = Inl STATUS_PAGE_NOT_PRESENT) \<and>
     (\<forall>f p. unat pfn \<le> f \<and> f < unat pfn + unat count \<longrightarrow> path_table asp s p \<noteq> Some f)"

definition mapped_to :: "uint64_t \<Rightarrow> uint64_t \<Rightarrow> uint64_t \<Rightarrow> StStatus + nat" where
  "mapped_to pfn vpn v = Inr (unat pfn + (unat v - unat vpn))"

lemma map_chunk:
  assumes "map_ready asp pfn vpn count s" "count \<noteq> 0" "path_table asp s (page_path vpn) = Some t"
  shows "\<exists>s'. map_ptes mapflags (make_pte_template nx mapflags) pfn t (PT_INDEX vpn) [0..<unat (chunk_size vpn count)] s = (s', STATUS_SUCCESS) \<and>
    range_becomes asp vpn (chunk_size vpn count) (mapped_to pfn vpn) s s'"
proof -
  let ?n = "chunk_size vpn count"
  let ?E = "\<lambda>k. set_pte_base (make_pte_template nx mapflags) (pfn + of_nat (k - PT_INDEX vpn))"
  note n = chunk_size_bounds [OF assms(2), of vpn]
  have r: "tables_tree asp s" "mappable vpn count" "unat pfn + unat count \<le> 2 ^ 40"
    using assms(1) by (simp_all add: map_ready_def)
  have lim: "unat ?n \<le> 512 - PT_INDEX vpn" "?n \<noteq> 0" using n(1,3) by (simp, metis less_irrefl unat_gt_0)
  note nth = chunk_nth [OF r(2) n(2) lim(1)]
  have canon: "canonical v" if "covers vpn ?n v" for v using mappable_canonical [OF mappable_part(3) [OF r(2) n(2)] that] .
  have frame: "unat (pfn + of_nat i) = unat pfn + i" if "i < unat ?n" for i
  proof -
    have i: "unat (of_nat i :: uint64_t) = i" using that unat_less64 [of ?n] by (intro unat_nat64) simp
    have "unat pfn + i < 2 ^ 64" using r(3) that n(2) by simp
    then show ?thesis using unat_add64 [of pfn "of_nat i"] i by simp
  qed
  have free: "\<not> flag_set (phys_mem s t (PT_INDEX vpn + i)) PTE_P" if i: "i < unat ?n" for i
  proof -
    have "covers vpn count (vpn + of_nat i)" using nth(4) [OF i] n(2) by (simp add: covers_def)
    then have "vpn_to_pfn asp (vpn + of_nat i) s = Inl STATUS_PAGE_NOT_PRESENT" using assms(1) by (simp add: map_ready_def)
    then show ?thesis using translate_last [OF canon [OF nth(4) [OF i]], of asp s t] assms(3) nth(1,2) [OF i] by (auto split: if_splits)
  qed
  have fit: "unat (pfn + of_nat i) < 2 ^ 40 \<and> (\<forall>p. path_table asp s p \<noteq> Some (unat (pfn + of_nat i)))" if "i < unat ?n" for i
    using frame [OF that] that n(2) r(3) assms(1) unfolding map_ready_def by auto
  obtain s' where s': "map_ptes mapflags (make_pte_template nx mapflags) pfn t (PT_INDEX vpn) [0..<unat ?n] s = (s', STATUS_SUCCESS)"
      "leaves_written asp t ((+) (PT_INDEX vpn) ` set [0..<unat ?n]) ?E s s'"
    using map_ptes_written [OF r(1) assms(3) length_page_path, of "[0..<unat ?n]" "PT_INDEX vpn" pfn mapflags "make_pte_template nx mapflags"]
      free fit by (auto simp del: map_ptes.simps)
  have K: "(+) (PT_INDEX vpn) ` set [0..<unat ?n] = {PT_INDEX vpn..<PT_INDEX vpn + unat ?n}" by (simp add: image_add_atLeastLessThan add.commute)
  have "range_becomes asp vpn ?n (mapped_to pfn vpn) s s'"
  proof (rule range_becomes_written [OF s'(2) [unfolded K] r(1) assms(3) r(2) n(2) lim])
    fix v
    assume "covers vpn ?n v"
    then obtain i where i: "i < unat ?n" "v = vpn + of_nat i" "unat v = unat vpn + i" by (rule covers_nth)
    have f: "unat (pfn + of_nat i) < 2 ^ 40" using frame [OF i(1)] i(1) n(2) r(3) by simp
    have "?E (PT_INDEX v) = set_pte_base (make_pte_template nx mapflags) (pfn + of_nat i)" using nth(2) [OF i(1)] i(2) by simp
    moreover have "flag_set (set_pte_base (make_pte_template nx mapflags) (pfn + of_nat i)) PTE_P"
      by (simp add: pte_flags set_pte_base_bit [OF f] template_bit)
    ultimately show "mapped_to pfn vpn v = (if flag_set (?E (PT_INDEX v)) PTE_P then Inr (pte_frame (?E (PT_INDEX v))) else Inl STATUS_PAGE_NOT_PRESENT)"
      using pte_frame_set_base [OF f] frame [OF i(1)] i(3) by (simp add: mapped_to_def)
  qed
  then show ?thesis using s'(1) by blast
qed

lemma map_ready_rest:
  assumes "map_ready asp pfn vpn count s" "unat n \<le> unat count" "range_becomes asp vpn n R s s'"
  shows "map_ready asp (pfn + n) (vpn + n) (count - n) s'"
proof -
  have r: "tables_tree asp s" "mappable vpn count" "unat pfn + unat count \<le> 2 ^ 40" using assms(1) by (simp_all add: map_ready_def)
  note m = mappable_part [OF r(2) assms(2)]
  have u: "upper_alike asp s s'" using assms(3) by (simp add: range_becomes_def)
  have f: "unat (pfn + n) = unat pfn + unat n" using r(3) assms(2) by (intro unat_add64) simp
  have c: "covers vpn count v \<and> \<not> covers vpn n v" if "covers (vpn + n) (count - n) v" for v
    using that m(1,2) assms(2) by (auto simp: covers_def)
  show ?thesis
    using assms(1,3) c m r assms(2) f tables_tree_alike [OF u] path_table_alike [OF u] by (auto simp: map_ready_def range_becomes_def)
qed

lemma map_loop_translates:
  "map_ready asp pfn vpn count s \<Longrightarrow>
    \<exists>s'. map_loop asp mapflags (make_pte_template nx mapflags) alloc_pfn pfn vpn count s = Returned (s', STATUS_SUCCESS, vpn + count) \<and>
      range_becomes asp vpn count (mapped_to pfn vpn) s s'"
proof (induction count arbitrary: pfn vpn s rule: measure_induct_rule [of unat])
  case (less count)
  note step = map_loop.simps [of asp mapflags "make_pte_template nx mapflags" alloc_pfn pfn vpn count s]
  show ?case
  proof (cases "count = 0")
    case True
    then show ?thesis using step range_becomes_empty by simp
  next
    case False
    let ?n = "chunk_size vpn count"
    note n = chunk_size_bounds [OF False, of vpn]
    have m: "mappable vpn count" using less.prems by (simp add: map_ready_def)
    have "covers vpn count vpn" using False by (simp add: covers_def unat_gt_0)
    then obtain t where t: "path_table asp s (page_path vpn) = Some t" using less.prems by (auto simp: map_ready_def)
    obtain s1 where s1: "descend (map_pml4 asp mapflags vpn alloc_pfn) mapflags vpn s = Returned (s1, Inr t, alloc_pfn)" "all_alike s s1"
      using descend_present [OF t] by blast
    note u1 = all_alike_upper [OF s1(2)]
    have r1: "map_ready asp pfn vpn count s1"
      using less.prems tables_tree_alike [OF u1(1)] path_table_alike [OF u1(1)] u1(2) by (simp add: map_ready_def)
    have t1: "path_table asp s1 (page_path vpn) = Some t" using t path_table_alike [OF u1(1)] by simp
    obtain s2 where s2: "map_ptes mapflags (make_pte_template nx mapflags) pfn t (PT_INDEX vpn) [0..<unat ?n] s1 = (s2, STATUS_SUCCESS)"
        "range_becomes asp vpn ?n (mapped_to pfn vpn) s1 s2"
      using map_chunk [OF r1 False t1] by blast
    have "range_becomes asp vpn 0 (mapped_to pfn vpn) s s1"
      using s1(2) u1 by (auto simp: range_becomes_def all_alike_def covers_def)
    then have b2: "range_becomes asp vpn ?n (mapped_to pfn vpn) s s2"
      using range_becomes_trans [of asp vpn 0 _ s s1 ?n _ s2] s2(2) mappable_part(3) [OF m n(2)] by simp
    have r2: "map_ready asp (pfn + ?n) (vpn + ?n) (count - ?n) s2" by (rule map_ready_rest [OF less.prems n(2) b2])
    obtain s3 where s3: "map_loop asp mapflags (make_pte_template nx mapflags) alloc_pfn (pfn + ?n) (vpn + ?n) (count - ?n) s2 =
          Returned (s3, STATUS_SUCCESS, vpn + ?n + (count - ?n))"
        "range_becomes asp (vpn + ?n) (count - ?n) (mapped_to (pfn + ?n) (vpn + ?n)) s2 s3"
      using less.IH [OF chunk_decreases [OF False] r2] by blast
    have "range_becomes asp vpn count (mapped_to pfn vpn) s s3"
    proof (rule range_becomes_trans [OF b2 s3(2) m n(2)])
      fix v
      assume "covers (vpn + ?n) (count - ?n) v"
      moreover have "unat (pfn + ?n) = unat pfn + unat ?n"
        using less.prems n(2) by (intro unat_add64) (simp add: map_ready_def)
      ultimately show "mapped_to (pfn + ?n) (vpn + ?n) v = mapped_to pfn vpn v"
        using mappable_part(1) [OF m n(2)] by (simp add: mapped_to_def covers_def)
    qed
    moreover have "vpn + ?n + (count - ?n) = vpn + count" by simp
    ultimately show ?thesis using step False s1(1) s2(1) s3(1) by (simp add: Let_def)
  qed
qed

section \<open>Locks and caches\<close>

definition set_depth :: "uint32_t \<Rightarrow> mmu \<Rightarrow> mmu" where
  "set_depth d s = s\<lparr>mm_pmm := (mm_pmm s)\<lparr>preemption_depth := d\<rparr>\<rparr>"

lemma mmu_lock_returns: "preemption_depth (mm_pmm s) \<noteq> 0xFFFFFFFF \<Longrightarrow> mmu_lock s = Returned (set_depth (preemption_depth (mm_pmm s) + 1) s)"
  by (simp add: mmu_lock_def StThread_LockPreemption_def set_depth_def)

lemma mmu_unlock_returns:
  assumes "d \<noteq> 0xFFFFFFFF" "preemption_depth (mm_pmm s) = d + 1"
  shows "mmu_unlock s = Returned (set_depth d s)"
proof -
  have "StThread_UnlockPreemption (d + 1) = Returned d" by (rule lock_unlock) (simp add: StThread_LockPreemption_def assms(1))
  then show ?thesis by (simp add: mmu_unlock_def assms(2) set_depth_def)
qed

lemma same_memory:
  assumes "phys_mem s' = phys_mem s" "root_table_pfn s' = root_table_pfn s"
  shows "path_table asp s' p = path_table asp s p" "vpn_to_pfn asp v s' = vpn_to_pfn asp v s" "tables_tree asp s' = tables_tree asp s"
proof -
  have u: "upper_alike asp s s'" using assms by (simp add: upper_alike_def)
  show "path_table asp s' p = path_table asp s p" "tables_tree asp s' = tables_tree asp s"
    using path_table_alike [OF u] tables_tree_alike [OF u] by simp_all
  show "vpn_to_pfn asp v s' = vpn_to_pfn asp v s" by (rule translate_alike [OF u]) (simp add: assms)
qed

lemma set_depth_fields [simp]:
  "phys_mem (set_depth d s) = phys_mem s" "root_table_pfn (set_depth d s) = root_table_pfn s" "has_nx (set_depth d s) = has_nx s"
  "preemption_depth (mm_pmm (set_depth d s)) = d" "set_depth d (set_depth d' s) = set_depth d s"
  "set_depth (preemption_depth (mm_pmm s)) s = s" "set_depth d (s\<lparr>phys_mem := M\<rparr>) = (set_depth d s)\<lparr>phys_mem := M\<rparr>"
  by (simp_all add: set_depth_def)

lemma release_quarantined_returns:
  assumes "preemption_depth (mm_pmm s) \<noteq> 0xFFFFFFFF"
  shows "\<exists>s'. release_quarantined_page_table_frames s = Returned s' \<and> phys_mem s' = phys_mem s \<and> root_table_pfn s' = root_table_pfn s \<and>
    mm_pmm s' = mm_pmm s \<and> page_table_frame_quarantine s' = []"
proof -
  let ?d = "preemption_depth (mm_pmm s)"
  have l: "StThread_LockPreemption ?d = Returned (?d + 1)" using assms by (simp add: StThread_LockPreemption_def)
  show ?thesis
    using lock_unlock [OF l] l by (auto simp: release_quarantined_page_table_frames_def mmu_lock_def mmu_unlock_def Let_def)
qed

text \<open>The boundary checks.\<close>

lemma mappable_accepted:
  assumes "mappable vpn count" "count \<noteq> 0"
  shows "\<not> vpn + count > VIRT_PAGE_MAX" "\<not> vpn > VIRT_PAGE_MAX" "\<not> (PML4_HOLE_START \<le> vpn \<and> vpn \<le> PML4_HOLE_END)"
    "\<not> (PML4_HOLE_START \<le> vpn + count \<and> vpn + count - 1 \<le> PML4_HOLE_END)"
    "vpn + count \<ge> MEMMAP_GLOBAL_VPN_BASE \<longleftrightarrow> vpn \<ge> MEMMAP_GLOBAL_VPN_BASE"
proof -
  have c: "0 < unat count" using assms(2) by (simp add: unat_gt_0)
  have u: "unat (vpn + count) = unat vpn + unat count" using mappable_less [OF assms(1)] by (intro unat_add64) simp
  have d: "unat (vpn + count - 1) = unat vpn + unat count - 1" using u c unat_sub64 [of 1 "vpn + count"] by (simp add: word_nat)
  have b: "MEMMAP_GLOBAL_VPN_BASE = 0x8000000000000" by (simp add: MEMMAP_GLOBAL_VPN_BASE_def)
  note defs = word_le_nat_alt word_less_nat_alt u d b VIRT_PAGE_MAX_def PML4_HOLE_START_def PML4_HOLE_END_def
  show "\<not> vpn + count > VIRT_PAGE_MAX" "\<not> vpn > VIRT_PAGE_MAX" "\<not> (PML4_HOLE_START \<le> vpn \<and> vpn \<le> PML4_HOLE_END)"
    "\<not> (PML4_HOLE_START \<le> vpn + count \<and> vpn + count - 1 \<le> PML4_HOLE_END)"
    "vpn + count \<ge> MEMMAP_GLOBAL_VPN_BASE \<longleftrightarrow> vpn \<ge> MEMMAP_GLOBAL_VPN_BASE"
    using assms(1) c unfolding mappable_def defs by auto
qed

section \<open>Unmapping\<close>

lemma unmap_ptes_written:
  assumes "tables_tree asp s" "path_table asp s q = Some t" "length q = 3" "distinct ks" "\<forall>k\<in>set ks. flag_set (phys_mem s t k) PTE_P"
  shows "\<exists>s'. unmap_ptes t ks s = Returned s' \<and> leaves_written asp t (set ks) (\<lambda>_. 0) s s'"
  using assms
proof (induction ks arbitrary: s)
  case Nil
  then show ?case by (simp add: leaves_written_refl)
next
  case (Cons k ks)
  let ?s1 = "set_entry t k 0 s"
  have u: "upper_alike asp s ?s1" by (rule leaf_write [OF Cons.prems(1-3)])
  have "\<forall>j\<in>set ks. flag_set (phys_mem ?s1 t j) PTE_P" using Cons.prems(4,5) by (auto simp: set_entry_def)
  then obtain s' where s': "unmap_ptes t ks ?s1 = Returned s'" "leaves_written asp t (set ks) (\<lambda>_. 0) ?s1 s'"
    using Cons.IH [of ?s1] Cons.prems(1-4) tables_tree_alike [OF u] path_table_alike [OF u] by auto
  have "leaves_written asp t (insert k (set ks)) (\<lambda>_. 0) s s'"
    by (rule leaves_written_step [OF Cons.prems(1-3)]) (use Cons.prems(4) s'(2) in auto)
  then show ?case using s'(1) Cons.prems(5) by simp
qed

text \<open>Every page of the range is mapped by an entry of a last table.\<close>

definition unmap_ready :: "nat \<Rightarrow> uint64_t \<Rightarrow> uint64_t \<Rightarrow> mmu \<Rightarrow> bool" where
  "unmap_ready asp vpn count s \<longleftrightarrow> tables_tree asp s \<and> mappable vpn count \<and>
     (\<forall>v. covers vpn count v \<longrightarrow> path_table asp s (page_path v) \<noteq> None \<and> (\<exists>f. vpn_to_pfn asp v s = Inr f))"

lemma unmap_path_present:
  assumes "path_table asp s (page_path v) = Some t"
  shows "unmap_path asp v s = Returned t"
  using assms by (auto simp: unmap_path_def page_path_def Let_def split: option.splits if_splits)

lemma unmap_chunk:
  assumes "unmap_ready asp vpn count s" "count \<noteq> 0" "path_table asp s (page_path vpn) = Some t"
  shows "\<exists>s'. unmap_ptes t [PT_INDEX vpn..<PT_INDEX vpn + unat (chunk_size vpn count)] s = Returned s' \<and>
    range_becomes asp vpn (chunk_size vpn count) (\<lambda>_. Inl STATUS_PAGE_NOT_PRESENT) s s'"
proof -
  let ?n = "chunk_size vpn count"
  let ?K = "[PT_INDEX vpn..<PT_INDEX vpn + unat ?n]"
  note n = chunk_size_bounds [OF assms(2), of vpn]
  have r: "tables_tree asp s" "mappable vpn count" using assms(1) by (simp_all add: unmap_ready_def)
  have lim: "unat ?n \<le> 512 - PT_INDEX vpn" "?n \<noteq> 0" using n(1,3) by (simp, metis less_irrefl unat_gt_0)
  note nth = chunk_nth [OF r(2) n(2) lim(1)]
  have "flag_set (phys_mem s t k) PTE_P" if "k \<in> set ?K" for k
  proof -
    define i where "i = k - PT_INDEX vpn"
    have i: "i < unat ?n" "k = PT_INDEX vpn + i" using that by (auto simp: i_def)
    have c: "covers vpn count (vpn + of_nat i)" using nth(4) [OF i(1)] n(2) by (simp add: covers_def)
    then obtain f where "vpn_to_pfn asp (vpn + of_nat i) s = Inr f" using assms(1) by (auto simp: unmap_ready_def)
    then show ?thesis
      using translate_last [OF mappable_canonical [OF r(2) c], of asp s t] assms(3) nth(1,2) [OF i(1)] i(2) by (auto split: if_splits)
  qed
  then obtain s' where s': "unmap_ptes t ?K s = Returned s'" "leaves_written asp t {PT_INDEX vpn..<PT_INDEX vpn + unat ?n} (\<lambda>_. 0) s s'"
    using unmap_ptes_written [OF r(1) assms(3) length_page_path, of ?K] by (auto simp del: unmap_ptes.simps)
  have "range_becomes asp vpn ?n (\<lambda>_. Inl STATUS_PAGE_NOT_PRESENT) s s'"
    by (rule range_becomes_written [OF s'(2) r(1) assms(3) r(2) n(2) lim]) (simp add: flag_set_def)
  then show ?thesis using s'(1) by blast
qed

lemma unmap_loop_translates:
  "unmap_ready asp vpn count s \<Longrightarrow>
    \<exists>s'. unmap_loop asp vpn count s = Returned (s', vpn + count) \<and> range_becomes asp vpn count (\<lambda>_. Inl STATUS_PAGE_NOT_PRESENT) s s'"
proof (induction count arbitrary: vpn s rule: measure_induct_rule [of unat])
  case (less count)
  note step = unmap_loop.simps [of asp vpn count s]
  show ?case
  proof (cases "count = 0")
    case True
    then show ?thesis using step range_becomes_empty by simp
  next
    case False
    let ?n = "chunk_size vpn count"
    let ?R = "\<lambda>_. Inl STATUS_PAGE_NOT_PRESENT"
    note n = chunk_size_bounds [OF False, of vpn]
    have m: "mappable vpn count" using less.prems by (simp add: unmap_ready_def)
    have "covers vpn count vpn" using False by (simp add: covers_def unat_gt_0)
    then obtain t where t: "path_table asp s (page_path vpn) = Some t" using less.prems by (auto simp: unmap_ready_def)
    obtain s1 where s1: "unmap_ptes t [PT_INDEX vpn..<PT_INDEX vpn + unat ?n] s = Returned s1" "range_becomes asp vpn ?n ?R s s1"
      using unmap_chunk [OF less.prems False t] by blast
    have u: "upper_alike asp s s1" using s1(2) by (simp add: range_becomes_def)
    have "covers vpn count v \<and> \<not> covers vpn ?n v" if "covers (vpn + ?n) (count - ?n) v" for v
      using that mappable_part(1,2) [OF m n(2)] n(2) by (auto simp: covers_def)
    then have "unmap_ready asp (vpn + ?n) (count - ?n) s1"
      using less.prems s1(2) tables_tree_alike [OF u] path_table_alike [OF u] mappable_part(4) [OF m n(2)]
      by (auto simp: unmap_ready_def range_becomes_def)
    then obtain s2 where s2: "unmap_loop asp (vpn + ?n) (count - ?n) s1 = Returned (s2, vpn + ?n + (count - ?n))"
        "range_becomes asp (vpn + ?n) (count - ?n) ?R s1 s2"
      using less.IH [OF chunk_decreases [OF False]] by blast
    have "range_becomes asp vpn count ?R s s2" by (rule range_becomes_trans [OF s1(2) s2(2) m n(2)]) simp
    then show ?thesis using step False unmap_path_present [OF t] s1(1) s2(1) by (simp add: Let_def)
  qed
qed

section \<open>Whole operations\<close>

lemma map_memory_maps:
  assumes "map_ready asp pfn vpn count s" "count \<noteq> 0" "preemption_depth (mm_pmm s) \<noteq> 0xFFFFFFFF"
  shows "\<exists>s'. map_memory asp pfn vpn count mapflags s = Returned (s', STATUS_SUCCESS) \<and> range_becomes asp vpn count (mapped_to pfn vpn) s s'"
proof -
  let ?d = "preemption_depth (mm_pmm s)"
  have m: "mappable vpn count" using assms(1) by (simp add: map_ready_def)
  note a = mappable_accepted [OF m assms(2)]
  have locked: "map_ready asp pfn vpn count (set_depth (?d + 1) s)"
    using assms(1) same_memory [of "set_depth (?d + 1) s" s] by (simp add: map_ready_def)
  show ?thesis
  proof (cases "vpn \<ge> MEMMAP_GLOBAL_VPN_BASE")
    case True
    obtain s1 where s1: "map_loop asp mapflags (make_pte_template (has_nx s) mapflags) INVALID_PFN pfn vpn count (set_depth (?d + 1) s) = Returned (s1, STATUS_SUCCESS, vpn + count)"
        "range_becomes asp vpn count (mapped_to pfn vpn) (set_depth (?d + 1) s) s1"
      using map_loop_translates [OF locked] by blast
    have e: "s1 = (set_depth (?d + 1) s)\<lparr>phys_mem := phys_mem s1\<rparr>" using s1(2) by (simp add: range_becomes_def)
    have d: "preemption_depth (mm_pmm s1) = ?d + 1" by (subst e) simp
    let ?s' = "set_depth ?d s1"
    have e': "?s' = s\<lparr>phys_mem := phys_mem ?s'\<rparr>" by (subst e) simp
    have "range_becomes asp vpn count (mapped_to pfn vpn) s ?s'"
      using s1(2) e' same_memory [of "set_depth (?d + 1) s" s] same_memory [of ?s' s1] by (simp add: range_becomes_def upper_alike_def)
    moreover have "map_memory asp pfn vpn count mapflags s = Returned (?s', STATUS_SUCCESS)"
      using a True mmu_lock_returns [OF assms(3)] s1(1) mmu_unlock_returns [OF assms(3) d] by (simp add: map_memory_def)
    ultimately show ?thesis by blast
  next
    case False
    obtain s1 where "map_loop asp mapflags (make_pte_template (has_nx s) mapflags) INVALID_PFN pfn vpn count s = Returned (s1, STATUS_SUCCESS, vpn + count)"
        "range_becomes asp vpn count (mapped_to pfn vpn) s s1"
      using map_loop_translates [OF assms(1)] by blast
    then show ?thesis using a False by (simp add: map_memory_def)
  qed
qed

text \<open>What an unmapping changes besides the entries: the caches of table frames.\<close>

definition unmapped_range :: "nat \<Rightarrow> uint64_t \<Rightarrow> uint64_t \<Rightarrow> mmu \<Rightarrow> mmu \<Rightarrow> bool" where
  "unmapped_range asp vpn count s s' \<longleftrightarrow> tables_tree asp s' \<and> mm_pmm s' = mm_pmm s \<and>
     (\<forall>v. vpn_to_pfn asp v s' = (if covers vpn count v then Inl STATUS_PAGE_NOT_PRESENT else vpn_to_pfn asp v s))"

lemma unmap_memory_unmaps:
  assumes "unmap_ready asp vpn count s" "count \<noteq> 0" "preemption_depth (mm_pmm s) < 0xFFFFFFFE"
  shows "\<exists>s'. unmap_memory asp vpn count s = Returned s' \<and> unmapped_range asp vpn count s s'"
proof -
  let ?d = "preemption_depth (mm_pmm s)"
  let ?g = "vpn \<ge> MEMMAP_GLOBAL_VPN_BASE"
  have m: "mappable vpn count" "tables_tree asp s" using assms(1) by (simp_all add: unmap_ready_def)
  note a = mappable_accepted [OF m(1) assms(2)]
  have d: "?d \<noteq> 0xFFFFFFFF" "?d + 1 \<noteq> 0xFFFFFFFF"
  proof -
    show "?d \<noteq> 0xFFFFFFFF" using assms(3) by (auto simp: word_less_nat_alt)
    show "?d + 1 \<noteq> 0xFFFFFFFF"
    proof
      assume "?d + 1 = 0xFFFFFFFF"
      then have "?d = 0xFFFFFFFF - 1" by (simp add: eq_diff_eq)
      then show False using assms(3) by simp
    qed
  qed
  define s0 where "s0 = (if ?g then set_depth (?d + 1) s else s)"
  have s0: "(if ?g then mmu_lock s else Returned s) = Returned s0" using mmu_lock_returns [OF d(1)] by (simp add: s0_def)
  have mem0: "phys_mem s0 = phys_mem s" "root_table_pfn s0 = root_table_pfn s" by (simp_all add: s0_def)
  have r0: "unmap_ready asp vpn count s0" using assms(1) same_memory [OF mem0] by (simp add: unmap_ready_def)
  obtain s1 where s1: "unmap_loop asp vpn count s0 = Returned (s1, vpn + count)" "range_becomes asp vpn count (\<lambda>_. Inl STATUS_PAGE_NOT_PRESENT) s0 s1"
    using unmap_loop_translates [OF r0] by blast
  have e1: "s1 = s0\<lparr>phys_mem := phys_mem s1\<rparr>" and u1: "upper_alike asp s0 s1" using s1(2) by (simp_all add: range_becomes_def)
  have p1: "mm_pmm s1 = mm_pmm s0" by (subst e1) simp
  have d1: "preemption_depth (mm_pmm s1) \<noteq> 0xFFFFFFFF" using d p1 by (simp add: s0_def)
  obtain s2 where s2: "(if has_invlpg s \<and> count < 16 then Returned s1 else release_quarantined_page_table_frames s1) = Returned s2"
      "phys_mem s2 = phys_mem s1" "root_table_pfn s2 = root_table_pfn s1" "mm_pmm s2 = mm_pmm s1"
    using release_quarantined_returns [OF d1] by (cases "has_invlpg s \<and> count < 16") auto
  define s3 where "s3 = (if ?g then set_depth ?d s2 else s2)"
  have "(if vpn + count \<ge> MEMMAP_GLOBAL_VPN_BASE then mmu_unlock s2 else Returned s2) = Returned s3"
    using a(5) mmu_unlock_returns [OF d(1), of s2] s2(4) p1 by (simp add: s3_def s0_def)
  then have "unmap_memory asp vpn count s = Returned s3"
    using a(2-4) s0 s1(1) s2(1) by (auto simp: unmap_memory_def)
  moreover have mem3: "phys_mem s3 = phys_mem s1" "root_table_pfn s3 = root_table_pfn s1" using s2(2,3) by (simp_all add: s3_def)
  have "unmapped_range asp vpn count s s3"
    unfolding unmapped_range_def
  proof (intro conjI allI)
    show "tables_tree asp s3" using same_memory(3) [OF mem3] tables_tree_alike [OF u1] same_memory(3) [OF mem0] m(2) by simp
    show "mm_pmm s3 = mm_pmm s" using s2(4) p1 by (simp add: s3_def s0_def set_depth_def)
    show "vpn_to_pfn asp v s3 = (if covers vpn count v then Inl STATUS_PAGE_NOT_PRESENT else vpn_to_pfn asp v s)" for v
      using s1(2) same_memory(2) [OF mem3] same_memory(2) [OF mem0] by (simp add: range_becomes_def)
  qed
  ultimately show ?thesis by blast
qed

section \<open>Properties\<close>


text \<open>Tables for the first 512 pages: frame 1 is the root, the frames 2, 3 and 4 are below it.\<close>

definition tree_mmu :: mmu where
  "tree_mmu = \<lparr>mm_pmm = boot_state,
     phys_mem = (\<lambda>f i. if i = 0 \<and> 1 \<le> f \<and> f \<le> 3 then set_pte_base PTE_P (of_nat (f + 1)) else 0),
     root_table_pfn = (\<lambda>_. 1), page_table_frame_cache = [], page_table_frame_cache_pages = 0,
     page_table_frame_quarantine = [], page_table_frame_quarantine_pages = 0, cr3 = 0, current_asp = 0, has_nx = True, has_invlpg = True\<rparr>"

lemma tree_mmu_entry:
  "1 \<le> f \<Longrightarrow> f \<le> 3 \<Longrightarrow> flag_set (phys_mem tree_mmu f 0) PTE_P \<and> \<not> flag_set (phys_mem tree_mmu f 0) PTE_PS \<and> pte_frame (phys_mem tree_mmu f 0) = f + 1"
  "i \<noteq> 0 \<or> \<not> (1 \<le> f \<and> f \<le> 3) \<Longrightarrow> phys_mem tree_mmu f i = 0"
proof -
  assume f: "1 \<le> f" "f \<le> 3"
  have u: "unat (of_nat (f + 1) :: uint64_t) = f + 1" using f(2) by (intro unat_nat64) simp
  then have l: "unat (of_nat (f + 1) :: uint64_t) < 2 ^ 40" using f(2) by simp
  have e: "phys_mem tree_mmu f 0 = set_pte_base PTE_P (of_nat (f + 1))" using f by (simp add: tree_mmu_def)
  have "bit PTE_P 0" "\<not> bit PTE_P 7" unfolding PTE_P_def bit_push_bit_iff bit_1_iff by simp_all
  then show "flag_set (phys_mem tree_mmu f 0) PTE_P \<and> \<not> flag_set (phys_mem tree_mmu f 0) PTE_PS \<and> pte_frame (phys_mem tree_mmu f 0) = f + 1"
    unfolding e pte_flags set_pte_base_bit [OF l] pte_frame_set_base [OF l] u by simp
qed (auto simp: tree_mmu_def)

lemma tree_mmu_tables: "path_table asp tree_mmu p = (if length p \<le> 3 \<and> set p \<subseteq> {0} then Some (length p + 1) else None)"
proof (induction p)
  case Nil
  then show ?case by (simp add: tree_mmu_def)
next
  case (Cons i p)
  show ?case
  proof (cases "length p < 3 \<and> set p \<subseteq> {0}")
    case True
    then show ?thesis
      using Cons.IH tree_mmu_entry(1) [of "length p + 1"] tree_mmu_entry(2) [of i "length p + 1"] by (cases "i = 0") (auto simp: flag_set_def)
  next
    case False
    then show ?thesis using Cons.IH by (auto split: option.split)
  qed
qed

lemma tree_mmu_ready: "map_ready asp 100 16 3 tree_mmu"
proof -
  have p: "PML4_INDEX v = 0" "PDPT_INDEX v = 0" "PD_INDEX v = 0" "canonical v" if "covers 16 3 v" for v
    using that by (auto simp: covers_def index_arith canonical_nat)
  have "p = q" if "length p = length q" "set p \<subseteq> {0}" "set q \<subseteq> {0}" for p q :: "nat list"
    using that by (metis replicate_eqI singletonD subsetD)
  then have t: "tables_tree asp tree_mmu" by (auto simp: tables_tree_def tree_mmu_tables simp del: path_table.simps split: if_splits)
  have "path_table asp tree_mmu (page_path v) = Some 4" if "covers 16 3 v" for v
    using p [OF that] by (simp add: tree_mmu_tables page_path_def del: path_table.simps)
  moreover have "phys_mem tree_mmu 4 i = 0" for i by (simp add: tree_mmu_entry(2))
  ultimately have "vpn_to_pfn asp v tree_mmu = Inl STATUS_PAGE_NOT_PRESENT \<and> path_table asp tree_mmu (page_path v) \<noteq> None" if "covers 16 3 v" for v
    using translate_last [OF p(4) [OF that], of asp tree_mmu 4] that by (simp add: flag_set_def)
  then show ?thesis using t by (auto simp: map_ready_def mappable_def tree_mmu_tables simp del: path_table.simps)
qed

lemma tree_mmu_depth: "preemption_depth (mm_pmm tree_mmu) = 0" by (simp add: tree_mmu_def boot_state_def)


text \<open>C9: Unmapping pages takes away the translation of exactly these pages. When every page of the range is mapped by a
  last table it returns, none of them is present afterwards, and every other page is translated as before.
  The frame allocator is untouched.\<close>

theorem paging_unmap_exact:
  assumes "unmap_ready asp vpn count s" "count \<noteq> 0" "preemption_depth (mm_pmm s) < 0xFFFFFFFE"
  shows "\<exists>s'. unmap_memory asp vpn count s = Returned s' \<and> tables_tree asp s' \<and> mm_pmm s' = mm_pmm s \<and>
    (\<forall>v. vpn_to_pfn asp v s' = (if covers vpn count v then Inl STATUS_PAGE_NOT_PRESENT else vpn_to_pfn asp v s))"
  using unmap_memory_unmaps [OF assms] by (simp add: unmapped_range_def)

lemma mapped_unmap_ready:
  assumes "map_ready asp pfn vpn count s" "range_becomes asp vpn count (mapped_to pfn vpn) s s'"
  shows "unmap_ready asp vpn count s'"
proof -
  have u: "upper_alike asp s s'" using assms(2) by (simp add: range_becomes_def)
  show ?thesis
    using assms tables_tree_alike [OF u] path_table_alike [OF u] by (auto simp: map_ready_def unmap_ready_def range_becomes_def mapped_to_def)
qed

theorem paging_unmap_exact_witness:
  "\<exists>s. map_memory 0 100 16 3 MF_WRITABLE tree_mmu = Returned (s, STATUS_SUCCESS) \<and>
    (\<exists>s'. unmap_memory 0 16 3 s = Returned s' \<and> tables_tree 0 s' \<and> mm_pmm s' = mm_pmm s \<and>
      (\<forall>v. vpn_to_pfn 0 v s' = (if covers 16 3 v then Inl STATUS_PAGE_NOT_PRESENT else vpn_to_pfn 0 v s)))"
proof -
  have d: "(3 :: uint64_t) \<noteq> 0" "preemption_depth (mm_pmm tree_mmu) \<noteq> 0xFFFFFFFF" by (simp_all add: tree_mmu_depth)
  obtain s where s: "map_memory 0 100 16 3 MF_WRITABLE tree_mmu = Returned (s, STATUS_SUCCESS)" "range_becomes 0 16 3 (mapped_to 100 16) tree_mmu s"
    using map_memory_maps [OF tree_mmu_ready d, where mapflags = MF_WRITABLE] by blast
  have "mm_pmm s = mm_pmm tree_mmu" by (rule memory_only_root(2)) (use s(2) in \<open>unfold range_becomes_def, blast\<close>)
  then have "preemption_depth (mm_pmm s) < 0xFFFFFFFE" by (simp add: tree_mmu_depth)
  from paging_unmap_exact [OF mapped_unmap_ready [OF tree_mmu_ready s(2)] _ this] show ?thesis using s(1) by simp
qed







end
