(* ===== verification/Mm_Props.thy ===== *)
theory Mm_Props
  imports Vmm_Grow Paging_Props
begin

text \<open>
  The memory manager on top of its layers: a mapping at a given place composes the reservation of the pages
  with the writing of the page tables, and its removal composes the reverse. The lemmas carry the contracts of the
  two layers past each other: reservations do not depend on the tables, and the tables do not depend on reservations.
\<close>

section \<open>Reservations and page tables do not interfere\<close>

fun asp_of :: "vm_slot \<Rightarrow> nat" where
  "asp_of (GlobalSlot d) = BASE_ASP"
| "asp_of (LocalSlot a) = a"

lemma mmu_reservations:
  "vmm_inv S (s\<lparr>vm_mmu := m\<rparr>) = vmm_inv S s" "reservations c (s\<lparr>vm_mmu := m\<rparr>) = reservations c s"
proof -
  have v: "slot_head c (s\<lparr>vm_mmu := m\<rparr>) = slot_head c s" "slot_view c (s\<lparr>vm_mmu := m\<rparr>) = slot_view c s" for c s and m
    by (cases c; simp add: slot_view_def)+
  have p: "pool_view (s\<lparr>vm_mmu := m\<rparr>) = pool_view s" for s and m by (simp add: pool_view_def)
  have h: "handed_out (s\<lparr>vm_mmu := m\<rparr>) = handed_out s" for s and m using handed_out_cong [OF p] .
  have "vmm_inv S (s\<lparr>vm_mmu := m\<rparr>)" if "vmm_inv S s" for s and m
  proof -
    have "slot_list c ns (s\<lparr>vm_mmu := m\<rparr>)" if "slot_list c ns s" for c ns by (rule slot_list_cong [OF _ v(2) _ that]) (simp_all add: h)
    moreover have "pool_ok (s\<lparr>vm_mmu := m\<rparr>)" by (rule pool_ok_cong [OF p _ vmm_inv_pool [OF that]]) simp
    ultimately show ?thesis using that unfolding vmm_inv_def by blast
  qed
  from this [of s m] this [of "s\<lparr>vm_mmu := m\<rparr>" "vm_mmu s"] show "vmm_inv S (s\<lparr>vm_mmu := m\<rparr>) = vmm_inv S s" by auto
  have b: "node_bound (s\<lparr>vm_mmu := m\<rparr>) = node_bound s" by (simp add: node_bound_def)
  have "domain_chain f (s\<lparr>vm_mmu := m\<rparr>) p = domain_chain f s p" for f p by (induction f s p rule: domain_chain.induct) simp_all
  moreover have "region_of (s\<lparr>vm_mmu := m\<rparr>) = region_of s" by (rule ext) (simp add: region_of_def)
  ultimately show "reservations c (s\<lparr>vm_mmu := m\<rparr>) = reservations c s"
    by (simp add: reservations_def node_chain_def v(1) b split: outcome.split)
qed

lemma map_ready_memory:
  assumes "phys_mem m' = phys_mem m" "root_table_pfn m' = root_table_pfn m"
  shows "map_ready asp pfn vpn count m' = map_ready asp pfn vpn count m"
  using same_memory [OF assms] by (simp add: map_ready_def)

lemma cpu_view_memory:
  assumes "cpu_view s' = cpu_view s"
  shows "phys_mem (vm_mmu s') = phys_mem (vm_mmu s)" "root_table_pfn (vm_mmu s') = root_table_pfn (vm_mmu s)"
    "preemption_depth (mm_pmm (vm_mmu s')) = preemption_depth (mm_pmm (vm_mmu s))"
  using assms by (simp_all add: cpu_view_def vm_pmm_def)

text \<open>The pages of a free place are of the kind the operations on the tables accept.\<close>

fun slot_vpn :: "vm_slot \<Rightarrow> uint64_t \<Rightarrow> bool" where
  "slot_vpn (GlobalSlot d) vpn = IS_GLOBAL_VPN vpn"
| "slot_vpn (LocalSlot a) vpn = IS_LOCAL_VPN vpn"

lemma free_place_vpn:
  assumes "free_place slot (request_pages count map_flags) s (vpn - guard_page_count_from_map_flags map_flags)" "request_valid slot count map_flags"
  shows "slot_vpn slot vpn"
proof -
  let ?g = "guard_page_count_from_map_flags map_flags"
  have "unat ?g < unat (request_pages count map_flags)" using request_pages_unat(2) [OF assms(2)] .
  then have "slot_page_status slot vpn s = Inl STATUS_PAGE_NOT_PRESENT"
    using assms(1) is_range_unmapped_iff [of slot "vpn - ?g" "unat (request_pages count map_flags)" s] by (auto simp: free_place_def)
  then show ?thesis
    by (cases slot) (auto simp: StMmP_LocalVirtPageToPhysFrame_def StMmP_GlobalVirtPageToPhysFrame_def split: if_splits)
qed

section \<open>Mapping\<close>

lemma slot_map_maps:
  assumes "map_ready (asp_of slot) (of_nat pfn) vpn count (vm_mmu s)" "count \<noteq> 0" "preemption_depth (vm_pmm s) \<noteq> 0xFFFFFFFF" "slot_vpn slot vpn"
  shows "\<exists>m. slot_map slot pfn vpn count map_flags s = Returned (s\<lparr>vm_mmu := m\<rparr>, STATUS_SUCCESS) \<and>
    range_becomes (asp_of slot) vpn count (mapped_to (of_nat pfn) vpn) (vm_mmu s) m"
proof -
  note m = map_memory_maps [OF assms(1,2) assms(3) [unfolded vm_pmm_def]]
  show ?thesis
  proof (cases slot)
    case (GlobalSlot d)
    then show ?thesis using m [of map_flags] assms(4) by (auto simp: on_mmu_def StMmP_MapGlobalContiguousMemory_def)
  next
    case (LocalSlot a)
    then show ?thesis using m [of "map_flags OR MF_ZERO_FILL"] assms(4) by (auto simp: on_mmu_def StMmP_MapLocalContiguousMemory_def)
  qed
qed

text \<open>The state after a mapping: the new region, and the translation of its pages above the guard.\<close>

definition new_region :: "uint64_t \<Rightarrow> uint64_t \<Rightarrow> uint32_t \<Rightarrow> region" where
  "new_region vpn count map_flags =
     (unat vpn - unat (guard_page_count_from_map_flags map_flags), unat (guard_page_count_from_map_flags map_flags), unat vpn + unat count)"

lemma map_reserved_to_cases:
  assumes "vmm_inv S s" "slot \<in> S" "slot_usable slot s" "node_ready s" "map_ready (asp_of slot) (of_nat pfn) vpn count (vm_mmu s)"
  obtains (ok) s' m where "map_reserved_to slot vpn pfn count owner alloc_flags map_flags s = Returned (s'\<lparr>vm_mmu := m\<rparr>, STATUS_SUCCESS)"
      "request_fits slot vpn count map_flags s" "owner_open (slot_owner slot owner s) s"
      "free_place slot (request_pages count map_flags) s (vpn - guard_page_count_from_map_flags map_flags)"
      "reservations_become S slot (insert (new_region vpn count map_flags) (set (reservations slot s))) s s'"
      "range_becomes (asp_of slot) vpn count (mapped_to (of_nat pfn) vpn) (vm_mmu s') m"
  | (refused) s' st where "map_reserved_to slot vpn pfn count owner alloc_flags map_flags s = Returned (s', st)" "\<not> CHECK_SUCCESS st"
      "reservations_kept S s s'"
      "\<not> (request_fits slot vpn count map_flags s \<and> owner_open (slot_owner slot owner s) s \<and>
          free_place slot (request_pages count map_flags) s (vpn - guard_page_count_from_map_flags map_flags))"
proof (cases rule: slot_reserve_to_cases [OF assms(1-4), of vpn count owner "alloc_flags OR AF_VMM_RESERVATION_MAP" map_flags, case_names ok refused])
  case (ok s')
  note v = cpu_view_memory [of s' s]
  have c: "cpu_view s' = cpu_view s" using ok(5) by (simp add: reservations_become_def)
  have r: "map_ready (asp_of slot) (of_nat pfn) vpn count (vm_mmu s')" using assms(5) map_ready_memory [OF v(1,2) [OF c]] by simp
  have q: "request_valid slot count map_flags" using ok(2) by (simp add: request_fits_def)
  have n: "count \<noteq> 0" using q by (simp add: request_valid_def)
  have d: "preemption_depth (vm_pmm s') \<noteq> 0xFFFFFFFF" using assms(3) v(3) [OF c] by (simp add: slot_usable_def vm_pmm_def)
  obtain m where m: "slot_map slot pfn vpn count map_flags s' = Returned (s'\<lparr>vm_mmu := m\<rparr>, STATUS_SUCCESS)"
      "range_becomes (asp_of slot) vpn count (mapped_to (of_nat pfn) vpn) (vm_mmu s') m"
    using slot_map_maps [OF r n d free_place_vpn [OF ok(4) q]] by blast
  have "map_reserved_to slot vpn pfn count owner alloc_flags map_flags s = Returned (s'\<lparr>vm_mmu := m\<rparr>, STATUS_SUCCESS)"
    using ok(1) m(1) by (simp add: map_reserved_to_def on_success_def)
  then show thesis using that(1) ok(2-5) m(2) unfolding new_region_def by blast
next
  case (refused s' st)
  then have "map_reserved_to slot vpn pfn count owner alloc_flags map_flags s = Returned (s', st)"
    by (simp add: map_reserved_to_def on_success_def)
  then show thesis using that(2) refused by blast
qed

lemma mapped_translation:
  assumes "range_becomes asp vpn count (mapped_to (of_nat pfn) vpn) (vm_mmu s') m" "cpu_view s' = cpu_view s" "pfn < 2 ^ 40"
  shows "vpn_to_pfn asp v m = (if covers vpn count v then Inr (pfn + (unat v - unat vpn)) else vpn_to_pfn asp v (vm_mmu s))"
proof -
  have "unat (of_nat pfn :: uint64_t) = pfn" using assms(3) by (intro unat_nat64) simp
  then show ?thesis
    using assms(1) same_memory(2) [OF cpu_view_memory(1,2) [OF assms(2)]] by (simp add: range_becomes_def mapped_to_def)
qed

section \<open>Properties\<close>


text \<open>The address space of sixteen pages, with page tables for its pages.\<close>

definition tree_vmm :: vmm where "tree_vmm = user_vmm\<lparr>vm_mmu := tree_mmu\<rparr>"

lemma tree_vmm_facts:
  "vmm_inv {LocalSlot 2} tree_vmm" "slot_usable (LocalSlot 2) tree_vmm" "node_ready tree_vmm" "reservations (LocalSlot 2) tree_vmm = []"
  "map_ready (asp_of (LocalSlot 2)) (of_nat 100) 16 3 (vm_mmu tree_vmm)"
proof -
  show "vmm_inv {LocalSlot 2} tree_vmm" "reservations (LocalSlot 2) tree_vmm = []"
    using user_vmm_facts(1,2) by (simp_all add: tree_vmm_def mmu_reservations)
  show "slot_usable (LocalSlot 2) tree_vmm" by (simp add: slot_usable_def tree_vmm_def vm_pmm_def tree_mmu_depth)
  show "node_ready tree_vmm" using user_vmm_facts(4) by (simp add: node_ready_def tree_vmm_def)
  show "map_ready (asp_of (LocalSlot 2)) (of_nat 100) 16 3 (vm_mmu tree_vmm)" using tree_mmu_ready [of 2] by (simp add: tree_vmm_def)
qed

lemma tree_vmm_request:
  "request_fits (LocalSlot 2) 16 3 MF_WRITABLE tree_vmm" "owner_open (slot_owner (LocalSlot 2) None tree_vmm) tree_vmm"
  "free_place (LocalSlot 2) (request_pages 3 MF_WRITABLE) tree_vmm (16 - guard_page_count_from_map_flags MF_WRITABLE)"
  "new_region 16 3 MF_WRITABLE = (16, 0, 19)"
proof -
  have g: "guard_page_count_from_map_flags MF_WRITABLE = 0" "request_valid (LocalSlot 2) 3 MF_WRITABLE"
    by (simp_all add: request_valid_def guard_page_count_from_map_flags_def validate_guard_map_flags_def flag_set_def MF_WRITABLE_def MF_GUARD_def
      MF_GUARD_GROW_DOWN_def)
  have b: "slot_base (LocalSlot 2) tree_vmm = 16" "slot_limit (LocalSlot 2) tree_vmm = 31" using user_vmm_facts(5,6) by (simp_all add: tree_vmm_def)
  show "request_fits (LocalSlot 2) 16 3 MF_WRITABLE tree_vmm" unfolding request_fits_def g(1) b using g(2) by simp
  show "owner_open (slot_owner (LocalSlot 2) None tree_vmm) tree_vmm"
    by (simp add: owner_open_def tree_vmm_def user_vmm_def StVmm_InitLocalDomain_def boot_vmm_def)
  have "slot_page_status (LocalSlot 2) (16 + of_nat i) tree_vmm = Inl STATUS_PAGE_NOT_PRESENT" if "i < 3" for i
  proof -
    have "i = 0 \<or> i = 1 \<or> i = 2" using that by auto
    then have "covers 16 3 (16 + of_nat i)" "IS_LOCAL_VPN (16 + of_nat i)"
      by (auto simp: covers_def IS_LOCAL_VPN_def word_nat MEMMAP_LOCAL_VPN_LIMIT_def)
    then show ?thesis using tree_vmm_facts(5) by (simp add: map_ready_def StMmP_LocalVirtPageToPhysFrame_def)
  qed
  then have "is_range_unmapped (LocalSlot 2) 16 3 tree_vmm" unfolding is_range_unmapped_iff by blast
  then show "free_place (LocalSlot 2) (request_pages 3 MF_WRITABLE) tree_vmm (16 - guard_page_count_from_map_flags MF_WRITABLE)"
    unfolding free_place_def b g(1) request_pages_def tree_vmm_facts(4) by simp
  show "new_region 16 3 MF_WRITABLE = (16, 0, 19)" by (simp add: new_region_def g(1))
qed


section \<open>Unmapping what was mapped\<close>

lemma slot_unmap_unmaps:
  assumes "unmap_ready (asp_of slot) vpn count (vm_mmu s)" "count \<noteq> 0" "preemption_depth (vm_pmm s) < 0xFFFFFFFE" "slot_vpn slot vpn"
  shows "\<exists>m. slot_unmap slot vpn count s = Returned (s\<lparr>vm_mmu := m\<rparr>) \<and> unmapped_range (asp_of slot) vpn count (vm_mmu s) m"
  using unmap_memory_unmaps [OF assms(1,2) assms(3) [unfolded vm_pmm_def]] assms(4)
  by (cases slot) (auto simp: StMmP_UnmapGlobalContiguousMemory_def StMmP_UnmapLocalContiguousMemory_def)

lemma new_region_new:
  assumes "free_place slot (request_pages count map_flags) s (vpn - guard_page_count_from_map_flags map_flags)" "request_valid slot count map_flags"
    and "unat (guard_page_count_from_map_flags map_flags) \<le> unat vpn"
  shows "new_region vpn count map_flags \<notin> set (reservations slot s)"
proof
  let ?g = "guard_page_count_from_map_flags map_flags"
  assume "new_region vpn count map_flags \<in> set (reservations slot s)"
  moreover have "unat (vpn - ?g) = unat vpn - unat ?g" using assms(3) by (rule unat_sub64)
  ultimately have "unat vpn - unat ?g + unat (request_pages count map_flags) \<le> unat vpn - unat ?g \<or> unat vpn + unat count \<le> unat vpn - unat ?g"
    using assms(1) by (auto simp: free_place_def new_region_def)
  then show False using request_pages_unat [OF assms(2)] by auto
qed

lemma unmap_release:
  assumes "vmm_inv S s" "slot \<in> S" "slot_usable slot s" "node_ready s" "map_ready (asp_of slot) (of_nat pfn) vpn count (vm_mmu s)"
    and "preemption_depth (vm_pmm s) < 0xFFFFFFFE"
    and "map_reserved_to slot vpn pfn count owner alloc_flags map_flags s = Returned (s1, STATUS_SUCCESS)"
  shows "\<exists>s2. obind (slot_unmap slot vpn count s1) (slot_release slot vpn count) = Returned s2 \<and> vmm_inv S s2 \<and>
    (\<forall>c\<in>S. set (reservations c s2) = set (reservations c s)) \<and> (\<forall>v. vpn_to_pfn (asp_of slot) v (vm_mmu s2) = vpn_to_pfn (asp_of slot) v (vm_mmu s))"
proof (cases rule: map_reserved_to_cases [OF assms(1-5), of owner alloc_flags map_flags, case_names ok refused])
  case (ok s' m)
  let ?r = "new_region vpn count map_flags"
  have s1: "s1 = s'\<lparr>vm_mmu := m\<rparr>" using ok(1) assms(7) by simp
  have b: "vmm_inv S s'" "cpu_view s' = cpu_view s" "set (reservations slot s') = insert ?r (set (reservations slot s))"
      "\<forall>c\<in>S - {slot}. reservations c s' = reservations c s"
    using ok(5) by (simp_all add: reservations_become_def)
  have q: "request_valid slot count map_flags" "unat (guard_page_count_from_map_flags map_flags) \<le> unat vpn" using ok(2) by (simp_all add: request_fits_def)
  note r' = map_ready_memory [OF cpu_view_memory(1,2) [OF b(2)]]
  have p: "mm_pmm m = mm_pmm (vm_mmu s')" by (rule memory_only_root(2)) (use ok(6) in \<open>unfold range_becomes_def, blast\<close>)
  have d: "preemption_depth (vm_pmm s1) = preemption_depth (vm_pmm s)" using p cpu_view_memory(3) [OF b(2)] by (simp add: s1 vm_pmm_def)
  have "unmap_ready (asp_of slot) vpn count (vm_mmu s1)" using mapped_unmap_ready [OF _ ok(6)] assms(5) r' by (simp add: s1)
  moreover have "count \<noteq> 0" using q(1) by (simp add: request_valid_def)
  ultimately obtain m2 where m2: "slot_unmap slot vpn count s1 = Returned (s1\<lparr>vm_mmu := m2\<rparr>)" "unmapped_range (asp_of slot) vpn count (vm_mmu s1) m2"
    using slot_unmap_unmaps [OF _ _ _ free_place_vpn [OF ok(4) q(1)], of count s1] assms(6) d by auto
  let ?s2 = "s1\<lparr>vm_mmu := m2\<rparr>"
  have i2: "vmm_inv S ?s2" "reservations c ?s2 = reservations c s'" for c using b(1) by (simp_all add: s1 mmu_reservations)
  have p2: "mm_pmm m2 = mm_pmm (vm_mmu s1)" using m2(2) by (simp add: unmapped_range_def)
  have "domain_view ?s2 slot = domain_view s slot" using b(2) by (simp add: s1 cpu_view_def)
  then have "slot_ready slot ?s2 = slot_ready slot s" unfolding domain_view_def by blast
  then have u2: "slot_usable slot ?s2" using assms(3) p2 d by (simp add: slot_usable_def vm_pmm_def)
  have "region_matches vpn count ?r" using q(2) by (simp add: region_matches_def new_region_def)
  then obtain s3 where s3: "slot_release slot vpn count ?s2 = Returned s3" "reservations_become S slot (set (reservations slot ?s2) - {?r}) ?s2 s3"
    using release_of_region [OF i2(1) assms(2) u2, of ?r vpn count] i2(2) b(3) by auto
  have f: "?r \<notin> set (reservations slot s)" by (rule new_region_new [OF ok(4) q])
  have c3: "vmm_inv S s3" "cpu_view s3 = cpu_view ?s2" "set (reservations slot s3) = set (reservations slot s)"
      "\<forall>c\<in>S - {slot}. reservations c s3 = reservations c s"
    using s3(2) i2(2) b(3,4) f by (simp_all add: reservations_become_def)
  have "vpn_to_pfn (asp_of slot) v (vm_mmu s3) = vpn_to_pfn (asp_of slot) v (vm_mmu s)" for v
  proof -
    have "vpn_to_pfn (asp_of slot) v (vm_mmu s3) = (if covers vpn count v then Inl STATUS_PAGE_NOT_PRESENT else vpn_to_pfn (asp_of slot) v m)"
      using same_memory(2) [OF cpu_view_memory(1,2) [OF c3(2)]] m2(2) by (simp add: unmapped_range_def s1)
    moreover have "vpn_to_pfn (asp_of slot) v m = vpn_to_pfn (asp_of slot) v (vm_mmu s)" if "\<not> covers vpn count v"
      using ok(6) that same_memory(2) [OF cpu_view_memory(1,2) [OF b(2)]] by (simp add: range_becomes_def)
    ultimately show ?thesis using assms(5) by (simp add: map_ready_def)
  qed
  then show ?thesis using m2(1) s3(1) c3 by (auto simp: Ball_def)
next
  case (refused s' st)
  then show ?thesis using assms(7) by simp
qed



end
