(* ===== verification/Spec2Isabelle.thy ===== *)
theory Spec2Isabelle
  imports Pmm_Free_Props Pmm_Late Pmm_Debug Mm_Props
begin

text \<open>
  Verification of the kernel of foliOS (\<^verbatim>\<open>strata\<close>).
\<close>

end
